(* ===== verification/Tts_Prelude.thy ===== *)
theory Tts_Prelude
  imports Main "HOL-Library.Word" "HOL-Library.AList"
begin

text \<open>
  Shared vocabulary of the development: the types that the C++ structs of the server are built
  from, the model of the standard containers, the two store interfaces that the board's components
  implement, and the generic lemmas on them.

  \<^item> \<^verbatim>\<open>std::string\<close> is a byte string, so it is \<open>string\<close> (a list of 8-bit characters);
    \<^verbatim>\<open>std::vector<std::uint8_t>\<close> is a list of 8-bit words.
  \<^item> \<^verbatim>\<open>std::unordered_map\<close> is an association list with distinct keys: lookup, insertion through
    \<^verbatim>\<open>operator[]\<close> and \<^verbatim>\<open>erase\<close> are \<open>map_of\<close>, \<open>AList.update\<close> and \<open>AList.delete\<close>; a write through a
    stored pointer is \<open>AList.map_entry\<close>. Iteration follows the list. The order of a real
    \<^verbatim>\<open>unordered_map\<close> is unspecified; every list with the same entries is a legal state of the
    model, and the properties quantify over all of them.
  \<^item> \<^verbatim>\<open>steady_clock::time_point\<close> is an \<open>int\<close> number of nanoseconds since the clock's epoch.
  \<^item> \<^verbatim>\<open>float\<close> is kept as its IEEE-754 bit pattern; the sources only copy floats and compare them
    with zero, and both comparisons are defined on the bits, so zero signs and NaNs are exact.
\<close>

section \<open>Types\<close>

type_synonym bytes = "8 word list"
type_synonym u64 = "64 word"
type_synonym time_point = int
type_synonym f32 = "32 word"
type_synonym ('k, 'v) umap = "('k \<times> 'v) list"

text \<open>A duration given in \<^verbatim>\<open>std::chrono::seconds\<close>, in the nanoseconds of the clock.\<close>

definition secs :: "int \<Rightarrow> int" where
  "secs s = s * 1000000000"

text \<open>The float constant 1.0f, and the two comparisons of a float with zero.\<close>

definition f32_one :: f32 where
  "f32_one = 0x3F800000"

definition f32_nonzero :: "f32 \<Rightarrow> bool" where
  "f32_nonzero x \<longleftrightarrow> x \<noteq> 0 \<and> x \<noteq> 0x80000000"

definition f32_positive :: "f32 \<Rightarrow> bool" where
  "f32_positive x \<longleftrightarrow> x \<noteq> 0 \<and> x \<le> 0x7F800000"

section \<open>Fact collections\<close>

named_theorems store_laws \<open>laws of the key-value stores\<close>
named_theorems frame_simps \<open>what an operation leaves unchanged\<close>

section \<open>Lists\<close>

lemma distinct_length_le:
  assumes "distinct xs" and "set xs \<subseteq> set ys"
  shows "length xs \<le> length ys"
proof -
  have "card (set xs) \<le> card (set ys)" using assms(2) by (intro card_mono) auto
  then show ?thesis using assms(1) card_length [of ys] by (simp add: distinct_card)
qed

lemma distinct_same_set_length:
  assumes "distinct xs" and "distinct ys" and "set xs = set ys"
  shows "length xs = length ys"
  using assms by (metis distinct_card)

lemma last_filter_split:
  assumes "filter P xs \<noteq> []"
  obtains ys x zs where "xs = ys @ x # zs" and "P x" and "\<forall>z\<in>set zs. \<not> P z"
    and "last (filter P xs) = x"
proof -
  from assms obtain x where "x \<in> set xs" "P x" by (auto simp: filter_empty_conv)
  then obtain ys y zs where xs: "xs = ys @ y # zs" "P y" "\<forall>z\<in>set zs. \<not> P z"
    by (metis split_list_last_prop)
  then have "filter P zs = []" by (simp add: filter_empty_conv)
  with xs have "last (filter P xs) = y" by simp
  with xs show thesis by (intro that)
qed

section \<open>Association lists\<close>

lemma map_of_SomeI: "distinct (map fst m) \<Longrightarrow> (k, v) \<in> set m \<Longrightarrow> map_of m k = Some v"
  by simp

lemma map_entry_keys [simp]: "map fst (AList.map_entry k f m) = map fst m"
  by (induction m) auto

lemma map_entry_length [simp]: "length (AList.map_entry k f m) = length m"
  by (induction m) auto

lemma map_entry_id: "map_of m k = None \<Longrightarrow> AList.map_entry k f m = m"
  by (induction m) (auto split: if_splits)

lemma set_map_entry:
  assumes "distinct (map fst m)"
  shows "set (AList.map_entry k f m) =
    (\<lambda>(a, v). (a, if a = k then f v else v)) ` set m"
  using assms by (induction m) (force simp: image_iff)+

lemma set_map_entry_sub:
  "(a, v) \<in> set (AList.map_entry k f m) \<Longrightarrow> \<exists>w. (a, w) \<in> set m \<and> (v = w \<or> a = k \<and> v = f w)"
  by (induction m) (auto split: if_splits)

lemma set_update_sub: "(a, v) \<in> set (AList.update k x m) \<Longrightarrow> (a, v) = (k, x) \<or> (a, v) \<in> set m"
  by (induction m) (auto split: if_splits)

lemma set_delete_sub: "p \<in> set (AList.delete k m) \<longleftrightarrow> p \<in> set m \<and> fst p \<noteq> k"
  by (auto simp: AList.delete_eq)

lemma update_length:
  "length (AList.update k v m) = (if k \<in> fst ` set m then length m else Suc (length m))"
  by (induction m) auto

lemma delete_length:
  assumes "distinct (map fst m)"
  shows "length (AList.delete k m) = (if k \<in> fst ` set m then length m - 1 else length m)"
proof -
  have "length (AList.delete k m) = length (removeAll k (map fst m))"
    by (metis delete_keys length_map)
  also have "\<dots> = length (remove1 k (map fst m))"
    using assms by (simp add: distinct_remove1_removeAll)
  finally show ?thesis by (simp add: length_remove1)
qed

lemma update_keys_fresh: "k \<notin> fst ` set m \<Longrightarrow> map fst (AList.update k v m) = map fst m @ [k]"
  by (simp add: update_keys)

section \<open>Store interfaces\<close>

text \<open>
  The board's clients rely on a store through lookup and erase only: the evolution engine erases
  the ids it collected, the heartbeat the requests it answered. What they need is that an erase
  removes exactly its key and keeps the store's invariant.
\<close>

locale erasable_store =
  fixes find :: "'m \<Rightarrow> 'k \<Rightarrow> 'v option"
    and erase :: "'k \<Rightarrow> 'm \<Rightarrow> 'm"
    and keys :: "'m \<Rightarrow> 'k list"
    and invar :: "'m \<Rightarrow> bool"
  assumes find_erase: "invar m \<Longrightarrow> find (erase k m) k' = (if k' = k then None else find m k')"
    and in_keys: "invar m \<Longrightarrow> k \<in> set (keys m) \<longleftrightarrow> find m k \<noteq> None"
    and distinct_keys: "invar m \<Longrightarrow> distinct (keys m)"
    and invar_erase: "invar m \<Longrightarrow> invar (erase k m)"
begin

lemma invar_fold_erase: "invar m \<Longrightarrow> invar (fold erase ks m)"
  by (induction ks arbitrary: m) (auto simp: invar_erase)

lemma find_fold_erase:
  "invar m \<Longrightarrow> find (fold erase ks m) k = (if k \<in> set ks then None else find m k)"
  by (induction ks arbitrary: m) (auto simp: find_erase invar_erase)

lemma keys_fold_erase:
  assumes "invar m"
  shows "set (keys (fold erase ks m)) = set (keys m) - set ks"
  using assms by (auto simp: in_keys invar_fold_erase find_fold_erase split: if_splits)

lemma length_keys_fold_erase_le:
  assumes "invar m"
  shows "length (keys (fold erase ks m)) \<le> length (keys m)"
proof (rule distinct_length_le)
  show "distinct (keys (fold erase ks m))"
    using assms by (simp add: distinct_keys invar_fold_erase)
  show "set (keys (fold erase ks m)) \<subseteq> set (keys m)"
    using assms by (simp add: keys_fold_erase Diff_subset)
qed

end

text \<open>A store that also takes new entries: lookup after insertion is the inserted value.\<close>

locale keyed_store = erasable_store find erase keys invar
  for find :: "'m \<Rightarrow> 'k \<Rightarrow> 'v option"
    and erase :: "'k \<Rightarrow> 'm \<Rightarrow> 'm"
    and keys :: "'m \<Rightarrow> 'k list"
    and invar :: "'m \<Rightarrow> bool" +
  fixes put :: "'k \<Rightarrow> 'v \<Rightarrow> 'm \<Rightarrow> 'm"
  assumes find_put: "invar m \<Longrightarrow> find (put k v m) k' = (if k' = k then Some v else find m k')"
    and invar_put: "invar m \<Longrightarrow> invar (put k v m)"
begin

lemma erase_put_find:
  "invar m \<Longrightarrow> find (erase k (put k v m)) k' = (if k' = k then None else find m k')"
  by (simp add: find_erase find_put invar_put)

lemma length_keys_put:
  assumes "invar m"
  shows "length (keys (put k v m)) = (if find m k = None then Suc (length (keys m)) else length (keys m))"
proof -
  have s: "set (keys (put k v m)) = insert k (set (keys m))"
    using assms by (auto simp: in_keys invar_put find_put split: if_splits)
  have d: "distinct (keys (put k v m))" "distinct (keys m)"
    using assms by (simp_all add: distinct_keys invar_put)
  have "length (keys (put k v m)) = card (insert k (set (keys m)))"
    using s d(1) by (metis distinct_card)
  also have "\<dots> = (if k \<in> set (keys m) then length (keys m) else Suc (length (keys m)))"
    using d(2) by (simp add: card_insert_if distinct_card)
  finally show ?thesis using assms by (simp add: in_keys)
qed

end

text \<open>The association-list model of \<^verbatim>\<open>std::unordered_map\<close> is such a store.\<close>

interpretation umap: keyed_store "map_of" "AList.delete" "map fst" "\<lambda>m. distinct (map fst m)"
  "AList.update"
proof
  show "map_of (AList.delete k m) k' = (if k' = k then None else map_of m k')"
    for k k' :: 'a and m :: "('a \<times> 'b) list"
    by (simp add: delete_conv)
  show "k \<in> set (map fst m) \<longleftrightarrow> map_of m k \<noteq> None" for k :: 'a and m :: "('a \<times> 'b) list"
    by (simp add: map_of_eq_None_iff)
qed (simp_all add: distinct_delete distinct_update update_conv)

section \<open>Invariants of components that run a sequence of operations\<close>

text \<open>
  A component is a step function over its state; \<open>guard\<close> says under which condition a caller issues
  an operation, and \<open>all_guarded\<close> that every operation of a run meets it in the state it finds.
\<close>

fun all_guarded :: "('op \<Rightarrow> 's \<Rightarrow> bool) \<Rightarrow> ('op \<Rightarrow> 's \<Rightarrow> 's) \<Rightarrow> 'op list \<Rightarrow> 's \<Rightarrow> bool" where
  "all_guarded guard step [] s = True"
| "all_guarded guard step (x # xs) s = (guard x s \<and> all_guarded guard step xs (step x s))"

lemma all_guarded_True: "all_guarded (\<lambda>_ _. True) step xs q"
  by (induction xs arbitrary: q) auto

locale guarded_system =
  fixes step :: "'op \<Rightarrow> 's \<Rightarrow> 's"
    and guard :: "'op \<Rightarrow> 's \<Rightarrow> bool"
    and good :: "'s \<Rightarrow> bool"
  assumes step_good: "good s \<Longrightarrow> guard x s \<Longrightarrow> good (step x s)"
begin

lemma run_good: "good s \<Longrightarrow> all_guarded guard step xs s \<Longrightarrow> good (fold step xs s)"
  by (induction xs arbitrary: s) (simp_all add: step_good)

lemma prefix_good:
  "good s \<Longrightarrow> all_guarded guard step (xs @ ys) s \<Longrightarrow> good (fold step xs s)"
  by (induction xs arbitrary: s) (simp_all add: step_good)

end

section \<open>Textual encodings\<close>

text \<open>
  An encoding and the decoder its clients use on it. The law is the round trip; what the clients
  take from it is that different values never share an encoding.
\<close>

locale text_codec =
  fixes enc :: "'a \<Rightarrow> 'b"
    and dec :: "'b \<Rightarrow> 'a"
  assumes dec_enc: "dec (enc x) = x"
begin

lemma enc_inj: "inj enc"
  by (rule injI) (metis dec_enc)

lemma enc_eq_iff: "enc x = enc y \<longleftrightarrow> x = y"
  by (metis dec_enc)

lemma dec_surj: "surj dec"
  by (metis dec_enc surjI)

end

text \<open>Replacing one element of a list, as one of several threads moves.\<close>

lemma in_list_update: "x \<in> set (xs[i := y]) \<Longrightarrow> x \<noteq> y \<Longrightarrow> x \<in> set xs"
  using set_update_subset_insert [of xs i y] by blast

lemma sum_list_replace:
  fixes f :: "'a \<Rightarrow> 'b::comm_monoid_add"
  assumes "i < length xs" and "xs ! i = x"
  shows "sum_list (map f (xs[i := y])) + f x = sum_list (map f xs) + f y"
proof -
  have "sum_list (map f xs) = sum_list (map f (take i xs)) + (f x + sum_list (map f (drop (Suc i) xs)))"
    using id_take_nth_drop [OF assms(1)] assms(2) by (metis list.simps(9) map_append sum_list.Cons sum_list_append)
  moreover have "sum_list (map f (xs[i := y])) = sum_list (map f (take i xs)) + (f y + sum_list (map f (drop (Suc i) xs)))"
    by (simp add: upd_conv_take_nth_drop [OF assms(1)])
  ultimately show ?thesis by (simp add: ac_simps)
qed

section \<open>Step relations\<close>

text \<open>Runs of a labelled step relation, and states in which no step of a given kind can be made.\<close>

inductive runs :: "('s \<Rightarrow> 'e \<Rightarrow> 's \<Rightarrow> bool) \<Rightarrow> 's \<Rightarrow> 'e list \<Rightarrow> 's \<Rightarrow> bool" for step where
  Nil: "runs step s [] s"
| Cons: "step s e s' \<Longrightarrow> runs step s' es s'' \<Longrightarrow> runs step s (e # es) s''"

definition at_rest :: "('s \<Rightarrow> 'e \<Rightarrow> 's \<Rightarrow> bool) \<Rightarrow> ('e \<Rightarrow> bool) \<Rightarrow> 's \<Rightarrow> bool" where
  "at_rest step progress s \<longleftrightarrow> (\<forall>e s'. progress e \<longrightarrow> \<not> step s e s')"

lemma runs_append: "runs step s es s' \<Longrightarrow> runs step s' es' s'' \<Longrightarrow> runs step s (es @ es') s''"
  by (induction rule: runs.induct) (auto intro: runs.Cons)

lemma runs_invariant:
  assumes "runs step s es s'" and "P s" and "\<And>s e s'. step s e s' \<Longrightarrow> P s \<Longrightarrow> P s'"
  shows "P s'"
  using assms by (induction rule: runs.induct) auto

text \<open>As \<open>runs_invariant\<close>, for runs of steps of one kind.\<close>

lemma runs_invariant_kind:
  assumes "runs step s es s'" and "list_all kind es" and "P s" and "\<And>s e s'. step s e s' \<Longrightarrow> kind e \<Longrightarrow> P s \<Longrightarrow> P s'"
  shows "P s'"
  using assms by (induction rule: runs.induct) auto

text \<open>
  Steps of one kind that descend in a well-founded order come to rest, and do not go on without end. If what they lower is a weight, there are
  no more of them than the weight.
\<close>

locale ordered_system =
  fixes step :: "'s \<Rightarrow> 'e \<Rightarrow> 's \<Rightarrow> bool" and progress :: "'e \<Rightarrow> bool" and order :: "('s \<times> 's) set"
  assumes wf_order: "wf order" and descends: "step s e s' \<Longrightarrow> progress e \<Longrightarrow> (s', s) \<in> order"
begin

lemma comes_to_rest: "\<exists>es s'. runs step s es s' \<and> list_all progress es \<and> at_rest step progress s'"
  using wf_order
proof (induction s rule: wf_induct_rule)
  case (less s)
  show ?case
  proof (cases "at_rest step progress s")
    case True
    then show ?thesis by (intro exI [of _ "[]"] exI [of _ s]) (simp add: runs.Nil)
  next
    case False
    then obtain e t where t: "progress e" "step s e t" by (auto simp: at_rest_def)
    from less.IH [OF descends [OF t(2,1)]] obtain es s' where
      "runs step t es s'" "list_all progress es" "at_rest step progress s'" by blast
    then show ?thesis using t by (intro exI [of _ "e # es"] exI [of _ s']) (auto intro: runs.Cons)
  qed
qed

lemma no_endless_run: "\<exists>i. \<not> (step (f i) (es i) (f (Suc i)) \<and> progress (es i))"
  using wf_order descends unfolding wf_iff_no_infinite_down_chain by blast

end

locale measured_system =
  fixes step :: "'s \<Rightarrow> 'e \<Rightarrow> 's \<Rightarrow> bool" and progress :: "'e \<Rightarrow> bool" and weight :: "'s \<Rightarrow> nat"
  assumes lowers: "step s e s' \<Longrightarrow> progress e \<Longrightarrow> weight s' < weight s"
begin

lemma run_bounded: "runs step s es s' \<Longrightarrow> list_all progress es \<Longrightarrow> length es + weight s' \<le> weight s"
  by (induction rule: runs.induct) (auto dest: lowers)

end

sublocale measured_system \<subseteq> ordered_system step progress "measure weight"
  by unfold_locales (simp_all add: lowers)

end
