(* ===== verification/Messages.thy ===== *)
theory Messages
  imports Tts_Prelude
begin

text \<open>
  The value types that flow between the stages of the server: \<^verbatim>\<open>src/framework/messages.h\<close> (requests,
  upstream responses, cancellations, local synthesis results, and the \<^verbatim>\<open>Message\<close> variant over them)
  and \<^verbatim>\<open>src/framework/change_set.h\<close> (the side effects one heartbeat asks for). Enumerations are
  datatypes with the source's enumerators, structs are records whose fields carry a short prefix per
  struct, and the default member initialisers are the \<open>default_\<close> constants.
\<close>

section \<open>Enumerations and their names\<close>

datatype model = Model_Unspecified | Speech28Hd | Speech28Turbo | Speech26Hd | Speech26Turbo
  | Speech02Hd | Speech02Turbo | Speech01Hd | Speech01Turbo

fun model_to_string :: "model \<Rightarrow> string" where
  "model_to_string Speech28Hd = ''speech-2.8-hd''"
| "model_to_string Speech28Turbo = ''speech-2.8-turbo''"
| "model_to_string Speech26Hd = ''speech-2.6-hd''"
| "model_to_string Speech26Turbo = ''speech-2.6-turbo''"
| "model_to_string Speech02Hd = ''speech-02-hd''"
| "model_to_string Speech02Turbo = ''speech-02-turbo''"
| "model_to_string Speech01Hd = ''speech-01-hd''"
| "model_to_string Speech01Turbo = ''speech-01-turbo''"
| "model_to_string Model_Unspecified = []"

definition model_from_string :: "string \<Rightarrow> model" where
  "model_from_string s =
    (if s = ''speech-2.8-hd'' then Speech28Hd
     else if s = ''speech-2.8-turbo'' then Speech28Turbo
     else if s = ''speech-2.6-hd'' then Speech26Hd
     else if s = ''speech-2.6-turbo'' then Speech26Turbo
     else if s = ''speech-02-hd'' then Speech02Hd
     else if s = ''speech-02-turbo'' then Speech02Turbo
     else if s = ''speech-01-hd'' then Speech01Hd
     else if s = ''speech-01-turbo'' then Speech01Turbo
     else Model_Unspecified)"

datatype audio_format = Fmt_Unspecified | Mp3 | Pcm | Flac | Wav

fun format_to_string :: "audio_format \<Rightarrow> string" where
  "format_to_string Mp3 = ''mp3''"
| "format_to_string Pcm = ''pcm''"
| "format_to_string Flac = ''flac''"
| "format_to_string Wav = ''wav''"
| "format_to_string Fmt_Unspecified = []"

definition format_from_string :: "string \<Rightarrow> audio_format" where
  "format_from_string s =
    (if s = ''mp3'' then Mp3
     else if s = ''pcm'' then Pcm
     else if s = ''flac'' then Flac
     else if s = ''wav'' then Wav
     else Fmt_Unspecified)"

datatype request_kind = OpenStream | StreamChunk | FinishStream

datatype backend = Backend_Auto | Backend_Local | Backend_Upstream

datatype ws_event_kind = WsConnected | WsTaskStarted | WsAudioChunk | WsTaskFinished
  | WsTaskFailed | WsDisconnected

section \<open>Messages\<close>

record voice_settings =
  vs_voice_id :: string
  vs_speed :: f32
  vs_vol :: f32
  vs_pitch :: int
  vs_emotion :: "string option"
  vs_english_normalization :: bool

record audio_settings =
  as_sample_rate :: int
  as_bitrate :: int
  as_format :: audio_format
  as_channel :: int

record tts_request_msg =
  rq_request_id :: string
  rq_kind :: request_kind
  rq_text :: string
  rq_model :: model
  rq_voice :: voice_settings
  rq_audio :: audio_settings
  rq_backend :: backend
  rq_deadline :: time_point

record tts_response_msg =
  rs_session_id :: string
  rs_request_id :: string
  rs_kind :: ws_event_kind
  rs_audio_hex :: string
  rs_is_final :: bool
  rs_sample_rate :: int
  rs_channels :: int
  rs_usage_characters :: int
  rs_status_code :: int
  rs_status_msg :: string
  rs_trace_id :: string

record cancel_request_msg =
  cn_request_id :: string
  cn_reason :: string

record local_synth_complete_msg =
  lc_request_id :: string
  lc_session_id :: string
  lc_audio :: bytes
  lc_sample_rate :: int
  lc_channels :: int
  lc_format :: audio_format
  lc_usage_ms :: int
  lc_status_code :: int
  lc_status_msg :: string

record local_synth_failed_msg =
  lf_request_id :: string
  lf_session_id :: string
  lf_status_code :: int
  lf_status_msg :: string

datatype message =
    ReqMsg tts_request_msg
  | RspMsg tts_response_msg
  | CancelMsg cancel_request_msg
  | CompleteMsg local_synth_complete_msg
  | FailedMsg local_synth_failed_msg

definition default_voice_settings :: voice_settings where
  "default_voice_settings = \<lparr>vs_voice_id = ''male-qn-qingse'', vs_speed = f32_one, vs_vol = f32_one,
     vs_pitch = 0, vs_emotion = None, vs_english_normalization = False\<rparr>"

definition default_audio_settings :: audio_settings where
  "default_audio_settings = \<lparr>as_sample_rate = 16000, as_bitrate = 128000, as_format = Mp3,
     as_channel = 1\<rparr>"

definition default_request :: tts_request_msg where
  "default_request = \<lparr>rq_request_id = [], rq_kind = StreamChunk, rq_text = [],
     rq_model = Speech28Turbo, rq_voice = default_voice_settings,
     rq_audio = default_audio_settings, rq_backend = Backend_Auto, rq_deadline = 0\<rparr>"

definition default_response :: tts_response_msg where
  "default_response = \<lparr>rs_session_id = [], rs_request_id = [], rs_kind = WsAudioChunk,
     rs_audio_hex = [], rs_is_final = False, rs_sample_rate = 0, rs_channels = 0,
     rs_usage_characters = 0, rs_status_code = 0, rs_status_msg = [], rs_trace_id = []\<rparr>"

definition default_complete :: local_synth_complete_msg where
  "default_complete = \<lparr>lc_request_id = [], lc_session_id = [], lc_audio = [],
     lc_sample_rate = 16000, lc_channels = 1, lc_format = Pcm, lc_usage_ms = 0,
     lc_status_code = 0, lc_status_msg = []\<rparr>"

definition default_failed :: local_synth_failed_msg where
  "default_failed = \<lparr>lf_request_id = [], lf_session_id = [], lf_status_code = 0,
     lf_status_msg = []\<rparr>"

section \<open>Change sets\<close>

datatype out_ws_op = TaskStart | TaskContinue | TaskFinish

record out_ws_frame =
  wf_session_id :: string
  wf_op :: out_ws_op
  wf_payload_json :: string

record write_to_client =
  wc_request_id :: string
  wc_audio :: bytes
  wc_sample_rate :: int
  wc_channels :: int
  wc_format :: audio_format
  wc_is_final :: bool
  wc_cumulative_bytes :: int
  wc_audio_length_ms :: int
  wc_status_code :: int
  wc_status_msg :: string
  wc_trace_id :: string

record close_session =
  cl_session_id :: string
  cl_reason :: string

record local_synth_job =
  lj_request_id :: string
  lj_text :: string
  lj_voice_id :: string
  lj_speed :: f32
  lj_session_dummy :: int

record change_set =
  ws_frames :: "out_ws_frame list"
  client_writes :: "write_to_client list"
  close_sessions :: "close_session list"
  emit_messages :: "message list"
  local_jobs :: "local_synth_job list"

definition default_write :: write_to_client where
  "default_write = \<lparr>wc_request_id = [], wc_audio = [], wc_sample_rate = 16000, wc_channels = 1,
     wc_format = Mp3, wc_is_final = False, wc_cumulative_bytes = 0, wc_audio_length_ms = 0,
     wc_status_code = 0, wc_status_msg = [], wc_trace_id = []\<rparr>"

definition default_job :: local_synth_job where
  "default_job = \<lparr>lj_request_id = [], lj_text = [], lj_voice_id = [], lj_speed = f32_one,
     lj_session_dummy = 0\<rparr>"

definition empty_change_set :: change_set where
  "empty_change_set = \<lparr>ws_frames = [], client_writes = [], close_sessions = [],
     emit_messages = [], local_jobs = []\<rparr>"

definition change_set_empty :: "change_set \<Rightarrow> bool" where
  "change_set_empty cs \<longleftrightarrow> ws_frames cs = [] \<and> client_writes cs = [] \<and> close_sessions cs = [] \<and>
     emit_messages cs = [] \<and> local_jobs cs = []"

definition change_set_total :: "change_set \<Rightarrow> nat" where
  "change_set_total cs = length (ws_frames cs) + length (client_writes cs) +
     length (close_sessions cs) + length (emit_messages cs) + length (local_jobs cs)"

section \<open>Lemmas\<close>

lemmas message_defaults = default_voice_settings_def default_audio_settings_def
  default_request_def default_response_def default_complete_def default_failed_def
  default_write_def default_job_def empty_change_set_def

lemma empty_change_set_simps [simp]:
  "ws_frames empty_change_set = []" "client_writes empty_change_set = []"
  "close_sessions empty_change_set = []" "emit_messages empty_change_set = []"
  "local_jobs empty_change_set = []"
  by (simp_all add: empty_change_set_def)

lemma change_set_total_zero: "change_set_total cs = 0 \<longleftrightarrow> change_set_empty cs"
  by (auto simp: change_set_total_def change_set_empty_def)

lemma model_from_to_string: "model_from_string (model_to_string m) = m"
  by (cases m) (simp_all add: model_from_string_def)

lemma format_from_to_string: "format_from_string (format_to_string f) = f"
  by (cases f) (simp_all add: format_from_string_def)

interpretation model_name: text_codec model_to_string model_from_string
  by unfold_locales (rule model_from_to_string)

interpretation format_name: text_codec format_to_string format_from_string
  by unfold_locales (rule format_from_to_string)

lemma model_to_from_string:
  "model_from_string s \<noteq> Model_Unspecified \<Longrightarrow> model_to_string (model_from_string s) = s"
  by (simp add: model_from_string_def split: if_splits)

lemma format_to_from_string:
  "format_from_string s \<noteq> Fmt_Unspecified \<Longrightarrow> format_to_string (format_from_string s) = s"
  by (simp add: format_from_string_def split: if_splits)

section \<open>Properties\<close>

text \<open>
  The names of the models and of the audio formats round-trip: parsing a printed name gives the
  value back, so different values have different names, and a name that is recognised at all is
  printed back unchanged.
\<close>

theorem enum_names_roundtrip:
  "model_from_string (model_to_string m) = m \<and> format_from_string (format_to_string f) = f \<and>
   (model_to_string m = model_to_string m' \<longleftrightarrow> m = m') \<and>
   (format_to_string f = format_to_string f' \<longleftrightarrow> f = f') \<and>
   model_to_string (model_from_string s) = (if model_from_string s = Model_Unspecified then [] else s) \<and>
   format_to_string (format_from_string s) = (if format_from_string s = Fmt_Unspecified then [] else s)"
  by (simp add: model_name.dec_enc format_name.dec_enc model_name.enc_eq_iff format_name.enc_eq_iff
      model_to_from_string format_to_from_string)

end
