(* ===== verification/Copy_Channel.thy ===== *)
theory Copy_Channel
  imports Messages
begin

text \<open>
  The inter-thread queue \<^verbatim>\<open>CopyChannel<T>\<close> of \<^verbatim>\<open>src/framework/copy_channel.h\<close>. Every member function
  holds the mutex for its whole effect, so each is one atomic step on the pair of the buffer and the
  closed flag. A thread that waits on the condition variable is modelled at its wake-up: a blocking
  \<^verbatim>\<open>recv\<close> is not enabled while the buffer is empty and the channel open, and a timed \<^verbatim>\<open>recv\<close>
  evaluates its predicate on the state it finds when it returns. The waiting itself is the subject of \<open>Channel_Threads\<close>.

  The interface \<open>fifo_channel\<close> states what the clients (message processor, frame scheduler, stream
  handlers) rely on; \<open>chan_run\<close> runs an arbitrary interleaving of operations.
\<close>

section \<open>State and operations\<close>

record 'a copy_channel =
  buffer :: "'a list"
  closed :: bool

datatype channel_error = ChannelClosed

definition new_channel :: "'a copy_channel" where
  "new_channel = \<lparr>buffer = [], closed = False\<rparr>"

definition send :: "'a \<Rightarrow> 'a copy_channel \<Rightarrow> channel_error + 'a copy_channel" where
  "send v c = (if closed c then Inl ChannelClosed else Inr (c\<lparr>buffer := buffer c @ [v]\<rparr>))"

definition try_send :: "'a \<Rightarrow> 'a copy_channel \<Rightarrow> bool \<times> 'a copy_channel" where
  "try_send v c = (if closed c then (False, c) else (True, c\<lparr>buffer := buffer c @ [v]\<rparr>))"

definition recv_for :: "'a copy_channel \<Rightarrow> 'a option \<times> 'a copy_channel" where
  "recv_for c = (if \<not> (buffer c \<noteq> [] \<or> closed c) then (None, c)
     else case buffer c of [] \<Rightarrow> (None, c) | v # rest \<Rightarrow> (Some v, c\<lparr>buffer := rest\<rparr>))"

definition recv_timeout :: "'a copy_channel \<Rightarrow> 'a option \<times> 'a copy_channel" where
  "recv_timeout c = (if \<not> (buffer c \<noteq> [] \<or> closed c) then (None, c)
     else case buffer c of [] \<Rightarrow> (None, c) | v # rest \<Rightarrow> (Some v, c\<lparr>buffer := rest\<rparr>))"

definition recv :: "'a copy_channel \<Rightarrow> ('a option \<times> 'a copy_channel) option" where
  "recv c = (if \<not> (buffer c \<noteq> [] \<or> closed c) then None
     else Some (case buffer c of [] \<Rightarrow> (None, c) | v # rest \<Rightarrow> (Some v, c\<lparr>buffer := rest\<rparr>)))"

fun drain_loop :: "'a list \<Rightarrow> 'a list \<Rightarrow> 'a list" where
  "drain_loop [] out = out"
| "drain_loop (v # rest) out = drain_loop rest (out @ [v])"

definition swap_out_all :: "'a list \<Rightarrow> 'a copy_channel \<Rightarrow> 'a list \<times> 'a copy_channel" where
  "swap_out_all out c = (drain_loop (buffer c) out, c\<lparr>buffer := []\<rparr>)"

definition channel_size :: "'a copy_channel \<Rightarrow> nat" where
  "channel_size c = length (buffer c)"

definition close :: "'a copy_channel \<Rightarrow> 'a copy_channel" where
  "close c = c\<lparr>closed := True\<rparr>"

definition is_closed :: "'a copy_channel \<Rightarrow> bool" where
  "is_closed c = closed c"

section \<open>Interleavings\<close>

text \<open>
  One operation of any thread. \<open>chan_run\<close> executes a list of them in the order in which the threads
  obtain the mutex and logs what was received and which values were accepted.
\<close>

datatype 'a chan_op = Send 'a | TrySend 'a | RecvFor | SwapOutAll | Close

record 'a chan_log =
  received :: "'a list"
  accepted :: "'a list"

fun chan_step :: "'a chan_op \<Rightarrow> 'a copy_channel \<times> 'a chan_log \<Rightarrow> 'a copy_channel \<times> 'a chan_log" where
  "chan_step (Send v) (c, l) =
     (case send v c of Inl _ \<Rightarrow> (c, l) | Inr c' \<Rightarrow> (c', l\<lparr>accepted := accepted l @ [v]\<rparr>))"
| "chan_step (TrySend v) (c, l) =
     (case try_send v c of (ok, c') \<Rightarrow> (c', if ok then l\<lparr>accepted := accepted l @ [v]\<rparr> else l))"
| "chan_step RecvFor (c, l) =
     (case recv_for c of (None, c') \<Rightarrow> (c', l)
      | (Some v, c') \<Rightarrow> (c', l\<lparr>received := received l @ [v]\<rparr>))"
| "chan_step SwapOutAll (c, l) =
     (case swap_out_all [] c of (vs, c') \<Rightarrow> (c', l\<lparr>received := received l @ vs\<rparr>))"
| "chan_step Close (c, l) = (close c, l)"

definition chan_run :: "'a chan_op list \<Rightarrow> 'a copy_channel \<times> 'a chan_log" where
  "chan_run ops = fold chan_step ops (new_channel, \<lparr>received = [], accepted = []\<rparr>)"

section \<open>The interface of a first-in first-out channel\<close>

locale fifo_channel =
  fixes contents :: "'c \<Rightarrow> 'a list"
    and open_for :: "'c \<Rightarrow> bool"
    and push :: "'a \<Rightarrow> 'c \<Rightarrow> 'c"
    and drain :: "'c \<Rightarrow> 'a list \<times> 'c"
  assumes push_contents: "open_for c \<Longrightarrow> contents (push v c) = contents c @ [v]"
    and push_open: "open_for c \<Longrightarrow> open_for (push v c)"
    and drain_result: "fst (drain c) = contents c"
    and drain_contents: "contents (snd (drain c)) = []"
    and drain_open: "open_for (snd (drain c)) = open_for c"
begin

lemma fold_push_open: "open_for c \<Longrightarrow> open_for (fold push vs c)"
  by (induction vs arbitrary: c) (simp_all add: push_open)

lemma fold_push_contents: "open_for c \<Longrightarrow> contents (fold push vs c) = contents c @ vs"
  by (induction vs arbitrary: c) (simp_all add: push_contents push_open)

lemma drain_fold_push: "open_for c \<Longrightarrow> fst (drain (fold push vs c)) = contents c @ vs"
  by (simp add: drain_result fold_push_contents)

lemma second_drain_empty: "fst (drain (snd (drain c))) = []"
  by (simp add: drain_result drain_contents)

end

section \<open>Lemmas\<close>

lemma recv_timeout_eq: "recv_timeout = recv_for"
  by (intro ext) (simp add: recv_timeout_def recv_for_def)

lemmas channel_defs = send_def try_send_def recv_for_def recv_def swap_out_all_def close_def
  channel_size_def is_closed_def new_channel_def

lemma drain_loop_append: "drain_loop buf out = out @ buf"
  by (induction buf arbitrary: out) auto

lemma swap_out_all_result: "swap_out_all out c = (out @ buffer c, c\<lparr>buffer := []\<rparr>)"
  by (simp add: swap_out_all_def drain_loop_append)

interpretation chan: fifo_channel buffer "\<lambda>c. \<not> closed c" "\<lambda>v c. snd (try_send v c)" "swap_out_all []"
  by unfold_locales (auto simp: try_send_def swap_out_all_result)

lemma send_try_send: "\<not> closed c \<Longrightarrow> send v c = Inr (snd (try_send v c))"
  by (simp add: send_def try_send_def)

lemma chan_step_conserves:
  assumes "chan_step op (c, l) = (c', l')" and "received l @ buffer c = accepted l"
  shows "received l' @ buffer c' = accepted l'"
  using assms
  by (cases op)
    (auto simp: send_def try_send_def recv_for_def swap_out_all_result close_def
      split: sum.splits if_splits list.splits option.splits)

lemma chan_fold_conserves:
  "received (snd s) @ buffer (fst s) = accepted (snd s) \<Longrightarrow>
   received (snd (fold chan_step ops s)) @ buffer (fst (fold chan_step ops s)) =
     accepted (snd (fold chan_step ops s))"
proof (induction ops arbitrary: s)
  case Nil
  then show ?case by simp
next
  case (Cons op ops)
  obtain c l c' l' where s: "s = (c, l)" and s': "chan_step op s = (c', l')" by fastforce
  with Cons.prems have "received l' @ buffer c' = accepted l'"
    using chan_step_conserves [of op c l c' l'] by simp
  with Cons.IH [of "(c', l')"] s' show ?case by simp
qed

lemma chan_step_closed:
  assumes "closed c" and "chan_step op (c, l) = (c', l')"
  shows "closed c' \<and> accepted l' = accepted l"
  using assms
  by (cases op)
    (auto simp: send_def try_send_def recv_for_def swap_out_all_result close_def
      split: sum.splits if_splits list.splits option.splits)

lemma chan_fold_closed:
  "closed (fst s) \<Longrightarrow> closed (fst (fold chan_step ops s)) \<and>
   accepted (snd (fold chan_step ops s)) = accepted (snd s)"
proof (induction ops arbitrary: s)
  case Nil
  then show ?case by simp
next
  case (Cons op ops)
  obtain c l c' l' where s: "s = (c, l)" and s': "chan_step op s = (c', l')" by fastforce
  with Cons.prems have "closed c' \<and> accepted l' = accepted l"
    using chan_step_closed [of c op l c' l'] by simp
  with Cons.IH [of "(c', l')"] s s' show ?case by simp
qed

section \<open>Properties\<close>

text \<open>
  First in, first out, nothing lost: after any interleaving of operations by any number of
  threads, what was received so far followed by what is still buffered is exactly the sequence of
  accepted values, in the order of acceptance.
\<close>

theorem channel_fifo:
  "received (snd (chan_run ops)) @ buffer (fst (chan_run ops)) = accepted (snd (chan_run ops))"
  unfolding chan_run_def by (rule chan_fold_conserves) (simp add: new_channel_def)

text \<open>
  Closing is final and loses nothing: whatever the threads do after a close, the channel stays
  closed and accepts no value, and the values accepted before it are still delivered in order.
\<close>

theorem channel_close_final:
  "closed (fst (chan_run (ops @ Close # ops'))) \<and>
   accepted (snd (chan_run (ops @ Close # ops'))) = accepted (snd (chan_run ops)) \<and>
   received (snd (chan_run (ops @ Close # ops'))) @ buffer (fst (chan_run (ops @ Close # ops'))) =
     accepted (snd (chan_run ops))"
proof -
  obtain c l where run: "chan_run ops = (c, l)" by fastforce
  then have run': "chan_run (ops @ Close # ops') = fold chan_step ops' (close c, l)"
    by (simp add: chan_run_def)
  have "received l @ buffer c = accepted l"
    using chan_fold_conserves [of "(new_channel, \<lparr>received = [], accepted = []\<rparr>)" ops] run
    by (simp add: chan_run_def new_channel_def)
  then have "received (snd (fold chan_step ops' (close c, l))) @
      buffer (fst (fold chan_step ops' (close c, l))) =
      accepted (snd (fold chan_step ops' (close c, l)))"
    by (intro chan_fold_conserves) (simp add: close_def)
  with chan_fold_closed [of "(close c, l)" ops'] run run' show ?thesis
    by (simp add: close_def)
qed

end
