(* ===== verification/Session_Pool.thy ===== *)
theory Session_Pool
  imports Messages
begin

text \<open>
  The pool of upstream WebSocket sessions, \<^verbatim>\<open>src/databoard/session_pool.h\<close>: a bounded map from session
  ids to records and a recency list whose front is the most recently used session. Every public
  member function is one definition; those that read \<^verbatim>\<open>steady_clock::now()\<close> take the reading as an
  argument. The heartbeat also writes \<^verbatim>\<open>current_request_id\<close> through the pointer that \<^verbatim>\<open>get\<close> returns,
  which is \<open>set_current_request\<close>.

  \<open>pool_wf\<close> is the invariant that every sequence of calls keeps; \<open>pool_inv\<close> adds that the recency
  list has no duplicates, which needs that no session is added under an id already in the pool.
  \<open>recency\<close> abstracts the pool to the list of its records in order of use, and the operations refine
  the ones on that list (\<open>spec_exec\<close>).
\<close>

section \<open>State\<close>

datatype session_state = Cold | Connecting | Ready | Streaming | Draining | Closed | Errored

fun session_state_to_string :: "session_state \<Rightarrow> string" where
  "session_state_to_string Cold = ''Cold''"
| "session_state_to_string Connecting = ''Connecting''"
| "session_state_to_string Ready = ''Ready''"
| "session_state_to_string Streaming = ''Streaming''"
| "session_state_to_string Draining = ''Draining''"
| "session_state_to_string Closed = ''Closed''"
| "session_state_to_string Errored = ''Errored''"

record session_record =
  sr_session_id :: string
  sr_state :: session_state
  sr_created_at :: time_point
  sr_last_active_at :: time_point
  sr_current_request_id :: string
  sr_last_error :: string

record session_pool =
  max_size :: nat
  idle_timeout :: int
  max_lifetime :: int
  sessions :: "(string, session_record) umap"
  lru :: "string list"

definition default_session :: session_record where
  "default_session = \<lparr>sr_session_id = [], sr_state = Cold, sr_created_at = 0,
     sr_last_active_at = 0, sr_current_request_id = [], sr_last_error = []\<rparr>"

definition new_pool :: "nat \<Rightarrow> int \<Rightarrow> int \<Rightarrow> session_pool" where
  "new_pool n idle life = \<lparr>max_size = n, idle_timeout = idle, max_lifetime = life,
     sessions = [], lru = []\<rparr>"

section \<open>Operations\<close>

definition pool_size :: "session_pool \<Rightarrow> nat" where
  "pool_size p = length (sessions p)"

definition idle_count :: "session_pool \<Rightarrow> nat" where
  "idle_count p = length (filter (\<lambda>(_, r). sr_state r = Ready) (sessions p))"

definition idle_count_unsafe :: "session_pool \<Rightarrow> nat" where
  "idle_count_unsafe p = fold (\<lambda>(_, r) n. if sr_state r = Ready then Suc n else n) (sessions p) 0"

definition active_count :: "session_pool \<Rightarrow> nat" where
  "active_count p = length (sessions p) - idle_count_unsafe p"

definition move_to_front_locked :: "string \<Rightarrow> session_pool \<Rightarrow> session_pool" where
  "move_to_front_locked i p = p\<lparr>lru := i # removeAll i (lru p)\<rparr>"

definition pool_add :: "session_record \<Rightarrow> session_pool \<Rightarrow> bool \<times> session_pool" where
  "pool_add s p =
    (if length (sessions p) \<ge> max_size p then (False, p)
     else (True, p\<lparr>lru := sr_session_id s # lru p,
                   sessions := AList.update (sr_session_id s) s (sessions p)\<rparr>))"

definition pool_get :: "session_pool \<Rightarrow> string \<Rightarrow> session_record option" where
  "pool_get p i = map_of (sessions p) i"

definition with_session ::
  "string \<Rightarrow> (session_record \<Rightarrow> session_record) \<Rightarrow> session_pool \<Rightarrow> session_pool" where
  "with_session i f p = p\<lparr>sessions := AList.map_entry i f (sessions p)\<rparr>"

definition touch_active :: "string \<Rightarrow> time_point \<Rightarrow> session_pool \<Rightarrow> session_pool" where
  "touch_active i now p = (case pool_get p i of None \<Rightarrow> p
     | Some _ \<Rightarrow> move_to_front_locked i (with_session i (\<lambda>r. r\<lparr>sr_last_active_at := now\<rparr>) p))"

fun find_ready :: "(string, session_record) umap \<Rightarrow> string list \<Rightarrow> session_record option" where
  "find_ready m [] = None"
| "find_ready m (i # is) = (case map_of m i of None \<Rightarrow> find_ready m is
     | Some r \<Rightarrow> if sr_state r = Ready then Some r else find_ready m is)"

definition find_idle_least_recently_used :: "session_pool \<Rightarrow> session_record option" where
  "find_idle_least_recently_used p = find_ready (sessions p) (rev (lru p))"

definition mark_active :: "string \<Rightarrow> time_point \<Rightarrow> session_pool \<Rightarrow> session_pool" where
  "mark_active i now p = (case pool_get p i of None \<Rightarrow> p
     | Some _ \<Rightarrow> move_to_front_locked i
         (with_session i (\<lambda>r. r\<lparr>sr_state := Streaming, sr_last_active_at := now\<rparr>) p))"

definition mark_ready :: "string \<Rightarrow> time_point \<Rightarrow> session_pool \<Rightarrow> session_pool" where
  "mark_ready i now p = (case pool_get p i of None \<Rightarrow> p
     | Some _ \<Rightarrow> move_to_front_locked i
         (with_session i (\<lambda>r. r\<lparr>sr_state := Ready, sr_last_active_at := now\<rparr>) p))"

definition mark_draining :: "string \<Rightarrow> session_pool \<Rightarrow> session_pool" where
  "mark_draining i p = (case pool_get p i of None \<Rightarrow> p
     | Some _ \<Rightarrow> with_session i (\<lambda>r. r\<lparr>sr_state := Draining\<rparr>) p)"

definition mark_idle :: "string \<Rightarrow> time_point \<Rightarrow> session_pool \<Rightarrow> session_pool" where
  "mark_idle i now p = (case pool_get p i of None \<Rightarrow> p
     | Some _ \<Rightarrow> move_to_front_locked i
         (with_session i (\<lambda>r. r\<lparr>sr_state := Ready, sr_current_request_id := [],
            sr_last_active_at := now\<rparr>) p))"

definition mark_errored :: "string \<Rightarrow> string \<Rightarrow> session_pool \<Rightarrow> session_pool" where
  "mark_errored i reason p = (case pool_get p i of None \<Rightarrow> p
     | Some _ \<Rightarrow> with_session i (\<lambda>r. r\<lparr>sr_state := Errored, sr_last_error := reason\<rparr>) p)"

definition remove_locked :: "string \<Rightarrow> session_pool \<Rightarrow> session_pool" where
  "remove_locked i p = p\<lparr>sessions := AList.delete i (sessions p), lru := removeAll i (lru p)\<rparr>"

definition mark_closed :: "string \<Rightarrow> session_pool \<Rightarrow> session_pool" where
  "mark_closed i p = remove_locked i p"

definition set_current_request :: "string \<Rightarrow> string \<Rightarrow> session_pool \<Rightarrow> session_pool" where
  "set_current_request i rid p = (case pool_get p i of None \<Rightarrow> p
     | Some _ \<Rightarrow> with_session i (\<lambda>r. r\<lparr>sr_current_request_id := rid\<rparr>) p)"

definition idle_expired :: "session_pool \<Rightarrow> time_point \<Rightarrow> string \<Rightarrow> bool" where
  "idle_expired p now i = (case map_of (sessions p) i of None \<Rightarrow> False
     | Some r \<Rightarrow> sr_state r = Ready \<and> now - sr_last_active_at r \<ge> secs (idle_timeout p))"

definition collect_idle_expired :: "time_point \<Rightarrow> session_pool \<Rightarrow> string list" where
  "collect_idle_expired now p = filter (idle_expired p now) (rev (lru p))"

definition collect_lifetime_expired :: "time_point \<Rightarrow> session_pool \<Rightarrow> string list" where
  "collect_lifetime_expired now p =
     map fst (filter (\<lambda>(_, r). now - sr_created_at r \<ge> secs (max_lifetime p)) (sessions p))"

definition pool_snapshot_ids :: "session_pool \<Rightarrow> string list" where
  "pool_snapshot_ids p = map fst (sessions p)"

section \<open>Runs of operations, invariants and the recency abstraction\<close>

datatype pool_op =
    Add session_record
  | Touch string time_point
  | MarkActive string time_point
  | MarkReady string time_point
  | MarkDraining string
  | MarkIdle string time_point
  | MarkErrored string string
  | MarkClosed string
  | SetCurrentRequest string string

fun pool_exec :: "pool_op \<Rightarrow> session_pool \<Rightarrow> session_pool" where
  "pool_exec (Add s) p = snd (pool_add s p)"
| "pool_exec (Touch i t) p = touch_active i t p"
| "pool_exec (MarkActive i t) p = mark_active i t p"
| "pool_exec (MarkReady i t) p = mark_ready i t p"
| "pool_exec (MarkDraining i) p = mark_draining i p"
| "pool_exec (MarkIdle i t) p = mark_idle i t p"
| "pool_exec (MarkErrored i e) p = mark_errored i e p"
| "pool_exec (MarkClosed i) p = mark_closed i p"
| "pool_exec (SetCurrentRequest i rid) p = set_current_request i rid p"

definition pool_wf :: "session_pool \<Rightarrow> bool" where
  "pool_wf p \<longleftrightarrow> distinct (map fst (sessions p)) \<and> set (lru p) = fst ` set (sessions p) \<and>
     (\<forall>(i, r) \<in> set (sessions p). sr_session_id r = i) \<and> length (sessions p) \<le> max_size p"

definition pool_inv :: "session_pool \<Rightarrow> bool" where
  "pool_inv p \<longleftrightarrow> pool_wf p \<and> distinct (lru p)"

fun fresh_add :: "pool_op \<Rightarrow> session_pool \<Rightarrow> bool" where
  "fresh_add (Add s) p = (pool_get p (sr_session_id s) = None)"
| "fresh_add _ p = True"

definition recency :: "session_pool \<Rightarrow> session_record list" where
  "recency p = map (\<lambda>i. the (map_of (sessions p) i)) (lru p)"

text \<open>The specification on recency lists: use moves a record to the front, the rest is in place.\<close>

definition spec_modify ::
  "string \<Rightarrow> (session_record \<Rightarrow> session_record) \<Rightarrow> session_record list \<Rightarrow> session_record list" where
  "spec_modify i f rs = map (\<lambda>r. if sr_session_id r = i then f r else r) rs"

definition spec_use ::
  "string \<Rightarrow> (session_record \<Rightarrow> session_record) \<Rightarrow> session_record list \<Rightarrow> session_record list" where
  "spec_use i f rs = map f (filter (\<lambda>r. sr_session_id r = i) rs) @
     filter (\<lambda>r. sr_session_id r \<noteq> i) rs"

fun spec_exec :: "nat \<Rightarrow> pool_op \<Rightarrow> session_record list \<Rightarrow> session_record list" where
  "spec_exec n (Add s) rs = (if length rs \<ge> n then rs else s # rs)"
| "spec_exec n (Touch i t) rs = spec_use i (\<lambda>r. r\<lparr>sr_last_active_at := t\<rparr>) rs"
| "spec_exec n (MarkActive i t) rs =
     spec_use i (\<lambda>r. r\<lparr>sr_state := Streaming, sr_last_active_at := t\<rparr>) rs"
| "spec_exec n (MarkReady i t) rs =
     spec_use i (\<lambda>r. r\<lparr>sr_state := Ready, sr_last_active_at := t\<rparr>) rs"
| "spec_exec n (MarkDraining i) rs = spec_modify i (\<lambda>r. r\<lparr>sr_state := Draining\<rparr>) rs"
| "spec_exec n (MarkIdle i t) rs = spec_use i (\<lambda>r. r\<lparr>sr_state := Ready,
     sr_current_request_id := [], sr_last_active_at := t\<rparr>) rs"
| "spec_exec n (MarkErrored i e) rs =
     spec_modify i (\<lambda>r. r\<lparr>sr_state := Errored, sr_last_error := e\<rparr>) rs"
| "spec_exec n (MarkClosed i) rs = filter (\<lambda>r. sr_session_id r \<noteq> i) rs"
| "spec_exec n (SetCurrentRequest i rid) rs =
     spec_modify i (\<lambda>r. r\<lparr>sr_current_request_id := rid\<rparr>) rs"

definition spec_idle :: "session_record list \<Rightarrow> session_record option" where
  "spec_idle rs = (case filter (\<lambda>r. sr_state r = Ready) rs of [] \<Rightarrow> None | xs \<Rightarrow> Some (last xs))"

section \<open>Lookup laws\<close>

lemmas pool_use_defs = touch_active_def mark_active_def mark_ready_def mark_idle_def
lemmas pool_edit_defs = mark_draining_def mark_errored_def set_current_request_def
lemmas pool_remove_defs = mark_closed_def remove_locked_def

lemma pool_wfD:
  assumes "pool_wf p"
  shows pool_wf_distinct: "distinct (map fst (sessions p))"
    and pool_wf_lru: "set (lru p) = fst ` set (sessions p)"
    and pool_wf_id: "map_of (sessions p) i = Some r \<Longrightarrow> sr_session_id r = i"
    and pool_wf_size: "length (sessions p) \<le> max_size p"
  using assms by (auto simp: pool_wf_def dest: map_of_SomeD)

lemma pool_wf_in_lru: "pool_wf p \<Longrightarrow> i \<in> set (lru p) \<longleftrightarrow> map_of (sessions p) i \<noteq> None"
  by (metis domIff dom_map_of_conv_image_fst pool_wf_lru)

lemma with_session_get [store_laws]:
  "pool_get (with_session i f p) j = (if j = i then map_option f (pool_get p j) else pool_get p j)"
  by (cases "map_of (sessions p) j") (auto simp: with_session_def pool_get_def map_of_map_entry)

lemma move_to_front_get [store_laws]: "pool_get (move_to_front_locked i p) j = pool_get p j"
  by (simp add: move_to_front_locked_def pool_get_def)

lemma mark_closed_get [store_laws]:
  "pool_get (mark_closed i p) j = (if j = i then None else pool_get p j)"
  by (simp add: pool_remove_defs pool_get_def delete_conv)

lemma pool_add_get [store_laws]:
  "pool_get (snd (pool_add s p)) j =
     (if j = sr_session_id s \<and> length (sessions p) < max_size p then Some s else pool_get p j)"
  by (simp add: pool_add_def pool_get_def update_conv)

section \<open>Preservation of the invariants\<close>

lemma with_session_wf:
  assumes "pool_wf p" and "\<And>r. sr_session_id (f r) = sr_session_id r"
  shows "pool_wf (with_session i f p)"
  using assms unfolding pool_wf_def with_session_def
  by (force simp: dom_map_entry dest: set_map_entry_sub)

lemma move_to_front_wf:
  "pool_wf p \<Longrightarrow> pool_get p i \<noteq> None \<Longrightarrow> pool_wf (move_to_front_locked i p)"
  using pool_wf_in_lru [of p i]
  by (auto simp: pool_wf_def move_to_front_locked_def pool_get_def)

lemma pool_add_wf: "pool_wf p \<Longrightarrow> pool_wf (snd (pool_add s p))"
  unfolding pool_wf_def pool_add_def
  by (auto simp: distinct_update dom_update update_length dest: set_update_sub)

lemma mark_closed_wf: "pool_wf p \<Longrightarrow> pool_wf (mark_closed i p)"
  using length_delete_le [of i "sessions p"]
  by (auto simp: pool_wf_def pool_remove_defs distinct_delete set_delete_sub)

lemma pool_exec_wf: "pool_wf p \<Longrightarrow> pool_wf (pool_exec op p)"
  by (cases op)
    (auto simp: pool_use_defs pool_edit_defs pool_add_wf mark_closed_wf store_laws
      intro!: with_session_wf move_to_front_wf split: option.splits)

lemma pool_exec_distinct_lru:
  "pool_inv p \<Longrightarrow> fresh_add op p \<Longrightarrow> distinct (lru (pool_exec op p))"
  by (cases op)
    (auto simp: pool_inv_def pool_use_defs pool_edit_defs pool_remove_defs with_session_def
      move_to_front_locked_def pool_add_def pool_get_def pool_wf_in_lru distinct_removeAll
      split: option.splits)

lemma pool_exec_inv: "pool_inv p \<Longrightarrow> fresh_add op p \<Longrightarrow> pool_inv (pool_exec op p)"
  using pool_exec_wf pool_exec_distinct_lru by (simp add: pool_inv_def)

lemma new_pool_inv: "pool_inv (new_pool n idle life)"
  by (simp add: pool_inv_def pool_wf_def new_pool_def)

interpretation pool_any: guarded_system pool_exec "\<lambda>_ _. True" pool_wf
  by unfold_locales (rule pool_exec_wf)

interpretation pool_fresh: guarded_system pool_exec fresh_add pool_inv
  by unfold_locales (rule pool_exec_inv)

text \<open>To the evolution engine the pool is a store from which it erases sessions.\<close>

interpretation pool_store: erasable_store pool_get mark_closed pool_snapshot_ids pool_wf
proof
  show "i \<in> set (pool_snapshot_ids p) \<longleftrightarrow> pool_get p i \<noteq> None" for i p
    by (simp add: pool_snapshot_ids_def pool_get_def map_of_eq_None_iff)
qed (simp_all add: store_laws mark_closed_wf pool_snapshot_ids_def pool_wf_distinct)

section \<open>Refinement to recency lists\<close>

lemma recency_ids: "pool_wf p \<Longrightarrow> map sr_session_id (recency p) = lru p"
  unfolding recency_def
  by (rule nth_equalityI) (auto simp: pool_wf_in_lru pool_wf_id dest!: nth_mem)

lemma recency_length:
  assumes "pool_inv p"
  shows "length (recency p) = length (sessions p)"
proof -
  have "length (lru p) = length (map fst (sessions p))"
    using assms by (intro distinct_same_set_length) (auto simp: pool_inv_def pool_wf_def)
  then show ?thesis by (simp add: recency_def)
qed

lemma recency_with_session:
  assumes "pool_wf p" and "\<And>r. sr_session_id (f r) = sr_session_id r"
  shows "recency (with_session i f p) = spec_modify i f (recency p)"
  using assms
  by (auto simp: recency_def spec_modify_def with_session_def map_of_map_entry pool_wf_in_lru
      pool_wf_id)

lemma recency_filter:
  assumes "pool_wf p"
  shows "filter (\<lambda>r. sr_session_id r \<noteq> i) (recency p) =
    map (\<lambda>j. the (map_of (sessions p) j)) (removeAll i (lru p))"
proof -
  have "filter (\<lambda>r. sr_session_id r \<noteq> i) (recency p) =
      map (\<lambda>j. the (map_of (sessions p) j)) (filter (\<lambda>j. j \<noteq> i) (lru p))"
    unfolding recency_def filter_map
    by (rule arg_cong [where f = "map _"], rule filter_cong)
      (auto simp: assms pool_wf_in_lru pool_wf_id [OF assms])
  also have "filter (\<lambda>j. j \<noteq> i) (lru p) = removeAll i (lru p)"
    by (simp add: removeAll_filter_not_eq eq_commute)
  finally show ?thesis .
qed

lemma recency_hit:
  assumes "pool_inv p" and "map_of (sessions p) i = Some r"
  shows "filter (\<lambda>r. sr_session_id r = i) (recency p) = [r]"
proof -
  have wf: "pool_wf p" and d: "distinct (lru p)" using assms(1) by (auto simp: pool_inv_def)
  then have "i \<in> set (lru p)" using assms(2) by (simp add: pool_wf_in_lru)
  then obtain xs ys where l: "lru p = xs @ i # ys" and n: "i \<notin> set xs" "i \<notin> set ys"
    using d by (metis distinct.simps(2) distinct_append in_set_conv_decomp not_distinct_conv_prefix
        split_list)
  have other: "filter (\<lambda>r. sr_session_id r = i) (map (\<lambda>j. the (map_of (sessions p) j)) zs) = []"
    if "set zs \<subseteq> set (lru p)" "i \<notin> set zs" for zs
    using that wf by (auto simp: filter_empty_conv pool_wf_in_lru pool_wf_id dest!: subsetD)
  show ?thesis
    using other [of xs] other [of ys] l n assms(2) pool_wf_id [OF wf assms(2)]
    by (simp add: recency_def subset_insertI2)
qed

lemma recency_miss:
  assumes "pool_wf p" and "map_of (sessions p) i = None"
  shows "filter (\<lambda>r. sr_session_id r = i) (recency p) = []"
    and "filter (\<lambda>r. sr_session_id r \<noteq> i) (recency p) = recency p"
    and "spec_modify i f (recency p) = recency p"
proof -
  have ne: "sr_session_id r \<noteq> i" if "r \<in> set (recency p)" for r
  proof -
    have "sr_session_id r \<in> set (lru p)" using that recency_ids [OF assms(1)] by (metis image_eqI set_map)
    then show ?thesis using assms by (auto simp: pool_wf_in_lru)
  qed
  then show "filter (\<lambda>r. sr_session_id r = i) (recency p) = []"
    and "filter (\<lambda>r. sr_session_id r \<noteq> i) (recency p) = recency p"
    and "spec_modify i f (recency p) = recency p"
    by (auto simp: filter_empty_conv filter_id_conv spec_modify_def intro: map_idI)
qed

lemma recency_use:
  assumes "pool_inv p" and "pool_get p i \<noteq> None" and "\<And>r. sr_session_id (f r) = sr_session_id r"
  shows "recency (move_to_front_locked i (with_session i f p)) = spec_use i f (recency p)"
proof -
  from assms(2) obtain r where r: "map_of (sessions p) i = Some r" by (auto simp: pool_get_def)
  have "recency (move_to_front_locked i (with_session i f p)) =
      f r # map (\<lambda>j. the (map_of (sessions p) j)) (removeAll i (lru p))"
    using r by (auto simp: recency_def move_to_front_locked_def with_session_def map_of_map_entry)
  then show ?thesis
    using recency_hit [OF assms(1) r] recency_filter [of p i] assms(1)
    by (simp add: spec_use_def pool_inv_def)
qed

lemma recency_use_miss:
  "pool_wf p \<Longrightarrow> pool_get p i = None \<Longrightarrow> spec_use i f (recency p) = recency p"
  by (simp add: spec_use_def recency_miss pool_get_def)

lemma recency_use_case:
  assumes "pool_inv p" and "\<And>r. sr_session_id (f r) = sr_session_id r"
  shows "recency (case pool_get p i of None \<Rightarrow> p
      | Some _ \<Rightarrow> move_to_front_locked i (with_session i f p)) = spec_use i f (recency p)"
proof (cases "pool_get p i")
  case None
  then show ?thesis using assms(1) by (simp add: recency_use_miss pool_inv_def)
next
  case (Some r)
  then show ?thesis using recency_use [OF assms(1) _ assms(2), of i] by simp
qed

lemma recency_edit_case:
  assumes "pool_inv p" and "\<And>r. sr_session_id (f r) = sr_session_id r"
  shows "recency (case pool_get p i of None \<Rightarrow> p | Some _ \<Rightarrow> with_session i f p) =
    spec_modify i f (recency p)"
proof (cases "pool_get p i")
  case None
  then show ?thesis using assms(1) recency_miss(3) by (simp add: pool_get_def pool_inv_def)
next
  case (Some r)
  then show ?thesis using assms recency_with_session by (simp add: pool_inv_def)
qed

lemma recency_add:
  assumes "pool_inv p" and "pool_get p (sr_session_id s) = None"
  shows "recency (snd (pool_add s p)) = spec_exec (max_size p) (Add s) (recency p)"
proof -
  have wf: "pool_wf p" using assms(1) by (simp add: pool_inv_def)
  have "sr_session_id s \<notin> set (lru p)" using wf assms(2) by (simp add: pool_wf_in_lru pool_get_def)
  then show ?thesis
    using recency_length [OF assms(1)] by (auto simp: pool_add_def recency_def update_conv)
qed

lemma recency_closed:
  assumes "pool_wf p"
  shows "recency (mark_closed i p) = filter (\<lambda>r. sr_session_id r \<noteq> i) (recency p)"
  unfolding recency_filter [OF assms]
  by (auto simp: pool_remove_defs recency_def delete_conv)

lemma find_ready_spec:
  assumes "\<And>i. i \<in> set is \<Longrightarrow> map_of m i \<noteq> None"
  shows "find_ready m is = spec_idle (map (\<lambda>i. the (map_of m i)) (rev is))"
  using assms
proof (induction "is")
  case Nil
  then show ?case by (simp add: spec_idle_def)
next
  case (Cons i "is")
  then obtain r where r: "map_of m i = Some r" by (meson list.set_intros(1) not_None_eq)
  show ?case
    using Cons r by (auto simp: spec_idle_def split: list.splits)
qed

lemma spec_idle_Some_iff:
  "spec_idle rs = Some r \<longleftrightarrow> (\<exists>newer older. rs = newer @ r # older \<and> sr_state r = Ready \<and>
     (\<forall>r'\<in>set older. sr_state r' \<noteq> Ready))"
proof
  assume "spec_idle rs = Some r"
  then have ne: "filter (\<lambda>r. sr_state r = Ready) rs \<noteq> []"
    and last: "last (filter (\<lambda>r. sr_state r = Ready) rs) = r"
    by (auto simp: spec_idle_def split: list.splits)
  from ne obtain ys x zs where "rs = ys @ x # zs" "sr_state x = Ready"
    "\<forall>z\<in>set zs. sr_state z \<noteq> Ready" "last (filter (\<lambda>r. sr_state r = Ready) rs) = x"
    by (rule last_filter_split)
  moreover from this(4) last have "x = r" by simp
  ultimately show "\<exists>newer older. rs = newer @ r # older \<and> sr_state r = Ready \<and>
     (\<forall>r'\<in>set older. sr_state r' \<noteq> Ready)"
    by blast
next
  assume "\<exists>newer older. rs = newer @ r # older \<and> sr_state r = Ready \<and>
     (\<forall>r'\<in>set older. sr_state r' \<noteq> Ready)"
  then obtain newer older where rs: "rs = newer @ r # older" "sr_state r = Ready"
    and old: "filter (\<lambda>r. sr_state r = Ready) older = []"
    by (auto simp: filter_empty_conv)
  have "filter (\<lambda>r. sr_state r = Ready) rs = filter (\<lambda>r. sr_state r = Ready) newer @ [r]"
    using rs old by simp
  then show "spec_idle rs = Some r" by (simp add: spec_idle_def list.case_eq_if)
qed

lemma find_idle_spec:
  "pool_wf p \<Longrightarrow> find_idle_least_recently_used p = spec_idle (recency p)"
  unfolding find_idle_least_recently_used_def recency_def
  by (subst find_ready_spec) (auto simp: pool_wf_in_lru)

lemma find_idle_SomeD:
  assumes "pool_wf p" and "find_idle_least_recently_used p = Some r"
  shows "pool_get p (sr_session_id r) = Some r" and "sr_state r = Ready"
proof -
  from assms have r: "r \<in> set (recency p)" "sr_state r = Ready"
    by (auto simp: find_idle_spec spec_idle_Some_iff)
  then obtain i where "i \<in> set (lru p)" "r = the (map_of (sessions p) i)"
    by (auto simp: recency_def)
  then have "map_of (sessions p) i = Some r" using assms(1) by (auto simp: pool_wf_in_lru)
  then show "pool_get p (sr_session_id r) = Some r"
    using pool_wf_id [OF assms(1)] by (simp add: pool_get_def)
  show "sr_state r = Ready" by (rule r(2))
qed

lemma collect_idle_expired_set:
  assumes "pool_wf p"
  shows "set (collect_idle_expired now p) = {i. \<exists>r. pool_get p i = Some r \<and> sr_state r = Ready \<and>
    now - sr_last_active_at r \<ge> secs (idle_timeout p)}"
  using assms
  by (auto simp: collect_idle_expired_def idle_expired_def pool_get_def pool_wf_in_lru
      split: option.splits)

lemma collect_lifetime_expired_set:
  assumes "pool_wf p"
  shows "set (collect_lifetime_expired now p) = {i. \<exists>r. pool_get p i = Some r \<and>
    now - sr_created_at r \<ge> secs (max_lifetime p)}"
  using pool_wf_distinct [OF assms]
  by (force simp: collect_lifetime_expired_def pool_get_def)

lemma pool_exec_frame [frame_simps]:
  "max_size (pool_exec op p) = max_size p"
  "idle_timeout (pool_exec op p) = idle_timeout p"
  "max_lifetime (pool_exec op p) = max_lifetime p"
  by (cases op; auto simp: pool_use_defs pool_edit_defs pool_remove_defs with_session_def
      move_to_front_locked_def pool_add_def split: option.splits)+

lemma pool_run_frame [frame_simps]: "max_size (fold pool_exec ops p) = max_size p"
  by (induction ops arbitrary: p) (simp_all add: frame_simps)

lemma new_pool_frame [frame_simps]: "max_size (new_pool n idle life) = n"
  by (simp add: new_pool_def)

lemma idle_count_unsafe_eq [simp]: "idle_count_unsafe p = idle_count p"
proof -
  have "fold (\<lambda>(_, r) n. if sr_state r = Ready then Suc n else n) xs m = m + length (filter (\<lambda>(_, r). sr_state r = Ready) xs)"
    for xs :: "(string \<times> session_record) list" and m
    by (induction xs arbitrary: m) auto
  then show ?thesis by (simp add: idle_count_unsafe_def idle_count_def)
qed

lemma idle_count_le: "idle_count p \<le> pool_size p"
  by (simp add: idle_count_def pool_size_def)

lemma pool_run_wf: "pool_wf (fold pool_exec ops (new_pool n idle life))"
  by (rule pool_any.run_good)
    (use new_pool_inv in \<open>simp_all add: pool_inv_def all_guarded_True\<close>)

section \<open>Properties\<close>

text \<open>
  The pool stays consistent and bounded under every sequence of calls: its ids are unique, the
  recency list names exactly the pooled sessions, every record is stored under its own id, at most
  \<open>n\<close> sessions are pooled, and the idle and the active sessions add up to the pool.
\<close>

theorem session_pool_consistent:
  "pool_wf (fold pool_exec ops (new_pool n idle life)) \<and>
   pool_size (fold pool_exec ops (new_pool n idle life)) \<le> n \<and>
   idle_count (fold pool_exec ops (new_pool n idle life)) +
     active_count (fold pool_exec ops (new_pool n idle life)) =
     pool_size (fold pool_exec ops (new_pool n idle life))"
proof -
  let ?p = "fold pool_exec ops (new_pool n idle life)"
  have wf: "pool_wf ?p" by (rule pool_run_wf)
  moreover have "pool_size ?p \<le> n"
    using pool_wf_size [OF wf] by (simp add: pool_size_def frame_simps)
  ultimately show ?thesis
    using idle_count_le [of ?p] by (simp add: active_count_def pool_size_def)
qed

text \<open>
  C24. The pool implements a bounded list of sessions in order of use: on a pool whose recency list
  has no duplicates, each operation (an add under a new id, or any other call) acts on that list as
  its specification does, and the result is again such a pool.
\<close>

theorem session_pool_refines_recency_list:
  assumes "pool_inv p" and "fresh_add op p"
  shows "recency (pool_exec op p) = spec_exec (max_size p) op (recency p) \<and>
    pool_inv (pool_exec op p)"
proof -
  have wf: "pool_wf p" using assms(1) by (simp add: pool_inv_def)
  have "recency (pool_exec op p) = spec_exec (max_size p) op (recency p)"
  proof (cases op)
    case (Add s)
    then show ?thesis using assms recency_add by simp
  next
    case (MarkClosed i)
    then show ?thesis using recency_closed [OF wf] by simp
  qed (use assms(1) in \<open>simp_all add: pool_use_defs pool_edit_defs recency_use_case
      recency_edit_case\<close>)
  with pool_exec_inv [OF assms] show ?thesis by simp
qed

definition example_session :: session_record where
  "example_session = default_session\<lparr>sr_session_id := ''s-1'', sr_state := Connecting\<rparr>"

theorem session_pool_refines_recency_list_witness:
  "recency (pool_exec (Add example_session) (new_pool 4 60 3600)) = [example_session]"
  using session_pool_refines_recency_list [OF new_pool_inv, of "Add example_session" 4 60 3600]
  by (simp add: new_pool_def recency_def pool_get_def)

text \<open>
  The session handed out for reuse is the least recently used idle one: the search returns a
  record exactly when it is ready and every session used less recently is not; it returns nothing
  exactly when no pooled session is ready.
\<close>

theorem idle_session_is_least_recently_used:
  assumes "pool_wf p"
  shows "(find_idle_least_recently_used p = Some r \<longleftrightarrow>
      (\<exists>newer older. recency p = newer @ r # older \<and> sr_state r = Ready \<and>
         (\<forall>r'\<in>set older. sr_state r' \<noteq> Ready))) \<and>
    (find_idle_least_recently_used p = None \<longleftrightarrow>
      (\<forall>i r. pool_get p i = Some r \<longrightarrow> sr_state r \<noteq> Ready))"
proof -
  have set: "set (recency p) = {r. \<exists>i. pool_get p i = Some r}"
    using assms by (force simp: recency_def pool_get_def pool_wf_in_lru image_iff)
  have "find_idle_least_recently_used p = None \<longleftrightarrow> (\<forall>r\<in>set (recency p). sr_state r \<noteq> Ready)"
    using assms
    by (simp add: find_idle_spec spec_idle_def list.case_eq_if filter_empty_conv)
  with assms set show ?thesis by (auto simp: find_idle_spec spec_idle_Some_iff)
qed

definition example_pool :: session_pool where
  "example_pool = fold pool_exec
     [Add (default_session\<lparr>sr_session_id := ''old'', sr_state := Ready\<rparr>),
      Add (default_session\<lparr>sr_session_id := ''new'', sr_state := Ready\<rparr>),
      Add (default_session\<lparr>sr_session_id := ''busy'', sr_state := Streaming\<rparr>)]
     (new_pool 4 60 3600)"

lemma example_pool_wf: "pool_wf example_pool"
  unfolding example_pool_def by (rule pool_run_wf)

lemma example_pool_eval:
  "sessions example_pool =
     [(''old'', default_session\<lparr>sr_session_id := ''old'', sr_state := Ready\<rparr>),
      (''new'', default_session\<lparr>sr_session_id := ''new'', sr_state := Ready\<rparr>),
      (''busy'', default_session\<lparr>sr_session_id := ''busy'', sr_state := Streaming\<rparr>)]"
  "lru example_pool = [''busy'', ''new'', ''old'']"
  "idle_timeout example_pool = 60"
  by (simp_all add: example_pool_def new_pool_def pool_add_def)

theorem idle_session_is_least_recently_used_witness:
  "find_idle_least_recently_used example_pool =
     Some (default_session\<lparr>sr_session_id := ''old'', sr_state := Ready\<rparr>)"
proof -
  have rec: "recency example_pool =
     [default_session\<lparr>sr_session_id := ''busy'', sr_state := Streaming\<rparr>,
      default_session\<lparr>sr_session_id := ''new'', sr_state := Ready\<rparr>] @
      default_session\<lparr>sr_session_id := ''old'', sr_state := Ready\<rparr> # []"
    by (simp add: recency_def example_pool_eval)
  show ?thesis
    unfolding conjunct1 [OF idle_session_is_least_recently_used [OF example_pool_wf]]
    by (rule exI, rule exI, rule conjI, rule rec) simp
qed

text \<open>
  Expiry collects exactly the sessions that are due: the idle sweep the ready sessions unused for
  the idle timeout, least recently used first, and the lifetime sweep the sessions created the
  maximal lifetime ago, whatever their state.
\<close>

theorem expiry_collects_due_sessions:
  assumes "pool_wf p"
  shows "set (collect_idle_expired now p) = {i. \<exists>r. pool_get p i = Some r \<and> sr_state r = Ready \<and>
      now - sr_last_active_at r \<ge> secs (idle_timeout p)} \<and>
    collect_idle_expired now p = filter (\<lambda>i. i \<in> set (collect_idle_expired now p)) (rev (lru p)) \<and>
    set (collect_lifetime_expired now p) = {i. \<exists>r. pool_get p i = Some r \<and>
      now - sr_created_at r \<ge> secs (max_lifetime p)}"
proof (intro conjI)
  show "collect_idle_expired now p = filter (\<lambda>i. i \<in> set (collect_idle_expired now p)) (rev (lru p))"
    by (auto simp: collect_idle_expired_def intro: filter_cong)
qed (use assms in \<open>simp_all add: collect_idle_expired_set collect_lifetime_expired_set\<close>)

theorem expiry_collects_due_sessions_witness:
  "''old'' \<in> set (collect_idle_expired (secs 120) example_pool)"
proof -
  have "pool_get example_pool ''old'' =
      Some (default_session\<lparr>sr_session_id := ''old'', sr_state := Ready\<rparr>)"
    by (simp add: pool_get_def example_pool_eval)
  then show ?thesis
    unfolding conjunct1 [OF expiry_collects_due_sessions [OF example_pool_wf]]
    by (simp add: example_pool_eval default_session_def secs_def)
qed

end
