(* ===== verification/Pending_Store.thy ===== *)
theory Pending_Store
  imports Messages
begin

text \<open>
  The store of requests in flight, \<^verbatim>\<open>src/databoard/pending_request_store.h\<close>: a map from request ids to
  the audio accumulated so far. Every public member function is one definition; those that read
  \<^verbatim>\<open>steady_clock::now()\<close> take the reading as an argument. \<open>reopen_local\<close> and \<open>set_status\<close> are the writes
  that the heartbeat makes through the pointer returned by \<^verbatim>\<open>get\<close>.

  \<open>pending_wf\<close> is the store's invariant: unique ids, every request stored under its own id, and the
  byte counter equal to the length of the accumulated audio.
\<close>

section \<open>State\<close>

datatype pending_state = AwaitingSession | StreamingAudio | Complete | Failed | Cancelled

fun pending_state_to_string :: "pending_state \<Rightarrow> string" where
  "pending_state_to_string AwaitingSession = ''AwaitingSession''"
| "pending_state_to_string StreamingAudio = ''Streaming''"
| "pending_state_to_string Complete = ''Complete''"
| "pending_state_to_string Failed = ''Failed''"
| "pending_state_to_string Cancelled = ''Cancelled''"

record pending_request =
  pr_request_id :: string
  pr_session_id :: string
  pr_state :: pending_state
  pr_accumulated_audio :: bytes
  pr_cumulative_bytes :: int
  pr_sample_rate :: int
  pr_channels :: int
  pr_format :: audio_format
  pr_usage_characters :: int
  pr_created_at :: time_point
  pr_last_chunk_at :: time_point
  pr_status_code :: int
  pr_status_msg :: string
  pr_final_received :: bool

type_synonym pending_store = "(string, pending_request) umap"

definition default_pending :: pending_request where
  "default_pending = \<lparr>pr_request_id = [], pr_session_id = [], pr_state = AwaitingSession,
     pr_accumulated_audio = [], pr_cumulative_bytes = 0, pr_sample_rate = 16000, pr_channels = 1,
     pr_format = Mp3, pr_usage_characters = 0, pr_created_at = 0, pr_last_chunk_at = 0,
     pr_status_code = 0, pr_status_msg = [], pr_final_received = False\<rparr>"

section \<open>Operations\<close>

definition pending_add :: "pending_request \<Rightarrow> time_point \<Rightarrow> pending_store \<Rightarrow> pending_store" where
  "pending_add p now s = AList.update (pr_request_id p)
     (p\<lparr>pr_created_at := now, pr_last_chunk_at := now\<rparr>) s"

definition pending_get :: "pending_store \<Rightarrow> string \<Rightarrow> pending_request option" where
  "pending_get s i = map_of s i"

definition pending_remove :: "string \<Rightarrow> pending_store \<Rightarrow> pending_store" where
  "pending_remove i s = AList.delete i s"

definition set_state :: "string \<Rightarrow> pending_state \<Rightarrow> pending_store \<Rightarrow> pending_store" where
  "set_state i st s = (case map_of s i of None \<Rightarrow> s
     | Some _ \<Rightarrow> AList.map_entry i (\<lambda>p. p\<lparr>pr_state := st\<rparr>) s)"

definition bind_session :: "string \<Rightarrow> string \<Rightarrow> pending_store \<Rightarrow> pending_store" where
  "bind_session i sid s = (case map_of s i of None \<Rightarrow> s
     | Some _ \<Rightarrow> AList.map_entry i (\<lambda>p. p\<lparr>pr_session_id := sid, pr_state := StreamingAudio\<rparr>) s)"

definition append_chunk ::
  "string \<Rightarrow> bytes \<Rightarrow> bool \<Rightarrow> int \<Rightarrow> time_point \<Rightarrow> pending_store \<Rightarrow> bool \<times> pending_store" where
  "append_chunk i data is_final usage now s = (case map_of s i of None \<Rightarrow> (False, s)
     | Some _ \<Rightarrow> (True, AList.map_entry i (\<lambda>p. p\<lparr>
         pr_accumulated_audio := pr_accumulated_audio p @ data,
         pr_cumulative_bytes := pr_cumulative_bytes p + int (length data),
         pr_usage_characters := usage,
         pr_last_chunk_at := now,
         pr_final_received := (if is_final then True else pr_final_received p)\<rparr>) s))"

definition find_ready_to_emit :: "pending_store \<Rightarrow> string list" where
  "find_ready_to_emit s =
     map fst (filter (\<lambda>(_, p). pr_state p = StreamingAudio \<and> pr_final_received p) s)"

definition pending_snapshot_ids :: "pending_store \<Rightarrow> string list" where
  "pending_snapshot_ids s = map fst s"

definition collect_by_session :: "string \<Rightarrow> pending_store \<Rightarrow> string list" where
  "collect_by_session sid s = map fst (filter (\<lambda>(_, p). pr_session_id p = sid) s)"

definition collect_terminal :: "pending_store \<Rightarrow> string list" where
  "collect_terminal s =
     map fst (filter (\<lambda>(_, p). pr_state p = Failed \<or> pr_state p = Cancelled) s)"

definition pending_size :: "pending_store \<Rightarrow> nat" where
  "pending_size s = length s"

definition reopen_local :: "string \<Rightarrow> audio_settings \<Rightarrow> pending_store \<Rightarrow> pending_store" where
  "reopen_local i a s = AList.map_entry i (\<lambda>p. p\<lparr>pr_sample_rate := as_sample_rate a,
     pr_channels := as_channel a, pr_format := Pcm, pr_state := StreamingAudio\<rparr>) s"

definition set_status :: "string \<Rightarrow> int \<Rightarrow> string \<Rightarrow> pending_store \<Rightarrow> pending_store" where
  "set_status i code msg s =
     AList.map_entry i (\<lambda>p. p\<lparr>pr_status_code := code, pr_status_msg := msg\<rparr>) s"

section \<open>Runs of operations and the invariant\<close>

datatype pending_op =
    PAdd pending_request time_point
  | PRemove string
  | PSetState string pending_state
  | PBind string string
  | PAppend string bytes bool int time_point
  | PReopen string audio_settings
  | PStatus string int string

fun pending_exec :: "pending_op \<Rightarrow> pending_store \<Rightarrow> pending_store" where
  "pending_exec (PAdd p t) s = pending_add p t s"
| "pending_exec (PRemove i) s = pending_remove i s"
| "pending_exec (PSetState i st) s = set_state i st s"
| "pending_exec (PBind i sid) s = bind_session i sid s"
| "pending_exec (PAppend i d f u t) s = snd (append_chunk i d f u t s)"
| "pending_exec (PReopen i a) s = reopen_local i a s"
| "pending_exec (PStatus i c m) s = set_status i c m s"

definition bytes_counted :: "pending_request \<Rightarrow> bool" where
  "bytes_counted p \<longleftrightarrow> pr_cumulative_bytes p = int (length (pr_accumulated_audio p))"

definition pending_wf :: "pending_store \<Rightarrow> bool" where
  "pending_wf s \<longleftrightarrow> distinct (map fst s) \<and>
     (\<forall>(i, p) \<in> set s. pr_request_id p = i \<and> bytes_counted p)"

fun counted_add :: "pending_op \<Rightarrow> pending_store \<Rightarrow> bool" where
  "counted_add (PAdd p t) s = bytes_counted p"
| "counted_add _ s = True"

section \<open>Lookup laws\<close>

lemma pending_add_get [store_laws]:
  "pending_get (pending_add p now s) j = (if j = pr_request_id p
     then Some (p\<lparr>pr_created_at := now, pr_last_chunk_at := now\<rparr>) else pending_get s j)"
  by (simp add: pending_add_def pending_get_def update_conv)

lemma pending_remove_get [store_laws]:
  "pending_get (pending_remove i s) j = (if j = i then None else pending_get s j)"
  by (simp add: pending_remove_def pending_get_def delete_conv)

lemma map_entry_get:
  "map_of (AList.map_entry i f s) j = (if j = i then map_option f (map_of s j) else map_of s j)"
  by (cases "map_of s j") (auto simp: map_of_map_entry)

lemma set_state_get [store_laws]:
  "pending_get (set_state i st s) j = (if j = i
     then map_option (\<lambda>p. p\<lparr>pr_state := st\<rparr>) (pending_get s j) else pending_get s j)"
  by (auto simp: set_state_def pending_get_def map_entry_get split: option.splits)

lemma bind_session_get [store_laws]:
  "pending_get (bind_session i sid s) j = (if j = i
     then map_option (\<lambda>p. p\<lparr>pr_session_id := sid, pr_state := StreamingAudio\<rparr>) (pending_get s j)
     else pending_get s j)"
  by (auto simp: bind_session_def pending_get_def map_entry_get split: option.splits)

lemma append_chunk_get [store_laws]:
  "pending_get (snd (append_chunk i d f u t s)) j = (if j = i
     then map_option (\<lambda>p. p\<lparr>pr_accumulated_audio := pr_accumulated_audio p @ d,
         pr_cumulative_bytes := pr_cumulative_bytes p + int (length d),
         pr_usage_characters := u, pr_last_chunk_at := t,
         pr_final_received := f \<or> pr_final_received p\<rparr>) (pending_get s j)
     else pending_get s j)"
  by (auto simp: append_chunk_def pending_get_def map_entry_get split: option.splits)

lemma reopen_local_get [store_laws]:
  "pending_get (reopen_local i a s) j = (if j = i
     then map_option (\<lambda>p. p\<lparr>pr_sample_rate := as_sample_rate a, pr_channels := as_channel a,
       pr_format := Pcm, pr_state := StreamingAudio\<rparr>) (pending_get s j) else pending_get s j)"
  by (simp add: reopen_local_def pending_get_def map_entry_get)

lemma set_status_get [store_laws]:
  "pending_get (set_status i c m s) j = (if j = i
     then map_option (\<lambda>p. p\<lparr>pr_status_code := c, pr_status_msg := m\<rparr>) (pending_get s j)
     else pending_get s j)"
  by (simp add: set_status_def pending_get_def map_entry_get)

section \<open>Preservation of the invariant\<close>

lemma map_entry_wf:
  assumes "pending_wf s" and "\<And>p. pr_request_id (f p) = pr_request_id p"
    and "\<And>p. bytes_counted p \<Longrightarrow> bytes_counted (f p)"
  shows "pending_wf (AList.map_entry i f s)"
  using assms unfolding pending_wf_def by (force dest: set_map_entry_sub)

lemma pending_add_wf: "pending_wf s \<Longrightarrow> bytes_counted p \<Longrightarrow> pending_wf (pending_add p t s)"
  by (auto simp: pending_wf_def pending_add_def distinct_update bytes_counted_def
      dest!: set_update_sub)

lemma pending_remove_wf: "pending_wf s \<Longrightarrow> pending_wf (pending_remove i s)"
  by (auto simp: pending_wf_def pending_remove_def distinct_delete set_delete_sub)

lemma pending_exec_wf: "pending_wf s \<Longrightarrow> counted_add op s \<Longrightarrow> pending_wf (pending_exec op s)"
  by (cases op)
    (auto simp: pending_add_wf pending_remove_wf set_state_def bind_session_def append_chunk_def
      reopen_local_def set_status_def bytes_counted_def intro!: map_entry_wf split: option.splits)

interpretation pending_run: guarded_system pending_exec counted_add pending_wf
  by unfold_locales (rule pending_exec_wf)

lemma pending_wf_distinct: "pending_wf s \<Longrightarrow> distinct (map fst s)"
  by (simp add: pending_wf_def)

lemma pending_wf_get:
  "pending_wf s \<Longrightarrow> pending_get s i = Some p \<Longrightarrow> pr_request_id p = i \<and> bytes_counted p"
  by (auto simp: pending_wf_def pending_get_def dest: map_of_SomeD)

lemma pending_wf_Nil [simp]: "pending_wf []"
  by (simp add: pending_wf_def)

interpretation pstore: erasable_store pending_get pending_remove pending_snapshot_ids pending_wf
proof
  show "i \<in> set (pending_snapshot_ids s) \<longleftrightarrow> pending_get s i \<noteq> None" for i s
    by (simp add: pending_snapshot_ids_def pending_get_def map_of_eq_None_iff)
qed (simp_all add: store_laws pending_remove_wf pending_snapshot_ids_def pending_wf_distinct)

section \<open>Collections\<close>

lemma collect_set:
  assumes "distinct (map fst s)"
  shows "set (map fst (filter (\<lambda>(_, p). Q p) s)) = {i. \<exists>p. map_of s i = Some p \<and> Q p}"
  using assms by force

lemma find_ready_to_emit_set [store_laws]: "pending_wf s \<Longrightarrow>
  set (find_ready_to_emit s) =
    {i. \<exists>p. pending_get s i = Some p \<and> pr_state p = StreamingAudio \<and> pr_final_received p}"
  unfolding find_ready_to_emit_def pending_get_def
  by (rule collect_set) (rule pending_wf_distinct)

lemma collect_by_session_set [store_laws]: "pending_wf s \<Longrightarrow>
  set (collect_by_session sid s) = {i. \<exists>p. pending_get s i = Some p \<and> pr_session_id p = sid}"
  unfolding collect_by_session_def pending_get_def
  by (rule collect_set) (rule pending_wf_distinct)

lemma collect_terminal_set [store_laws]: "pending_wf s \<Longrightarrow>
  set (collect_terminal s) =
    {i. \<exists>p. pending_get s i = Some p \<and> (pr_state p = Failed \<or> pr_state p = Cancelled)}"
  unfolding collect_terminal_def pending_get_def
  by (rule collect_set) (rule pending_wf_distinct)

lemma collect_distinct: "distinct (map fst s) \<Longrightarrow> distinct (map fst (filter Q s))"
  by (simp add: distinct_map_filter)

section \<open>Appending a sequence of chunks\<close>

type_synonym chunk = "bytes \<times> bool \<times> int \<times> time_point"

definition append_all :: "string \<Rightarrow> chunk list \<Rightarrow> pending_store \<Rightarrow> pending_store" where
  "append_all i cs s = fold (\<lambda>(d, f, u, t) s. snd (append_chunk i d f u t s)) cs s"

lemma append_all_Nil [simp]: "append_all i [] s = s"
  by (simp add: append_all_def)

lemma append_all_Cons [simp]:
  "append_all i ((d, f, u, t) # cs) s = append_all i cs (snd (append_chunk i d f u t s))"
  by (simp add: append_all_def)

lemma append_all_other: "j \<noteq> i \<Longrightarrow> pending_get (append_all i cs s) j = pending_get s j"
  by (induction cs arbitrary: s) (auto simp: store_laws)

lemma append_all_get:
  assumes "pending_get s i = Some p"
  shows "\<exists>p'. pending_get (append_all i cs s) i = Some p' \<and>
    pr_accumulated_audio p' = pr_accumulated_audio p @ concat (map fst cs) \<and>
    pr_cumulative_bytes p' = pr_cumulative_bytes p + int (length (concat (map fst cs))) \<and>
    (pr_final_received p' \<longleftrightarrow> pr_final_received p \<or> (\<exists>c \<in> set cs. fst (snd c))) \<and>
    pr_state p' = pr_state p \<and> pr_session_id p' = pr_session_id p"
  using assms
proof (induction cs arbitrary: s p)
  case Nil
  then show ?case by simp
next
  case (Cons c cs)
  obtain d f u t where c: "c = (d, f, u, t)" by (cases c)
  let ?q = "p\<lparr>pr_accumulated_audio := pr_accumulated_audio p @ d,
         pr_cumulative_bytes := pr_cumulative_bytes p + int (length d),
         pr_usage_characters := u, pr_last_chunk_at := t,
         pr_final_received := f \<or> pr_final_received p\<rparr>"
  have "pending_get (snd (append_chunk i d f u t s)) i = Some ?q"
    using Cons.prems by (simp add: store_laws)
  from Cons.IH [OF this] show ?case by (auto simp: c)
qed

section \<open>Properties\<close>

text \<open>
  The store stays consistent under every sequence of calls that adds requests with a correct byte
  count: ids are unique, each request is found under its own id, and the running byte count is the
  length of the audio accumulated for it.
\<close>

theorem pending_store_consistent:
  assumes "all_guarded counted_add pending_exec ops []"
  shows "pending_wf (fold pending_exec ops [])"
  using assms by (intro pending_run.run_good) simp_all

theorem pending_store_consistent_witness:
  "pending_wf (fold pending_exec
     [PAdd (default_pending\<lparr>pr_request_id := ''r''\<rparr>) 5, PAppend ''r'' [1, 2] False 3 6,
      PAppend ''r'' [4] True 4 7, PSetState ''r'' Failed] [])"
  by (rule pending_store_consistent) (simp add: bytes_counted_def default_pending_def)

text \<open>
  Audio accumulates without loss, duplication or reordering: after any sequence of chunks for a
  request its audio is the old audio followed by the chunks in order, the byte counter has grown by
  exactly their total length, the request counts as finished if and only if some chunk was final,
  and no other request is touched. For an unknown request a chunk is refused and changes nothing.
\<close>

theorem audio_accumulates_in_order:
  assumes "pending_get s i = Some p"
  shows "(\<exists>p'. pending_get (append_all i cs s) i = Some p' \<and>
      pr_accumulated_audio p' = pr_accumulated_audio p @ concat (map fst cs) \<and>
      pr_cumulative_bytes p' = pr_cumulative_bytes p + int (length (concat (map fst cs))) \<and>
      (pr_final_received p' \<longleftrightarrow> pr_final_received p \<or> (\<exists>c \<in> set cs. fst (snd c)))) \<and>
    (\<forall>j. j \<noteq> i \<longrightarrow> pending_get (append_all i cs s) j = pending_get s j) \<and>
    (\<forall>j d f u t. pending_get s j = None \<longrightarrow> append_chunk j d f u t s = (False, s))"
proof (intro conjI)
  show "\<exists>p'. pending_get (append_all i cs s) i = Some p' \<and>
      pr_accumulated_audio p' = pr_accumulated_audio p @ concat (map fst cs) \<and>
      pr_cumulative_bytes p' = pr_cumulative_bytes p + int (length (concat (map fst cs))) \<and>
      (pr_final_received p' \<longleftrightarrow> pr_final_received p \<or> (\<exists>c \<in> set cs. fst (snd c)))"
    using append_all_get [OF assms, of cs] by blast
  show "\<forall>j. j \<noteq> i \<longrightarrow> pending_get (append_all i cs s) j = pending_get s j"
    by (simp add: append_all_other)
  show "\<forall>j d f u t. pending_get s j = None \<longrightarrow> append_chunk j d f u t s = (False, s)"
    by (simp add: append_chunk_def pending_get_def)
qed

theorem audio_accumulates_in_order_witness:
  "\<exists>p'. pending_get (append_all ''r'' [([1, 2], False, 3, 6), ([4], True, 4, 7)]
      [(''r'', default_pending)]) ''r'' = Some p' \<and> pr_accumulated_audio p' = [1, 2, 4] \<and>
      pr_cumulative_bytes p' = 3 \<and> pr_final_received p'"
proof -
  have "pending_get [(''r'', default_pending)] ''r'' = Some default_pending"
    by (simp add: pending_get_def)
  from audio_accumulates_in_order [OF this,
      of "[([1, 2], False, 3, 6), ([4], True, 4, 7)]"]
  show ?thesis by (auto simp: default_pending_def)
qed

end
