(* ===== verification/Evolution.thy ===== *)
theory Evolution
  imports Session_Pool Pending_Store "HOL-Library.List_Lexorder" "HOL-Library.Char_ord"
begin

text \<open>
  The evolution engine of \<^verbatim>\<open>src/heartbeat/evolution_engine.h\<close>: at the end of a heartbeat it closes sessions
  that failed, outlived their lifetime or idled too long, and drops the requests that failed or were cancelled.
  \<^verbatim>\<open>std::set<std::string>\<close> is a sorted list without duplicates; \<open>set_insert\<close> is its \<^verbatim>\<open>insert\<close>.
\<close>

section \<open>Definitions\<close>

definition set_insert :: "string \<Rightarrow> string list \<Rightarrow> string list" where
  "set_insert x xs = insort_insert x xs"

record evolve_inputs =
  ei_changed_sessions :: "string list"
  ei_changed_requests :: "string list"

definition close_one ::
  "string \<Rightarrow> string \<Rightarrow> close_session list \<times> session_pool \<Rightarrow> close_session list \<times> session_pool" where
  "close_one why sid acc = (fst acc @ [\<lparr>cl_session_id = sid, cl_reason = why\<rparr>], mark_closed sid (snd acc))"

definition session_dead :: "session_record \<Rightarrow> bool" where
  "session_dead r \<longleftrightarrow> sr_state r = Errored \<or> sr_state r = Closed"

definition evolve_changed ::
  "string \<Rightarrow> close_session list \<times> session_pool \<Rightarrow> close_session list \<times> session_pool" where
  "evolve_changed sid acc =
     (case pool_get (snd acc) sid of
        None \<Rightarrow> acc
      | Some r \<Rightarrow> if session_dead r then close_one ''evolve_session_closed'' sid acc else acc)"

definition evolve_terminal ::
  "string \<Rightarrow> close_session list \<times> pending_store \<Rightarrow> close_session list \<times> pending_store" where
  "evolve_terminal rid acc =
     (case pending_get (snd acc) rid of
        None \<Rightarrow> acc
      | Some p \<Rightarrow> (fst acc @ [\<lparr>cl_session_id = pr_session_id p, cl_reason = ''request_failed_or_cancelled''\<rparr>],
                   pending_remove rid (snd acc)))"

definition evolve ::
  "time_point \<Rightarrow> evolve_inputs \<Rightarrow> session_pool \<Rightarrow> pending_store \<Rightarrow>
     close_session list \<times> session_pool \<times> pending_store" where
  "evolve now inputs pool pend =
     (let acc = fold evolve_changed (ei_changed_sessions inputs) ([], pool);
          acc = fold (close_one ''lifetime_exceeded'') (collect_lifetime_expired now (snd acc)) acc;
          acc = fold (close_one ''idle_timeout'') (collect_idle_expired now (snd acc)) acc;
          res = fold evolve_terminal (collect_terminal pend) (fst acc, pend)
      in (fst res, snd acc, snd res))"

section \<open>The loops\<close>

lemma set_insert_set [simp]: "set (set_insert x xs) = insert x (set xs)"
  by (simp add: set_insert_def set_insort_insert)

lemma set_insert_sorted:
  "sorted xs \<and> distinct xs \<Longrightarrow> sorted (set_insert x xs) \<and> distinct (set_insert x xs)"
  by (simp add: set_insert_def sorted_insort_insert distinct_insort_insert)

lemma fold_close_one:
  "fold (close_one why) ids acc =
     (fst acc @ map (\<lambda>i. \<lparr>cl_session_id = i, cl_reason = why\<rparr>) ids, fold mark_closed ids (snd acc))"
  by (induction ids arbitrary: acc) (simp_all add: close_one_def)

definition dead_in :: "session_pool \<Rightarrow> string \<Rightarrow> bool" where
  "dead_in p i \<longleftrightarrow> (\<exists>r. pool_get p i = Some r \<and> session_dead r)"

lemma evolve_changed_dead:
  "evolve_changed i acc = (if dead_in (snd acc) i then close_one ''evolve_session_closed'' i acc else acc)"
  by (auto simp: evolve_changed_def dead_in_def split: option.splits)

lemma fold_evolve_changed:
  assumes "distinct ids"
  shows "fold evolve_changed ids acc =
    (fst acc @ map (\<lambda>i. \<lparr>cl_session_id = i, cl_reason = ''evolve_session_closed''\<rparr>) (filter (dead_in (snd acc)) ids),
     fold mark_closed (filter (dead_in (snd acc)) ids) (snd acc))"
  using assms
proof (induction ids arbitrary: acc)
  case (Cons i ids)
  have "filter (dead_in (mark_closed i (snd acc))) ids = filter (dead_in (snd acc)) ids"
    using Cons.prems by (intro filter_cong refl) (auto simp: dead_in_def store_laws)
  with Cons show ?case by (simp add: evolve_changed_dead close_one_def)
qed simp

lemma fold_evolve_terminal:
  assumes "distinct ids" and "\<forall>i \<in> set ids. pending_get (snd acc) i \<noteq> None"
  shows "fold evolve_terminal ids acc =
    (fst acc @ map (\<lambda>i. \<lparr>cl_session_id = pr_session_id (the (pending_get (snd acc) i)),
        cl_reason = ''request_failed_or_cancelled''\<rparr>) ids,
     fold pending_remove ids (snd acc))"
  using assms
proof (induction ids arbitrary: acc)
  case (Cons i ids)
  then have "\<forall>j \<in> set ids. pending_get (pending_remove i (snd acc)) j = pending_get (snd acc) j"
    by (auto simp: store_laws)
  with Cons show ?case by (auto simp: evolve_terminal_def)
qed simp

text \<open>The three groups of sessions that one evolution removes.\<close>

definition evolve_dead :: "evolve_inputs \<Rightarrow> session_pool \<Rightarrow> string list" where
  "evolve_dead inputs p = filter (dead_in p) (ei_changed_sessions inputs)"

definition evolve_old :: "time_point \<Rightarrow> evolve_inputs \<Rightarrow> session_pool \<Rightarrow> string list" where
  "evolve_old now inputs p = collect_lifetime_expired now (fold mark_closed (evolve_dead inputs p) p)"

definition evolve_idle :: "time_point \<Rightarrow> evolve_inputs \<Rightarrow> session_pool \<Rightarrow> string list" where
  "evolve_idle now inputs p =
     collect_idle_expired now (fold mark_closed (evolve_dead inputs p @ evolve_old now inputs p) p)"

lemma evolve_unfold:
  assumes "distinct (ei_changed_sessions inputs)" and "pending_wf s"
  shows "evolve now inputs p s =
    (map (\<lambda>i. \<lparr>cl_session_id = i, cl_reason = ''evolve_session_closed''\<rparr>) (evolve_dead inputs p) @
     map (\<lambda>i. \<lparr>cl_session_id = i, cl_reason = ''lifetime_exceeded''\<rparr>) (evolve_old now inputs p) @
     map (\<lambda>i. \<lparr>cl_session_id = i, cl_reason = ''idle_timeout''\<rparr>) (evolve_idle now inputs p) @
     map (\<lambda>i. \<lparr>cl_session_id = pr_session_id (the (pending_get s i)),
        cl_reason = ''request_failed_or_cancelled''\<rparr>) (collect_terminal s),
     fold mark_closed (evolve_dead inputs p @ evolve_old now inputs p @ evolve_idle now inputs p) p,
     fold pending_remove (collect_terminal s) s)"
proof -
  have "distinct (collect_terminal s)"
    using assms(2) by (auto simp: collect_terminal_def pending_wf_def intro: collect_distinct)
  moreover have "\<forall>i \<in> set (collect_terminal s). pending_get s i \<noteq> None"
    using assms(2) by (auto simp: store_laws)
  ultimately show ?thesis using assms(1)
    by (simp add: evolve_def Let_def fold_evolve_changed fold_close_one fold_evolve_terminal
        evolve_dead_def evolve_old_def evolve_idle_def)
qed

section \<open>What remains\<close>

definition survives :: "time_point \<Rightarrow> evolve_inputs \<Rightarrow> session_pool \<Rightarrow> string \<Rightarrow> session_record \<Rightarrow> bool" where
  "survives now inputs p i r \<longleftrightarrow>
     \<not> (i \<in> set (ei_changed_sessions inputs) \<and> session_dead r) \<and>
     now - sr_created_at r < secs (max_lifetime p) \<and>
     \<not> (sr_state r = Ready \<and> now - sr_last_active_at r \<ge> secs (idle_timeout p))"

lemma fold_mark_closed_frame [frame_simps]:
  "max_size (fold mark_closed ids p) = max_size p"
  "idle_timeout (fold mark_closed ids p) = idle_timeout p"
  "max_lifetime (fold mark_closed ids p) = max_lifetime p"
  by (induction ids arbitrary: p) (simp_all add: pool_remove_defs)

lemma evolve_dead_set: "i \<in> set (evolve_dead inputs p) \<longleftrightarrow> i \<in> set (ei_changed_sessions inputs) \<and> dead_in p i"
  by (auto simp: evolve_dead_def)

lemma evolve_old_set:
  assumes "pool_wf p"
  shows "i \<in> set (evolve_old now inputs p) \<longleftrightarrow> i \<notin> set (evolve_dead inputs p) \<and>
    (\<exists>r. pool_get p i = Some r \<and> now - sr_created_at r \<ge> secs (max_lifetime p))"
  using assms
  by (simp add: evolve_old_def collect_lifetime_expired_set pool_store.invar_fold_erase
      pool_store.find_fold_erase frame_simps)

lemma evolve_idle_set:
  assumes "pool_wf p"
  shows "i \<in> set (evolve_idle now inputs p) \<longleftrightarrow>
    i \<notin> set (evolve_dead inputs p) \<and> i \<notin> set (evolve_old now inputs p) \<and>
    (\<exists>r. pool_get p i = Some r \<and> sr_state r = Ready \<and> now - sr_last_active_at r \<ge> secs (idle_timeout p))"
  unfolding evolve_idle_def using assms
  by (simp del: fold_append add: collect_idle_expired_set pool_store.invar_fold_erase
      pool_store.find_fold_erase frame_simps)

lemma evolve_pool_get:
  assumes "pool_wf p" and "distinct (ei_changed_sessions inputs)" and "pending_wf s"
    and "evolve now inputs p s = (out, p', s')"
  shows "pool_get p' i = Some r \<longleftrightarrow> pool_get p i = Some r \<and> survives now inputs p i r"
proof -
  let ?gone = "evolve_dead inputs p @ evolve_old now inputs p @ evolve_idle now inputs p"
  have p': "p' = fold mark_closed ?gone p" using assms by (simp add: evolve_unfold)
  have "pool_get p' i = (if i \<in> set ?gone then None else pool_get p i)"
    unfolding p' using assms(1) by (rule pool_store.find_fold_erase)
  moreover have "i \<in> set ?gone \<longleftrightarrow> \<not> survives now inputs p i r" if "pool_get p i = Some r"
    using that assms(1)
    by (auto simp: evolve_dead_set evolve_old_set evolve_idle_set survives_def dead_in_def)
  ultimately show ?thesis by auto
qed

lemma evolve_wf:
  assumes "pool_wf p" and "distinct (ei_changed_sessions inputs)" and "pending_wf s"
    and "evolve now inputs p s = (out, p', s')"
  shows "pool_wf p'" and "pending_wf s'" and "max_size p' = max_size p"
    and "idle_timeout p' = idle_timeout p" and "max_lifetime p' = max_lifetime p"
  using assms by (auto simp: evolve_unfold pool_store.invar_fold_erase pstore.invar_fold_erase frame_simps
      simp del: fold_append)

lemma evolve_pending_get:
  assumes "distinct (ei_changed_sessions inputs)" and "pending_wf s"
    and "evolve now inputs p s = (out, p', s')"
  shows "pending_get s' i = Some q \<longleftrightarrow>
    pending_get s i = Some q \<and> pr_state q \<noteq> Failed \<and> pr_state q \<noteq> Cancelled"
proof -
  have "s' = fold pending_remove (collect_terminal s) s" using assms by (simp add: evolve_unfold)
  then have "pending_get s' i = (if i \<in> set (collect_terminal s) then None else pending_get s i)"
    using assms(2) by (simp only: pstore.find_fold_erase)
  then show ?thesis using assms(2) by (auto simp: store_laws)
qed

lemma fold_mark_closed_lru: "distinct (lru p) \<Longrightarrow> distinct (lru (fold mark_closed ids p))"
  by (induction ids arbitrary: p) (simp_all add: pool_remove_defs distinct_removeAll)

lemma evolve_gone_distinct:
  assumes "pool_inv p" and "distinct (ei_changed_sessions inputs)"
  shows "distinct (evolve_dead inputs p @ evolve_old now inputs p @ evolve_idle now inputs p)"
proof -
  have wf: "pool_wf p" and lru: "distinct (lru p)" using assms(1) by (simp_all add: pool_inv_def)
  have "distinct (evolve_dead inputs p)" using assms(2) by (simp add: evolve_dead_def)
  moreover have "distinct (evolve_old now inputs p)"
    unfolding evolve_old_def collect_lifetime_expired_def
    using pool_wf_distinct [OF pool_store.invar_fold_erase [OF wf]] by (intro collect_distinct)
  moreover have "distinct (evolve_idle now inputs p)"
    unfolding evolve_idle_def collect_idle_expired_def
    using fold_mark_closed_lru [OF lru] by (intro distinct_filter) (simp del: fold_append)
  ultimately show ?thesis using wf
    by (auto simp: evolve_idle_set evolve_old_set)
qed

lemma evolve_reports:
  assumes "pool_inv p" and "pending_wf s" and "distinct (ei_changed_sessions inputs)"
    and "evolve now inputs p s = (out, p', s')"
  shows "\<exists>closed_ids failed_ids.
       map cl_session_id out = closed_ids @ map (\<lambda>i. pr_session_id (the (pending_get s i))) failed_ids \<and>
       distinct closed_ids \<and> distinct failed_ids \<and>
       (\<forall>i. i \<in> set closed_ids \<longleftrightarrow> pool_get p i \<noteq> None \<and> pool_get p' i = None) \<and>
       (\<forall>i. i \<in> set failed_ids \<longleftrightarrow> pending_get s i \<noteq> None \<and> pending_get s' i = None)"
proof (intro exI conjI)
  let ?gone = "evolve_dead inputs p @ evolve_old now inputs p @ evolve_idle now inputs p"
  have wf: "pool_wf p" using assms(1) by (simp add: pool_inv_def)
  have u: "out = map (\<lambda>i. \<lparr>cl_session_id = i, cl_reason = ''evolve_session_closed''\<rparr>) (evolve_dead inputs p) @
     map (\<lambda>i. \<lparr>cl_session_id = i, cl_reason = ''lifetime_exceeded''\<rparr>) (evolve_old now inputs p) @
     map (\<lambda>i. \<lparr>cl_session_id = i, cl_reason = ''idle_timeout''\<rparr>) (evolve_idle now inputs p) @
     map (\<lambda>i. \<lparr>cl_session_id = pr_session_id (the (pending_get s i)),
        cl_reason = ''request_failed_or_cancelled''\<rparr>) (collect_terminal s)"
    and p': "p' = fold mark_closed ?gone p" and s': "s' = fold pending_remove (collect_terminal s) s"
    using assms by (simp_all add: evolve_unfold)
  show "map cl_session_id out = ?gone @ map (\<lambda>i. pr_session_id (the (pending_get s i))) (collect_terminal s)"
    unfolding u by (simp add: comp_def)
  show "distinct ?gone" by (rule evolve_gone_distinct [OF assms(1,3)])
  show "distinct (collect_terminal s)"
    using assms(2) by (auto simp: collect_terminal_def pending_wf_def intro: collect_distinct)
  have "i \<in> set ?gone \<Longrightarrow> pool_get p i \<noteq> None" for i
    using wf by (auto simp: evolve_dead_set evolve_old_set evolve_idle_set dead_in_def)
  then show "\<forall>i. i \<in> set ?gone \<longleftrightarrow> pool_get p i \<noteq> None \<and> pool_get p' i = None"
    unfolding p' pool_store.find_fold_erase [OF wf] by auto
  have "i \<in> set (collect_terminal s) \<Longrightarrow> pending_get s i \<noteq> None" for i
    using assms(2) by (auto simp: store_laws)
  then show "\<forall>i. i \<in> set (collect_terminal s) \<longleftrightarrow> pending_get s i \<noteq> None \<and> pending_get s' i = None"
    unfolding s' pstore.find_fold_erase [OF assms(2)] by auto
qed

section \<open>Properties\<close>

text \<open>
  C26. The evolution engine removes exactly what is due: of the sessions, those that changed in this heartbeat
  and are errored or closed, those as old as the maximum lifetime and those ready and idle for the timeout; of the
  requests, those that failed or were cancelled. Every removed session is reported for closing exactly once and no
  surviving session is reported; every removed request is reported once with its session.
\<close>

theorem evolve_removes_exactly_due:
  assumes "pool_inv p" and "pending_wf s" and "distinct (ei_changed_sessions inputs)"
    and "evolve now inputs p s = (out, p', s')"
  shows "(\<forall>i r. pool_get p' i = Some r \<longleftrightarrow> pool_get p i = Some r \<and> survives now inputs p i r) \<and>
    (\<forall>i q. pending_get s' i = Some q \<longleftrightarrow>
       pending_get s i = Some q \<and> pr_state q \<noteq> Failed \<and> pr_state q \<noteq> Cancelled) \<and>
    (\<exists>closed_ids failed_ids.
       map cl_session_id out = closed_ids @ map (\<lambda>i. pr_session_id (the (pending_get s i))) failed_ids \<and>
       distinct closed_ids \<and> distinct failed_ids \<and>
       (\<forall>i. i \<in> set closed_ids \<longleftrightarrow> pool_get p i \<noteq> None \<and> pool_get p' i = None) \<and>
       (\<forall>i. i \<in> set failed_ids \<longleftrightarrow> pending_get s i \<noteq> None \<and> pending_get s' i = None))"
proof (intro conjI allI)
  show "pool_get p' i = Some r \<longleftrightarrow> pool_get p i = Some r \<and> survives now inputs p i r" for i r
    using assms by (intro evolve_pool_get) (simp_all add: pool_inv_def)
  show "pending_get s' i = Some q \<longleftrightarrow>
      pending_get s i = Some q \<and> pr_state q \<noteq> Failed \<and> pr_state q \<noteq> Cancelled" for i q
    using assms by (intro evolve_pending_get)
  show "\<exists>closed_ids failed_ids. map cl_session_id out = closed_ids @
      map (\<lambda>i. pr_session_id (the (pending_get s i))) failed_ids \<and> distinct closed_ids \<and> distinct failed_ids \<and>
      (\<forall>i. i \<in> set closed_ids \<longleftrightarrow> pool_get p i \<noteq> None \<and> pool_get p' i = None) \<and>
      (\<forall>i. i \<in> set failed_ids \<longleftrightarrow> pending_get s i \<noteq> None \<and> pending_get s' i = None)"
    using evolve_reports [OF assms] by blast
qed

lemma example_pool_inv: "pool_inv example_pool"
  using example_pool_wf by (simp add: pool_inv_def example_pool_eval)

theorem evolve_removes_exactly_due_witness:
  "\<exists>out p' s'. evolve (secs 100) \<lparr>ei_changed_sessions = [], ei_changed_requests = []\<rparr> example_pool [] = (out, p', s') \<and>
     pool_get p' ''old'' = None \<and>
     pool_get p' ''busy'' = Some (default_session\<lparr>sr_session_id := ''busy'', sr_state := Streaming\<rparr>)"
proof -
  let ?in = "\<lparr>ei_changed_sessions = [], ei_changed_requests = []\<rparr>"
  obtain out p' s' where e: "evolve (secs 100) ?in example_pool [] = (out, p', s')" by (metis prod_cases3)
  have d: "distinct (ei_changed_sessions ?in)" by simp
  have life: "max_lifetime example_pool = 3600" by (simp add: example_pool_def new_pool_def pool_add_def)
  have get: "pool_get p' i = Some r \<longleftrightarrow> pool_get example_pool i = Some r \<and> survives (secs 100) ?in example_pool i r" for i r
    using evolve_removes_exactly_due [OF example_pool_inv pending_wf_Nil d e] by blast
  have "pool_get p' ''old'' \<noteq> Some r" for r
    unfolding get by (auto simp: pool_get_def example_pool_eval survives_def life secs_def default_session_def)
  then have "pool_get p' ''old'' = None" by (cases "pool_get p' ''old''") auto
  moreover have "pool_get p' ''busy'' = Some (default_session\<lparr>sr_session_id := ''busy'', sr_state := Streaming\<rparr>)"
    unfolding get by (simp add: pool_get_def example_pool_eval survives_def life secs_def default_session_def)
  ultimately show ?thesis using e by blast
qed

end
