(* ===== verification/Event_Bus.thy ===== *)
theory Event_Bus
  imports Tts_Prelude "HOL-Library.Multiset"
begin

text \<open>
  The event bus of \<^verbatim>\<open>src/framework/event_bus.h\<close> and \<^verbatim>\<open>src/framework/event_bus.cpp\<close>: a registry
  from event types to listener slots, synchronous dispatch over a snapshot of the slots, and an inbox
  of asynchronous events that worker threads drain.

  A listener is a function on the state its owner captured; the listeners of this program neither
  subscribe nor publish, so the state they act on does not contain the bus. A queued task is the closure
  \<^verbatim>\<open>dispatch_sync(typeid(E), copy)\<close>, kept as the pair of the type and the copied event. The mutexes make
  each operation atomic; what the workers can interleave (a task is popped under the inbox lock and run
  after it is released) is the step relation \<open>bus_step\<close>.
\<close>

section \<open>Registry\<close>

type_synonym subscription_id = u64

record ('e, 's) slot =
  slot_fn :: "'e \<Rightarrow> 's \<Rightarrow> 's"
  slot_id :: subscription_id

record ('t, 'e, 's) event_bus =
  registry :: "('t, ('e, 's) slot list) umap"
  next_id :: subscription_id
  inbox :: "('t \<times> 'e) list"
  running :: bool

definition new_bus :: "('t, 'e, 's) event_bus" where
  "new_bus = \<lparr>registry = [], next_id = 1, inbox = [], running = False\<rparr>"

definition bucket :: "('t, 'e, 's) event_bus \<Rightarrow> 't \<Rightarrow> ('e, 's) slot list" where
  "bucket b t = (case map_of (registry b) t of None \<Rightarrow> [] | Some slots \<Rightarrow> slots)"

definition subscribe_erased ::
  "'t \<Rightarrow> ('e \<Rightarrow> 's \<Rightarrow> 's) \<Rightarrow> ('t, 'e, 's) event_bus \<Rightarrow> subscription_id \<times> ('t, 'e, 's) event_bus" where
  "subscribe_erased t fn b =
     (let reg = (if map_of (registry b) t = None then (t, []) # registry b else registry b);
          sid = next_id b;
          reg' = AList.map_entry t (\<lambda>slots. slots @ [\<lparr>slot_fn = fn, slot_id = sid\<rparr>]) reg
      in (sid, b\<lparr>registry := reg', next_id := sid + 1\<rparr>))"

definition unsubscribe :: "subscription_id \<Rightarrow> ('t, 'e, 's) event_bus \<Rightarrow> ('t, 'e, 's) event_bus" where
  "unsubscribe sid b =
     b\<lparr>registry := map (\<lambda>(t, slots). (t, filter (\<lambda>s. slot_id s \<noteq> sid) slots)) (registry b)\<rparr>"

definition dispatch_sync :: "('t, 'e, 's) event_bus \<Rightarrow> 't \<Rightarrow> 'e \<Rightarrow> 's \<Rightarrow> 's" where
  "dispatch_sync b t ev s =
     (case map_of (registry b) t of
        None \<Rightarrow> s
      | Some slots \<Rightarrow> fold (\<lambda>sl. slot_fn sl ev) slots s)"

definition enqueue_async :: "'t \<Rightarrow> 'e \<Rightarrow> ('t, 'e, 's) event_bus \<Rightarrow> ('t, 'e, 's) event_bus" where
  "enqueue_async t ev b = b\<lparr>inbox := inbox b @ [(t, ev)]\<rparr>"

definition try_pop :: "('t, 'e, 's) event_bus \<Rightarrow> ('t \<times> 'e) option \<times> ('t, 'e, 's) event_bus" where
  "try_pop b = (case inbox b of [] \<Rightarrow> (None, b) | x # q \<Rightarrow> (Some x, b\<lparr>inbox := q\<rparr>))"

definition pending_count :: "('t, 'e, 's) event_bus \<Rightarrow> nat" where
  "pending_count b = length (inbox b)"

section \<open>Subscription handles\<close>

text \<open>
  A handle owns one subscription: it has its bus and a non-zero id. Moving it leaves an empty handle behind, and resetting it, as its
  destructor does, removes the listener.
\<close>

record scoped_subscription =
  ss_bus :: bool
  ss_id :: subscription_id

definition empty_handle :: scoped_subscription where
  "empty_handle = \<lparr>ss_bus = False, ss_id = 0\<rparr>"

definition new_handle :: "subscription_id \<Rightarrow> scoped_subscription" where
  "new_handle sid = \<lparr>ss_bus = True, ss_id = sid\<rparr>"

definition subscribe ::
  "'t \<Rightarrow> ('e \<Rightarrow> 's \<Rightarrow> 's) \<Rightarrow> ('t, 'e, 's) event_bus \<Rightarrow> scoped_subscription \<times> ('t, 'e, 's) event_bus" where
  "subscribe t fn b = (case subscribe_erased t fn b of (sid, b') \<Rightarrow> (new_handle sid, b'))"

definition reset_handle ::
  "scoped_subscription \<Rightarrow> ('t, 'e, 's) event_bus \<Rightarrow> scoped_subscription \<times> ('t, 'e, 's) event_bus" where
  "reset_handle h b = (if ss_bus h \<and> ss_id h \<noteq> 0 then (empty_handle, unsubscribe (ss_id h) b) else (h, b))"

definition destroy_handle :: "scoped_subscription \<Rightarrow> ('t, 'e, 's) event_bus \<Rightarrow> ('t, 'e, 's) event_bus" where
  "destroy_handle h b = snd (reset_handle h b)"

text \<open>The move constructor, and the move assignment to a different handle: the new owner and the handle moved from.\<close>

definition move_construct :: "scoped_subscription \<Rightarrow> scoped_subscription \<times> scoped_subscription" where
  "move_construct other = (\<lparr>ss_bus = ss_bus other, ss_id = ss_id other\<rparr>, empty_handle)"

definition move_assign ::
  "scoped_subscription \<Rightarrow> scoped_subscription \<Rightarrow> ('t, 'e, 's) event_bus \<Rightarrow>
   (scoped_subscription \<times> scoped_subscription) \<times> ('t, 'e, 's) event_bus" where
  "move_assign h other b =
     (case reset_handle h b of (_, b') \<Rightarrow> ((\<lparr>ss_bus = ss_bus other, ss_id = ss_id other\<rparr>, empty_handle), b'))"

text \<open>A member that is assigned a new subscription, as in the \<^verbatim>\<open>wire\<close> functions: the temporary is destroyed after the move.\<close>

definition assign_subscription ::
  "'t \<Rightarrow> ('e \<Rightarrow> 's \<Rightarrow> 's) \<Rightarrow> scoped_subscription \<Rightarrow> ('t, 'e, 's) event_bus \<Rightarrow> scoped_subscription \<times> ('t, 'e, 's) event_bus" where
  "assign_subscription t fn h b =
     (case subscribe t fn b of (tmp, b1) \<Rightarrow>
        case move_assign h tmp b1 of ((h', tmp'), b2) \<Rightarrow> (h', destroy_handle tmp' b2))"

section \<open>Workers\<close>

text \<open>
  The bus together with its workers: the task each worker holds between popping it and having run it,
  the state the listeners act on, and, for the statements, the tasks published and run so far.
\<close>

record ('t, 'e, 's) bus_world =
  wd_bus :: "('t, 'e, 's) event_bus"
  wd_hands :: "('t \<times> 'e) option list"
  wd_state :: 's
  wd_published :: "('t \<times> 'e) list"
  wd_run :: "('t \<times> 'e) list"

definition start_workers :: "nat \<Rightarrow> ('t, 'e, 's) bus_world \<Rightarrow> ('t, 'e, 's) bus_world" where
  "start_workers n w =
     (if running (wd_bus w) then w
      else w\<lparr>wd_bus := (wd_bus w)\<lparr>running := True\<rparr>, wd_hands := wd_hands w @ replicate n None\<rparr>)"

inductive bus_step :: "('t, 'e, 's) bus_world \<Rightarrow> ('t, 'e, 's) bus_world \<Rightarrow> bool" where
  publish: "bus_step w (w\<lparr>wd_bus := enqueue_async t ev (wd_bus w), wd_published := wd_published w @ [(t, ev)]\<rparr>)"
| pop: "i < length (wd_hands w) \<Longrightarrow> wd_hands w ! i = None \<Longrightarrow> try_pop (wd_bus w) = (Some x, b) \<Longrightarrow>
    bus_step w (w\<lparr>wd_bus := b, wd_hands := (wd_hands w)[i := Some x]\<rparr>)"
| run: "i < length (wd_hands w) \<Longrightarrow> wd_hands w ! i = Some (t, ev) \<Longrightarrow>
    bus_step w (w\<lparr>wd_state := dispatch_sync (wd_bus w) t ev (wd_state w),
                  wd_hands := (wd_hands w)[i := None], wd_run := wd_run w @ [(t, ev)]\<rparr>)"

inductive_cases bus_step_cases: "bus_step w w'"

definition fresh_world :: "nat \<Rightarrow> ('t, 'e, 's) event_bus \<Rightarrow> 's \<Rightarrow> ('t, 'e, 's) bus_world" where
  "fresh_world n b s = start_workers n \<lparr>wd_bus = b\<lparr>inbox := [], running := False\<rparr>, wd_hands = [],
     wd_state = s, wd_published = [], wd_run = []\<rparr>"

definition in_hand :: "('t, 'e, 's) bus_world \<Rightarrow> ('t \<times> 'e) list" where
  "in_hand w = concat (map (case_option [] (\<lambda>x. [x])) (wd_hands w))"

section \<open>Well-formedness\<close>

text \<open>Every registered id was handed out by the bus, no type has two buckets.\<close>

definition slot_ids :: "('t, 'e, 's) event_bus \<Rightarrow> subscription_id set" where
  "slot_ids b = slot_id ` (\<Union>x \<in> set (registry b). set (snd x))"

definition bus_wf :: "('t, 'e, 's) event_bus \<Rightarrow> bool" where
  "bus_wf b \<longleftrightarrow> distinct (map fst (registry b)) \<and> (\<forall>i \<in> slot_ids b. 0 < i \<and> i < next_id b)"

lemmas bus_defs = new_bus_def subscribe_erased_def unsubscribe_def subscribe_def reset_handle_def
  enqueue_async_def try_pop_def

lemma dispatch_bucket: "dispatch_sync b t ev s = fold (\<lambda>sl. slot_fn sl ev) (bucket b t) s"
  by (simp add: dispatch_sync_def bucket_def split: option.splits)

lemma bucket_subscribe:
  "bucket (snd (subscribe_erased t fn b)) u =
     (if u = t then bucket b t @ [\<lparr>slot_fn = fn, slot_id = next_id b\<rparr>] else bucket b u)"
  by (auto simp: bucket_def subscribe_erased_def Let_def map_of_map_entry split: option.splits)

lemma bucket_unsubscribe: "bucket (unsubscribe sid b) t = filter (\<lambda>s. slot_id s \<noteq> sid) (bucket b t)"
  by (simp add: bucket_def unsubscribe_def map_of_map split: option.splits)

lemma bucket_ids:
  assumes "sl \<in> set (bucket b t)"
  shows "slot_id sl \<in> slot_ids b"
proof -
  from assms obtain slots where "map_of (registry b) t = Some slots" and sl: "sl \<in> set slots"
    by (cases "map_of (registry b) t") (simp_all add: bucket_def)
  then have "(t, slots) \<in> set (registry b)" by (simp add: map_of_SomeD)
  from UN_I [OF this, of sl "\<lambda>x. set (snd x)"] sl show ?thesis
    unfolding slot_ids_def by (intro imageI) (simp only: snd_conv)
qed

lemma dispatch_new: "dispatch_sync new_bus t ev s = s"
  by (simp add: dispatch_sync_def new_bus_def)

lemma bus_wf_new: "bus_wf new_bus"
  by (simp add: bus_wf_def slot_ids_def new_bus_def)

lemma slot_ids_subscribe:
  assumes "bus_wf b"
  shows "slot_ids (snd (subscribe_erased t fn b)) = insert (next_id b) (slot_ids b)"
proof -
  let ?s = "\<lparr>slot_fn = fn, slot_id = next_id b\<rparr>"
  have ins: "(\<Union>x \<in> set (AList.map_entry t (\<lambda>slots. slots @ [?s]) r). set (snd x)) =
        insert ?s (\<Union>x \<in> set r. set (snd x))" if "t \<in> fst ` set r" for r
    using that
  proof (induction r)
    case (Cons p r)
    show ?case
    proof (cases "fst p = t")
      case False
      with Cons show ?thesis by (cases p) (simp add: insert_commute)
    qed (cases p, simp)
  qed simp
  have "t \<in> fst ` set (if map_of (registry b) t = None then (t, []) # registry b else registry b)"
    by (auto simp: map_of_eq_None_iff)
  from ins [OF this] show ?thesis by (simp add: slot_ids_def subscribe_erased_def Let_def split: if_splits)
qed

lemma bus_wf_subscribe:
  assumes "bus_wf b" and "next_id b \<noteq> 0" and "next_id b + 1 \<noteq> 0"
  shows "bus_wf (snd (subscribe_erased t fn b))"
proof -
  have less: "next_id b < next_id b + 1" using assms(3) unatSuc [of "next_id b"] by (simp add: word_less_nat_alt add.commute)
  have dist: "distinct (map fst (registry (snd (subscribe_erased t fn b))))"
    using assms(1) by (auto simp: bus_wf_def subscribe_erased_def Let_def map_entry_keys map_of_eq_None_iff)
  have nx: "next_id (snd (subscribe_erased t fn b)) = next_id b + 1"
    by (simp add: subscribe_erased_def Let_def)
  have "0 < i \<and> i < next_id b + 1" if "i \<in> insert (next_id b) (slot_ids b)" for i
  proof (cases "i = next_id b")
    case True
    then show ?thesis using less assms(2) by (simp only: word_neq_0_conv)
  next
    case False
    then have "0 < i" "i < next_id b" using that assms(1) by (simp_all add: bus_wf_def)
    then show ?thesis using less less_trans by blast
  qed
  with dist show ?thesis
    unfolding bus_wf_def [of "snd (subscribe_erased t fn b)"] slot_ids_subscribe [OF assms(1)] nx by blast
qed

section \<open>Delivery\<close>

lemma mset_hands_update:
  "i < length hs \<Longrightarrow> mset (concat (map f (hs[i := y]))) + mset (f (hs ! i)) = mset (concat (map f hs)) + mset (f y)"
proof (induction hs arbitrary: i)
  case (Cons h hs)
  then show ?case by (cases i) (simp_all add: union_ac)
qed simp

lemma in_hand_take:
  assumes "i < length (wd_hands w)" and "wd_hands w ! i = None"
  shows "mset (in_hand (w\<lparr>wd_bus := b, wd_hands := (wd_hands w)[i := Some x]\<rparr>)) = add_mset x (mset (in_hand w))"
  using mset_hands_update [OF assms(1), of "case_option [] (\<lambda>x. [x])" "Some x"] assms(2)
  by (simp add: in_hand_def)

lemma in_hand_release:
  assumes "i < length (wd_hands w)" and "wd_hands w ! i = Some x"
  shows "mset (in_hand w) = add_mset x (mset (in_hand (w\<lparr>wd_state := s, wd_hands := (wd_hands w)[i := None], wd_run := r\<rparr>)))"
  using mset_hands_update [OF assms(1), of "case_option [] (\<lambda>x. [x])" None] assms(2)
  by (simp add: in_hand_def)

definition conserved :: "('t, 'e, 's) bus_world \<Rightarrow> bool" where
  "conserved w \<longleftrightarrow> mset (wd_published w) = mset (wd_run w) + mset (in_hand w) + mset (inbox (wd_bus w))"

lemma bus_step_conserved: "bus_step w w' \<Longrightarrow> conserved w \<Longrightarrow> conserved w'"
proof (induction rule: bus_step.induct)
  case (publish w t ev)
  then show ?case by (simp add: conserved_def in_hand_def enqueue_async_def)
next
  case (pop i w x b)
  then have "inbox (wd_bus w) = x # inbox b" by (auto simp: try_pop_def split: list.splits)
  with pop show ?case by (simp add: conserved_def in_hand_take)
next
  case (run i w t ev)
  then show ?case by (simp add: conserved_def in_hand_release)
qed

definition ordered :: "('t, 'e, 's) bus_world \<Rightarrow> bool" where
  "ordered w \<longleftrightarrow> length (wd_hands w) = 1 \<and> wd_published w = wd_run w @ in_hand w @ inbox (wd_bus w)"

lemma bus_step_ordered: "bus_step w w' \<Longrightarrow> ordered w \<Longrightarrow> ordered w'"
proof (induction rule: bus_step.induct)
  case (publish w t ev)
  then show ?case by (simp add: ordered_def in_hand_def enqueue_async_def)
next
  case (pop i w x b)
  then have "inbox (wd_bus w) = x # inbox b" by (auto simp: try_pop_def split: list.splits)
  moreover from pop have "wd_hands w = [None]" "i = 0" by (auto simp: ordered_def length_Suc_conv)
  ultimately show ?case using pop(4) by (simp add: ordered_def in_hand_def)
next
  case (run i w t ev)
  then have "wd_hands w = [Some (t, ev)]" "i = 0" by (auto simp: ordered_def length_Suc_conv)
  then show ?case using run(3) by (simp add: ordered_def in_hand_def)
qed

lemma fresh_world_conserved: "conserved (fresh_world n b s)"
  by (simp add: conserved_def fresh_world_def start_workers_def in_hand_def)

lemma fresh_world_ordered: "ordered (fresh_world 1 b s)"
  by (simp add: ordered_def fresh_world_def start_workers_def in_hand_def)

lemma bus_steps_conserved: "bus_step\<^sup>*\<^sup>* w w' \<Longrightarrow> conserved w \<Longrightarrow> conserved w'"
  by (induction rule: rtranclp_induct) (auto intro: bus_step_conserved)

lemma bus_steps_ordered: "bus_step\<^sup>*\<^sup>* w w' \<Longrightarrow> ordered w \<Longrightarrow> ordered w'"
  by (induction rule: rtranclp_induct) (auto intro: bus_step_ordered)

section \<open>Properties\<close>

text \<open>
  Asynchronous events are delivered exactly once: in every state the bus can reach with \<open>n\<close> workers
  from an empty inbox, the published events are, as a multiset, those already run, those a worker has
  popped and not yet run, and those still in the inbox. With a single worker they are also run in the order of
  publication.
\<close>

theorem async_exactly_once:
  assumes "bus_step\<^sup>*\<^sup>* (fresh_world n b s) w"
  shows "mset (wd_published w) = mset (wd_run w) + mset (in_hand w) + mset (inbox (wd_bus w)) \<and>
    (n = 1 \<longrightarrow> wd_published w = wd_run w @ in_hand w @ inbox (wd_bus w))"
proof (intro conjI impI)
  show "mset (wd_published w) = mset (wd_run w) + mset (in_hand w) + mset (inbox (wd_bus w))"
    using bus_steps_conserved [OF assms fresh_world_conserved] by (simp add: conserved_def)
next
  assume n: "n = 1"
  from bus_steps_ordered [OF assms [unfolded n] fresh_world_ordered]
  show "wd_published w = wd_run w @ in_hand w @ inbox (wd_bus w)" by (simp add: ordered_def)
qed

theorem async_exactly_once_witness:
  "\<exists>w. bus_step\<^sup>*\<^sup>* (fresh_world 1 (new_bus :: (nat, nat, nat) event_bus) 0) w \<and>
     wd_published w = [(7, 8)] \<and> wd_published w = wd_run w @ in_hand w @ inbox (wd_bus w)"
proof -
  let ?w = "fresh_world 1 (new_bus :: (nat, nat, nat) event_bus) 0"
  let ?v = "?w\<lparr>wd_bus := enqueue_async 7 8 (wd_bus ?w), wd_published := wd_published ?w @ [(7, 8)]\<rparr>"
  have r: "bus_step\<^sup>*\<^sup>* ?w ?v" by (intro r_into_rtranclp bus_step.publish)
  have p: "wd_published ?v = [(7, 8)]" by (simp add: fresh_world_def start_workers_def)
  have "wd_published ?v = wd_run ?v @ in_hand ?v @ inbox (wd_bus ?v)"
    using async_exactly_once [OF r] by (rule conjunct2 [THEN mp]) (rule refl)
  with r p show ?thesis by (intro exI [of _ ?v] conjI)
qed

section \<open>Handles own their listeners\<close>

lemma reset_empty [simp]: "reset_handle empty_handle b = (empty_handle, b)"
  by (simp add: reset_handle_def empty_handle_def)

lemma reset_twice: "reset_handle (fst (reset_handle h b)) c = (fst (reset_handle h b), c)"
  by (auto simp: reset_handle_def empty_handle_def)

lemma reset_owner: "sid \<noteq> 0 \<Longrightarrow> reset_handle (new_handle sid) b = (empty_handle, unsubscribe sid b)"
  by (simp add: reset_handle_def new_handle_def)

text \<open>Moving a handle transfers the subscription: only the new owner removes it, and the assigned handle drops its old one.\<close>

lemma move_construct_owner: "move_construct h = (h, empty_handle)"
  by (simp add: move_construct_def)

lemma move_assign_owner: "move_assign h other b = ((other, empty_handle), snd (reset_handle h b))"
  by (simp add: move_assign_def split: prod.split)

lemma assign_to_empty: "assign_subscription t fn empty_handle b = (new_handle (next_id b), snd (subscribe_erased t fn b))"
  by (simp add: assign_subscription_def destroy_handle_def new_handle_def subscribe_def move_assign_def subscribe_erased_def Let_def)

lemma next_id_subscribe: "next_id (snd (subscribe_erased t fn b)) = next_id b + 1"
  by (simp add: subscribe_erased_def Let_def)

text \<open>
  A subscription affects only what it should: after \<^verbatim>\<open>subscribe\<close>, an event of that type reaches the
  listeners that were there, in the same order, and then the new one; events of other types are dispatched as
  before; and resetting the handle that \<^verbatim>\<open>subscribe\<close> returned restores the dispatch of every type.
\<close>

theorem subscription_scoped:
  assumes "bus_wf b" and "next_id b \<noteq> 0" and sub: "subscribe t fn b = (h, b')"
  shows "dispatch_sync b' t ev s = fn ev (dispatch_sync b t ev s) \<and>
    (u \<noteq> t \<longrightarrow> dispatch_sync b' u ev s = dispatch_sync b u ev s) \<and>
    dispatch_sync (snd (reset_handle h b')) u ev s = dispatch_sync b u ev s"
proof -
  have keep: "filter (\<lambda>sl. slot_id sl \<noteq> next_id b) (bucket b v) = bucket b v" for v
  proof (intro filter_True ballI notI)
    fix sl assume "sl \<in> set (bucket b v)" and eq: "slot_id sl = next_id b"
    then have "slot_id sl \<in> slot_ids b" by (intro bucket_ids)
    then have "slot_id sl < next_id b" using assms(1) by (simp add: bus_wf_def)
    with eq show False by simp
  qed
  have h: "h = new_handle (next_id b)" and b': "b' = snd (subscribe_erased t fn b)"
    using sub by (auto simp: subscribe_def subscribe_erased_def Let_def)
  show ?thesis using assms(2)
    by (simp add: dispatch_bucket bucket_subscribe h b' reset_owner bucket_unsubscribe keep)
qed

theorem subscription_scoped_witness:
  "case subscribe 3 (+) (new_bus :: (nat, nat, nat) event_bus) of (h, b) \<Rightarrow>
     dispatch_sync b 3 4 10 = 14 \<and> dispatch_sync (snd (reset_handle h b)) 3 4 10 = 10"
proof -
  have "next_id (new_bus :: (nat, nat, nat) event_bus) \<noteq> 0" by (simp add: new_bus_def)
  from subscription_scoped [OF bus_wf_new this, of 3 "(+)" _ _ 4 10 3] show ?thesis
    by (auto simp: dispatch_new split: prod.splits)
qed

end
