(* ===== verification/Metrics.thy ===== *)
theory Metrics
  imports Messages
begin

text \<open>
  The counters of the board, \<^verbatim>\<open>src/databoard/metrics_snapshot.h\<close>, the voice catalogue,
  \<^verbatim>\<open>src/databoard/voice_catalog.h\<close>, and the admission decision taken from the counters,
  \<^verbatim>\<open>src/heartbeat/backpressure_controller.h\<close>. The counters are \<^verbatim>\<open>std::atomic<std::uint64_t>\<close> and so
  64-bit words: an update wraps around, in particular a decrement at zero. Each update is one atomic
  step. The index \<^verbatim>\<open>static_cast<std::size_t>(v.size() * 0.99)\<close> of the percentile is \<open>n * 99 div 100\<close>:
  the sample window holds at most 256 values, and for every such \<open>n\<close> the product rounded to double,
  truncated, is that quotient.
\<close>

section \<open>Counters\<close>

record metrics =
  inflight :: u64
  queued :: u64
  upstream_connected :: u64
  upstream_disconnected :: u64
  audio_bytes :: u64
  failed_requests :: u64
  pool_idle :: u64
  pool_active :: u64
  backpressure_level :: u64
  heartbeat_count :: u64
  bus_pending :: u64
  hb_samples :: "u64 list"

definition new_metrics :: metrics where
  "new_metrics = \<lparr>inflight = 0, queued = 0, upstream_connected = 0, upstream_disconnected = 0,
     audio_bytes = 0, failed_requests = 0, pool_idle = 0, pool_active = 0, backpressure_level = 0,
     heartbeat_count = 0, bus_pending = 0, hb_samples = []\<rparr>"

definition inc_inflight :: "metrics \<Rightarrow> metrics" where
  "inc_inflight m = m\<lparr>inflight := inflight m + 1\<rparr>"

definition dec_inflight :: "metrics \<Rightarrow> metrics" where
  "dec_inflight m = m\<lparr>inflight := inflight m - 1\<rparr>"

definition set_queued :: "u64 \<Rightarrow> metrics \<Rightarrow> metrics" where
  "set_queued v m = m\<lparr>queued := v\<rparr>"

definition inc_upstream_connected :: "metrics \<Rightarrow> metrics" where
  "inc_upstream_connected m = m\<lparr>upstream_connected := upstream_connected m + 1\<rparr>"

definition inc_upstream_disconnected :: "metrics \<Rightarrow> metrics" where
  "inc_upstream_disconnected m = m\<lparr>upstream_disconnected := upstream_disconnected m + 1\<rparr>"

definition add_audio_bytes :: "u64 \<Rightarrow> metrics \<Rightarrow> metrics" where
  "add_audio_bytes v m = m\<lparr>audio_bytes := audio_bytes m + v\<rparr>"

definition inc_failed_requests :: "metrics \<Rightarrow> metrics" where
  "inc_failed_requests m = m\<lparr>failed_requests := failed_requests m + 1\<rparr>"

definition set_pool_idle :: "u64 \<Rightarrow> metrics \<Rightarrow> metrics" where
  "set_pool_idle v m = m\<lparr>pool_idle := v\<rparr>"

definition set_pool_active :: "u64 \<Rightarrow> metrics \<Rightarrow> metrics" where
  "set_pool_active v m = m\<lparr>pool_active := v\<rparr>"

definition set_backpressure_level :: "u64 \<Rightarrow> metrics \<Rightarrow> metrics" where
  "set_backpressure_level v m = m\<lparr>backpressure_level := v\<rparr>"

definition inc_heartbeat :: "metrics \<Rightarrow> metrics" where
  "inc_heartbeat m = m\<lparr>heartbeat_count := heartbeat_count m + 1\<rparr>"

definition set_bus_pending :: "u64 \<Rightarrow> metrics \<Rightarrow> metrics" where
  "set_bus_pending v m = m\<lparr>bus_pending := v\<rparr>"

definition record_heartbeat_latency_us :: "u64 \<Rightarrow> metrics \<Rightarrow> metrics" where
  "record_heartbeat_latency_us us m =
     (let xs = hb_samples m @ [us] in m\<lparr>hb_samples := if length xs > 256 then tl xs else xs\<rparr>)"

definition heartbeat_p99_us :: "metrics \<Rightarrow> u64" where
  "heartbeat_p99_us m =
     (if hb_samples m = [] then 0
      else let v = sort (hb_samples m);
               idx = length v * 99 div 100;
               idx = (if idx \<ge> length v then length v - 1 else idx)
           in v ! idx)"

section \<open>Voice catalogue\<close>

record voice_info =
  vi_id :: string
  vi_display_name :: string
  vi_language :: string

record voice_catalog =
  voices :: "voice_info list"
  voice_index :: "string list"
  indexed :: bool

definition new_catalog :: voice_catalog where
  "new_catalog = \<lparr>voices = [], voice_index = [], indexed = False\<rparr>"

definition build_index :: "voice_catalog \<Rightarrow> voice_catalog" where
  "build_index c = c\<lparr>voice_index := fold (\<lambda>v ix. List.insert (vi_id v) ix) (voices c) [],
     indexed := True\<rparr>"

definition ensure_indexed :: "voice_catalog \<Rightarrow> voice_catalog" where
  "ensure_indexed c = (if \<not> indexed c then build_index c else c)"

definition set_voices :: "voice_info list \<Rightarrow> voice_catalog \<Rightarrow> voice_catalog" where
  "set_voices vs c = (let c' = c\<lparr>voices := vs, indexed := False\<rparr>
     in if \<not> indexed c' then build_index c' else c')"

definition catalog_empty :: "voice_catalog \<Rightarrow> bool" where
  "catalog_empty c \<longleftrightarrow> voices c = []"

definition catalog_size :: "voice_catalog \<Rightarrow> nat" where
  "catalog_size c = length (voices c)"

definition has_voice :: "string \<Rightarrow> voice_catalog \<Rightarrow> bool \<times> voice_catalog" where
  "has_voice i c = (let c' = ensure_indexed c in (i \<in> set (voice_index c'), c'))"

section \<open>Back-pressure\<close>

record backpressure =
  high_watermark :: u64
  low_watermark :: u64
  queue_high_watermark :: u64

record decision =
  admit :: bool
  level :: u64

definition new_backpressure :: backpressure where
  "new_backpressure = \<lparr>high_watermark = 1024, low_watermark = 512, queue_high_watermark = 2048\<rparr>"

definition set_high_watermark :: "u64 \<Rightarrow> backpressure \<Rightarrow> backpressure" where
  "set_high_watermark v b = b\<lparr>high_watermark := v\<rparr>"

definition set_low_watermark :: "u64 \<Rightarrow> backpressure \<Rightarrow> backpressure" where
  "set_low_watermark v b = b\<lparr>low_watermark := v\<rparr>"

definition set_queue_high_watermark :: "u64 \<Rightarrow> backpressure \<Rightarrow> backpressure" where
  "set_queue_high_watermark v b = b\<lparr>queue_high_watermark := v\<rparr>"

definition bp_evaluate :: "backpressure \<Rightarrow> metrics \<Rightarrow> decision \<times> metrics" where
  "bp_evaluate b m =
    (let infl = inflight m; q = queued m; lv = max infl q in
     if infl \<ge> high_watermark b \<or> q \<ge> queue_high_watermark b
     then (\<lparr>admit = False, level = lv\<rparr>, set_backpressure_level 2 m)
     else if infl \<ge> low_watermark b
     then (\<lparr>admit = True, level = lv\<rparr>, set_backpressure_level 1 m)
     else (\<lparr>admit = True, level = lv\<rparr>, set_backpressure_level 0 m))"

section \<open>Lemmas\<close>

lemmas metric_defs = inc_inflight_def dec_inflight_def set_queued_def inc_upstream_connected_def
  inc_upstream_disconnected_def add_audio_bytes_def inc_failed_requests_def set_pool_idle_def
  set_pool_active_def set_backpressure_level_def inc_heartbeat_def set_bus_pending_def

lemma bp_evaluate_admit:
  "admit (fst (bp_evaluate b m)) \<longleftrightarrow> inflight m < high_watermark b \<and> queued m < queue_high_watermark b"
  by (auto simp: bp_evaluate_def Let_def not_le)

lemma bp_evaluate_frame [frame_simps]:
  "inflight (snd (bp_evaluate b m)) = inflight m"
  "queued (snd (bp_evaluate b m)) = queued m"
  "failed_requests (snd (bp_evaluate b m)) = failed_requests m"
  "audio_bytes (snd (bp_evaluate b m)) = audio_bytes m"
  "heartbeat_count (snd (bp_evaluate b m)) = heartbeat_count m"
  "hb_samples (snd (bp_evaluate b m)) = hb_samples m"
  by (simp_all add: bp_evaluate_def Let_def set_backpressure_level_def)

lemma record_latency_window:
  assumes "length (hb_samples m) \<le> 256"
  shows "hb_samples (fold record_heartbeat_latency_us us m) =
    drop (length (hb_samples m @ us) - 256) (hb_samples m @ us)"
  using assms
proof (induction us arbitrary: m)
  case Nil
  then show ?case by simp
next
  case (Cons u us)
  let ?m = "record_heartbeat_latency_us u m"
  have len: "length (hb_samples ?m) \<le> 256"
    using Cons.prems by (auto simp: record_heartbeat_latency_us_def Let_def)
  show ?case
  proof (cases "length (hb_samples m) < 256")
    case True
    then have "hb_samples ?m = hb_samples m @ [u]"
      by (simp add: record_heartbeat_latency_us_def Let_def)
    then show ?thesis using Cons.IH [OF len] by simp
  next
    case False
    with Cons.prems have 256: "length (hb_samples m) = 256" by simp
    then have "hb_samples ?m = tl (hb_samples m) @ [u]"
      by (cases "hb_samples m") (auto simp: record_heartbeat_latency_us_def Let_def)
    then show ?thesis
      using Cons.IH [OF len] 256 by (cases "hb_samples m") simp_all
  qed
qed

lemma sorted_rank_below:
  assumes "sorted v" and "k < length v"
  shows "Suc k \<le> length (filter (\<lambda>x. x \<le> v ! k) v)"
proof -
  have "filter (\<lambda>x. x \<le> v ! k) (take (Suc k) v) = take (Suc k) v"
    using assms by (auto simp: filter_id_conv in_set_conv_nth sorted_nth_mono)
  then have "length (filter (\<lambda>x. x \<le> v ! k) (take (Suc k) v @ drop (Suc k) v)) \<ge> Suc k"
    using assms(2) by (simp only: filter_append length_append) simp
  then show ?thesis by simp
qed

lemma sorted_rank_above:
  assumes "sorted v" and "k < length v"
  shows "length (filter (\<lambda>x. x < v ! k) v) \<le> k"
proof -
  have "filter (\<lambda>x. x < v ! k) (drop k v) = []"
    using assms by (auto simp: filter_empty_conv in_set_conv_nth not_less sorted_nth_mono)
  then have "filter (\<lambda>x. x < v ! k) v = filter (\<lambda>x. x < v ! k) (take k v)"
    by (metis append.right_neutral append_take_drop_id filter_append)
  also have "length \<dots> \<le> length (take k v)" by (rule length_filter_le)
  finally show ?thesis using assms(2) by simp
qed

lemma filter_sort_length: "length (filter P (sort xs)) = length (filter P xs)"
  by (simp add: filter_sort)

lemma fold_insert_set: "set (fold (\<lambda>v ix. List.insert (vi_id v) ix) vs ix) = set ix \<union> vi_id ` set vs"
  by (induction vs arbitrary: ix) auto

section \<open>Properties\<close>

text \<open>
  The latency percentile is a genuine one: it is one of the recorded samples, more than 99 per
  cent of the samples are at most it and at most 99 per cent are below it; and the samples it is
  taken from are exactly the last 256 recorded.
\<close>

theorem latency_percentile:
  assumes "hb_samples m \<noteq> []"
  shows "heartbeat_p99_us m \<in> set (hb_samples m) \<and>
    99 * length (hb_samples m) < 100 * length (filter (\<lambda>x. x \<le> heartbeat_p99_us m) (hb_samples m)) \<and>
    100 * length (filter (\<lambda>x. x < heartbeat_p99_us m) (hb_samples m)) \<le> 99 * length (hb_samples m) \<and>
    hb_samples (fold record_heartbeat_latency_us us new_metrics) = drop (length us - 256) us"
proof -
  let ?n = "length (hb_samples m)" and ?v = "sort (hb_samples m)"
  let ?k = "?n * 99 div 100"
  have k: "?k < ?n" using assms by (simp add: less_mult_imp_div_less)
  then have p: "heartbeat_p99_us m = ?v ! ?k"
    using assms by (simp add: heartbeat_p99_us_def Let_def)
  have le: "Suc ?k \<le> length (filter (\<lambda>x. x \<le> heartbeat_p99_us m) (hb_samples m))"
    using sorted_rank_below [of ?v ?k] k by (simp add: p filter_sort_length)
  have lt: "length (filter (\<lambda>x. x < heartbeat_p99_us m) (hb_samples m)) \<le> ?k"
    using sorted_rank_above [of ?v ?k] k by (simp add: p filter_sort_length)
  have "heartbeat_p99_us m \<in> set (hb_samples m)"
    using nth_mem [of ?k ?v] k by (simp add: p)
  moreover have "hb_samples (fold record_heartbeat_latency_us us new_metrics) = drop (length us - 256) us"
    using record_latency_window [of new_metrics us] by (simp add: new_metrics_def)
  moreover have "99 * ?n < 100 * Suc ?k" "100 * ?k \<le> 99 * ?n" by simp_all
  ultimately show ?thesis using le lt by linarith
qed

theorem latency_percentile_witness:
  "heartbeat_p99_us (new_metrics\<lparr>hb_samples := [5, 9, 7]\<rparr>) = 9 \<and>
   heartbeat_p99_us (new_metrics\<lparr>hb_samples := [5, 9, 7]\<rparr>) \<in> set [5, 9, 7]"
  using latency_percentile [of "new_metrics\<lparr>hb_samples := [5, 9, 7]\<rparr>"]
  by (simp add: heartbeat_p99_us_def Let_def)

text \<open>
  The catalogue's lookup agrees with the loaded voices: after \<open>set_voices vs\<close> an id is found if and
  only if some voice of \<open>vs\<close> has it, whatever was loaded before and however often it is asked.
\<close>

theorem voice_lookup_agrees:
  "fst (has_voice i (snd (has_voice j (set_voices vs c)))) \<longleftrightarrow> (\<exists>v \<in> set vs. vi_id v = i)"
  by (auto simp: has_voice_def ensure_indexed_def set_voices_def build_index_def Let_def
      fold_insert_set)

text \<open>The watermarks decide alone: a controller whose watermarks are raised above the counters admits, one whose high watermark is 0 does not.\<close>

lemma watermarks_decide:
  "inflight m < h \<Longrightarrow> queued m < q \<Longrightarrow> admit (fst (bp_evaluate (set_queue_high_watermark q (set_high_watermark h b)) m))"
  "\<not> admit (fst (bp_evaluate (set_high_watermark 0 b) m))"
  "level (fst (bp_evaluate (set_low_watermark l b) m)) = max (inflight m) (queued m)"
  by (simp_all add: bp_evaluate_def set_high_watermark_def set_queue_high_watermark_def set_low_watermark_def Let_def not_le)

lemma catalog_size_set: "catalog_size (set_voices vs c) = length vs" "catalog_empty (set_voices vs c) \<longleftrightarrow> vs = []"
  by (simp_all add: catalog_size_def catalog_empty_def set_voices_def build_index_def Let_def)

end
