(* ===== verification/Observability.thy ===== *)
theory Observability
  imports Event_Bus Metrics
begin

text \<open>
  The events of the program and their three subscribers: \<^verbatim>\<open>src/observability/metrics_collector.h\<close>,
  \<^verbatim>\<open>src/observability/event_logger.h\<close> and \<^verbatim>\<open>src/observability/admission_gate.h\<close>, wired in the order of
  \<^verbatim>\<open>src/main.cpp\<close>. The listeners act on the metrics of the board, on the flag of the gate and on the log; a
  log line is kept as the event it prints.
\<close>

section \<open>Events\<close>

datatype bus_event =
    UpstreamConnectedEvent string
  | UpstreamDisconnectedEvent string int string
  | WsFrameSendFailedEvent string string
  | HeartbeatTickEvent u64 u64 u64

datatype event_type = T_UpstreamConnected | T_UpstreamDisconnected | T_WsFrameSendFailed | T_HeartbeatTick

fun event_type_of :: "bus_event \<Rightarrow> event_type" where
  "event_type_of (UpstreamConnectedEvent _) = T_UpstreamConnected"
| "event_type_of (UpstreamDisconnectedEvent _ _ _) = T_UpstreamDisconnected"
| "event_type_of (WsFrameSendFailedEvent _ _) = T_WsFrameSendFailed"
| "event_type_of (HeartbeatTickEvent _ _ _) = T_HeartbeatTick"

record observed =
  ob_metrics :: metrics
  ob_open :: bool
  ob_log :: "bus_event list"

type_synonym tts_bus = "(event_type, bus_event, observed) event_bus"

definition publish_sync :: "bus_event \<Rightarrow> tts_bus \<Rightarrow> observed \<Rightarrow> observed" where
  "publish_sync e b s = dispatch_sync b (event_type_of e) e s"

definition publish_async :: "bus_event \<Rightarrow> tts_bus \<Rightarrow> tts_bus" where
  "publish_async e b = enqueue_async (event_type_of e) e b"

section \<open>Subscribers\<close>

text \<open>The listeners of the collector and of the logger.\<close>

abbreviation (input) collect_connected :: "bus_event \<Rightarrow> observed \<Rightarrow> observed" where
  "collect_connected \<equiv> \<lambda>_ s. s\<lparr>ob_metrics := inc_upstream_connected (ob_metrics s)\<rparr>"

abbreviation (input) collect_disconnected :: "bus_event \<Rightarrow> observed \<Rightarrow> observed" where
  "collect_disconnected \<equiv> \<lambda>_ s. s\<lparr>ob_metrics := inc_upstream_disconnected (ob_metrics s)\<rparr>"

abbreviation (input) collect_send_failed :: "bus_event \<Rightarrow> observed \<Rightarrow> observed" where
  "collect_send_failed \<equiv> \<lambda>_ s. s\<lparr>ob_metrics := inc_failed_requests (ob_metrics s)\<rparr>"

abbreviation (input) log_event :: "bus_event \<Rightarrow> observed \<Rightarrow> observed" where
  "log_event \<equiv> \<lambda>e s. s\<lparr>ob_log := ob_log s @ [e]\<rparr>"

definition metrics_collector_wire :: "tts_bus \<Rightarrow> tts_bus" where
  "metrics_collector_wire b =
     (let b = snd (subscribe_erased T_UpstreamConnected collect_connected b);
          b = snd (subscribe_erased T_UpstreamDisconnected collect_disconnected b)
      in snd (subscribe_erased T_WsFrameSendFailed collect_send_failed b))"

definition event_logger_wire :: "tts_bus \<Rightarrow> tts_bus" where
  "event_logger_wire b =
     (let b = snd (subscribe_erased T_UpstreamConnected log_event b);
          b = snd (subscribe_erased T_UpstreamDisconnected log_event b)
      in snd (subscribe_erased T_WsFrameSendFailed log_event b))"

fun gate_on_tick :: "bus_event \<Rightarrow> observed \<Rightarrow> observed" where
  "gate_on_tick (HeartbeatTickEvent duration_us batch_size changeset_size) s =
     (if changeset_size > 512 then
        s\<lparr>ob_open := False, ob_metrics := set_backpressure_level 2 (ob_metrics s)\<rparr>
      else if changeset_size < 64 then s\<lparr>ob_open := True\<rparr>
      else s)"
| "gate_on_tick _ s = s"

definition admission_gate_wire :: "tts_bus \<Rightarrow> tts_bus" where
  "admission_gate_wire b = snd (subscribe_erased T_HeartbeatTick gate_on_tick b)"

definition gate_admit :: "observed \<Rightarrow> bool" where
  "gate_admit s = ob_open s"

definition observability_bus :: tts_bus where
  "observability_bus = admission_gate_wire (event_logger_wire (metrics_collector_wire new_bus))"

section \<open>Dispatch on the wired bus\<close>

text \<open>The bus of the running server: its listeners are the three subscribers, its inbox is arbitrary.\<close>

definition wired :: "tts_bus \<Rightarrow> bool" where
  "wired b \<longleftrightarrow> registry b = registry observability_bus"

lemmas wire_defs = metrics_collector_wire_def event_logger_wire_def admission_gate_wire_def Let_def

lemma wired_bucket: "wired b \<Longrightarrow> bucket b t = bucket observability_bus t"
  by (simp add: wired_def bucket_def)

lemma bucket_new: "bucket new_bus t = []"
  by (simp add: bucket_def new_bus_def)

lemma publish_sync_effect:
  assumes "wired b"
  shows "publish_sync (UpstreamConnectedEvent i) b s =
      s\<lparr>ob_metrics := inc_upstream_connected (ob_metrics s), ob_log := ob_log s @ [UpstreamConnectedEvent i]\<rparr>"
    and "publish_sync (UpstreamDisconnectedEvent i c r) b s =
      s\<lparr>ob_metrics := inc_upstream_disconnected (ob_metrics s), ob_log := ob_log s @ [UpstreamDisconnectedEvent i c r]\<rparr>"
    and "publish_sync (WsFrameSendFailedEvent i m) b s =
      s\<lparr>ob_metrics := inc_failed_requests (ob_metrics s), ob_log := ob_log s @ [WsFrameSendFailedEvent i m]\<rparr>"
    and "publish_sync (HeartbeatTickEvent d n k) b s = gate_on_tick (HeartbeatTickEvent d n k) s"
  unfolding publish_sync_def dispatch_bucket wired_bucket [OF assms]
  by (simp_all add: observability_bus_def wire_defs bucket_subscribe bucket_new)

lemma wired_publish_async: "wired b \<Longrightarrow> wired (publish_async e b)"
  by (simp add: wired_def publish_async_def enqueue_async_def)

lemma inbox_publish_async: "inbox (publish_async e b) = inbox b @ [(event_type_of e, e)]"
  by (simp add: publish_async_def enqueue_async_def)

lemma wired_observability_bus: "wired observability_bus"
  by (simp add: wired_def)

definition publish_all :: "tts_bus \<Rightarrow> bus_event list \<Rightarrow> observed \<Rightarrow> observed" where
  "publish_all b es s = fold (\<lambda>e. publish_sync e b) es s"

lemma publish_all_simps [simp]:
  "publish_all b [] s = s"
  "publish_all b (e # es) s = publish_all b es (publish_sync e b s)"
  by (simp_all add: publish_all_def)

lemma publish_all_append: "publish_all b (es @ [e]) s = publish_sync e b (publish_all b es s)"
  by (simp add: publish_all_def)

fun changeset_size :: "bus_event \<Rightarrow> u64 option" where
  "changeset_size (HeartbeatTickEvent _ _ n) = Some n"
| "changeset_size _ = None"

text \<open>The sizes that move the gate, in order.\<close>

definition decisive :: "bus_event list \<Rightarrow> u64 list" where
  "decisive es = filter (\<lambda>n. n > 512 \<or> n < 64) (List.map_filter changeset_size es)"

lemma decisive_snoc:
  "decisive (es @ [e]) = decisive es @ (case changeset_size e of None \<Rightarrow> [] | Some n \<Rightarrow> if n > 512 \<or> n < 64 then [n] else [])"
  by (simp add: decisive_def List.map_filter_def split: option.splits)

lemma gate_publish_all:
  assumes "wired b"
  shows "ob_open (publish_all b es s) = (if decisive es = [] then ob_open s else last (decisive es) < 64)"
proof (induction es rule: rev_induct)
  case (snoc e es)
  show ?case
  proof (cases e)
    case (HeartbeatTickEvent d n k)
    have "k < 64 \<Longrightarrow> \<not> k > 512" by (simp add: word_less_nat_alt)
    with HeartbeatTickEvent snoc show ?thesis
      by (auto simp: publish_all_append publish_sync_effect [OF assms] decisive_snoc)
  qed (use snoc in \<open>simp_all add: publish_all_append publish_sync_effect [OF assms] decisive_snoc\<close>)
qed (simp add: decisive_def)

lemma counters_publish_all:
  assumes "wired b"
  shows "upstream_connected (ob_metrics (publish_all b es s)) = upstream_connected (ob_metrics s) +
      of_nat (length (filter (\<lambda>e. event_type_of e = T_UpstreamConnected) es))"
    and "upstream_disconnected (ob_metrics (publish_all b es s)) = upstream_disconnected (ob_metrics s) +
      of_nat (length (filter (\<lambda>e. event_type_of e = T_UpstreamDisconnected) es))"
    and "failed_requests (ob_metrics (publish_all b es s)) = failed_requests (ob_metrics s) +
      of_nat (length (filter (\<lambda>e. event_type_of e = T_WsFrameSendFailed) es))"
    and "ob_log (publish_all b es s) = ob_log s @ filter (\<lambda>e. event_type_of e \<noteq> T_HeartbeatTick) es"
proof (induction es arbitrary: s)
  case (Cons e es)
  note ih = Cons
  { case 1 show ?case
      by (cases e) (simp_all add: ih(1) publish_sync_effect [OF assms] metric_defs) }
  { case 2 show ?case
      by (cases e) (simp_all add: ih(2) publish_sync_effect [OF assms] metric_defs) }
  { case 3 show ?case
      by (cases e) (simp_all add: ih(3) publish_sync_effect [OF assms] metric_defs) }
  { case 4 show ?case
      by (cases e) (simp_all add: ih(4) publish_sync_effect [OF assms]) }
qed simp_all

section \<open>Properties\<close>

text \<open>
  The admission gate has hysteresis: on the wired bus, after any sequence of events the gate is open
  exactly if the last heartbeat tick whose change set had more than 512 or fewer than 64 entries had fewer than 64;
  ticks in between, and all other events, leave it as it was.
\<close>

theorem admission_gate_hysteresis:
  assumes "wired b"
  shows "gate_admit (publish_all b es s) = (if decisive es = [] then gate_admit s else last (decisive es) < 64)"
  unfolding gate_admit_def by (rule gate_publish_all [OF assms])

theorem admission_gate_hysteresis_witness:
  "wired observability_bus \<and>
   gate_admit (publish_all observability_bus [HeartbeatTickEvent 1 1 600, HeartbeatTickEvent 1 1 100]
     \<lparr>ob_metrics = new_metrics, ob_open = True, ob_log = []\<rparr>) = False"
proof -
  let ?es = "[HeartbeatTickEvent 1 1 600, HeartbeatTickEvent 1 1 100]"
  have "decisive ?es = [600]" by (simp add: decisive_def List.map_filter_def)
  with admission_gate_hysteresis [OF wired_observability_bus, of ?es] show ?thesis
    by (simp add: wired_observability_bus del: publish_all_simps)
qed

text \<open>
  The metrics collector and the logger see every event once: after any sequence of events on the wired bus the
  three counters have grown by the number of events of their type (modulo the 64-bit width), and the log
  has gained exactly the non-tick events in order.
\<close>

theorem collector_counts_events:
  assumes "wired b"
  shows "let s' = publish_all b es s; cnt = (\<lambda>t. of_nat (length (filter (\<lambda>e. event_type_of e = t) es))) in
     upstream_connected (ob_metrics s') = upstream_connected (ob_metrics s) + cnt T_UpstreamConnected \<and>
     upstream_disconnected (ob_metrics s') = upstream_disconnected (ob_metrics s) + cnt T_UpstreamDisconnected \<and>
     failed_requests (ob_metrics s') = failed_requests (ob_metrics s) + cnt T_WsFrameSendFailed \<and>
     ob_log s' = ob_log s @ filter (\<lambda>e. event_type_of e \<noteq> T_HeartbeatTick) es"
  by (simp add: Let_def counters_publish_all [OF assms])

theorem collector_counts_events_witness:
  "wired observability_bus \<and>
   failed_requests (ob_metrics (publish_all observability_bus
     [WsFrameSendFailedEvent ''r1'' ''no_session_available'', HeartbeatTickEvent 1 1 0]
     \<lparr>ob_metrics = new_metrics, ob_open = True, ob_log = []\<rparr>)) = 1"
  using collector_counts_events [OF wired_observability_bus,
      of "[WsFrameSendFailedEvent ''r1'' ''no_session_available'', HeartbeatTickEvent 1 1 0]"
         "\<lparr>ob_metrics = new_metrics, ob_open = True, ob_log = []\<rparr>"]
  by (simp add: wired_observability_bus Let_def) (simp add: new_metrics_def)

end
