(* ===== verification/Ws_Codec.thy ===== *)
theory Ws_Codec
  imports Messages "HOL-Library.List_Lexorder" "HOL-Library.Char_ord"
begin

text \<open>
  The frames exchanged with the upstream service: \<^verbatim>\<open>src/upstream/ws_frame_codec.cpp\<close> (building the
  outgoing frames, reading the incoming ones) and \<^verbatim>\<open>src/upstream/minimax_protocol_adapter.h\<close> (turning a
  decoded frame into the messages of the heartbeat).

  The text of a JSON value is the business of nlohmann::json, a third-party library: its \<^verbatim>\<open>dump\<close> and
  \<^verbatim>\<open>parse\<close> are the parameters \<open>dump\<close> and \<open>parse\<close> of the definitions (\<open>parse\<close> gives \<open>None\<close> where the
  library throws). What the code does with the values in between is modelled on the type \<open>json\<close>. Members of
  an object are kept sorted by key, as the \<^verbatim>\<open>std::map\<close> of the library keeps them. A float member keeps the
  bits of the float it was assigned from (the library stores it widened to double, which loses nothing);
  floating-point members of incoming frames are never read.
\<close>

section \<open>JSON values\<close>

datatype json = JNull | JBool bool | JInt int | JFloat f32 | JStr string | JArr "json list"
  | JObj "(string \<times> json) list"

text \<open>\<^verbatim>\<open>j[k] = v\<close> on an object, \<^verbatim>\<open>j.contains(k)\<close> with \<^verbatim>\<open>j[k]\<close>, and the four typed reads the code makes.\<close>

fun obj_set :: "string \<Rightarrow> json \<Rightarrow> (string \<times> json) list \<Rightarrow> (string \<times> json) list" where
  "obj_set k v [] = [(k, v)]"
| "obj_set k v ((k', v') # ms) =
     (if k = k' then (k, v) # ms else if k < k' then (k, v) # (k', v') # ms else (k', v') # obj_set k v ms)"

fun json_get :: "json \<Rightarrow> string \<Rightarrow> json option" where
  "json_get (JObj ms) k = map_of ms k"
| "json_get _ k = None"

definition str_member :: "json \<Rightarrow> string \<Rightarrow> string option" where
  "str_member j k = (case json_get j k of Some (JStr s) \<Rightarrow> Some s | _ \<Rightarrow> None)"

definition bool_member :: "json \<Rightarrow> string \<Rightarrow> bool option" where
  "bool_member j k = (case json_get j k of Some (JBool b) \<Rightarrow> Some b | _ \<Rightarrow> None)"

text \<open>\<^verbatim>\<open>get<int>\<close> converts the library's 64-bit integer to a 32-bit \<^verbatim>\<open>int\<close>.\<close>

definition int_member :: "json \<Rightarrow> string \<Rightarrow> int option" where
  "int_member j k = (case json_get j k of Some (JInt i) \<Rightarrow> Some (signed_take_bit 31 i) | _ \<Rightarrow> None)"

definition obj_member :: "json \<Rightarrow> string \<Rightarrow> json option" where
  "obj_member j k = (case json_get j k of Some (JObj ms) \<Rightarrow> Some (JObj ms) | _ \<Rightarrow> None)"

section \<open>Outgoing frames\<close>

definition voice_setting_json :: "voice_settings \<Rightarrow> json" where
  "voice_setting_json v =
     (let vs = obj_set ''voice_id'' (JStr (vs_voice_id v)) [];
          vs = obj_set ''speed'' (JFloat (vs_speed v)) vs;
          vs = obj_set ''vol'' (JFloat (vs_vol v)) vs;
          vs = obj_set ''pitch'' (JInt (vs_pitch v)) vs;
          vs = (case vs_emotion v of None \<Rightarrow> vs | Some e \<Rightarrow> obj_set ''emotion'' (JStr e) vs);
          vs = obj_set ''english_normalization'' (JBool (vs_english_normalization v)) vs
      in JObj vs)"

definition audio_setting_json :: "audio_settings \<Rightarrow> json" where
  "audio_setting_json a =
     (let as = obj_set ''sample_rate'' (JInt (as_sample_rate a)) [];
          as = obj_set ''bitrate'' (JInt (as_bitrate a)) as;
          as = obj_set ''format'' (JStr (format_to_string (as_format a))) as;
          as = obj_set ''channel'' (JInt (as_channel a)) as
      in JObj as)"

definition task_start_json :: "string \<Rightarrow> voice_settings \<Rightarrow> audio_settings \<Rightarrow> json" where
  "task_start_json m v a =
     (let j = obj_set ''event'' (JStr ''task_start'') [];
          j = obj_set ''model'' (JStr m) j;
          j = obj_set ''voice_setting'' (voice_setting_json v) j;
          j = obj_set ''audio_setting'' (audio_setting_json a) j
      in JObj j)"

definition encode_task_start :: "(json \<Rightarrow> string) \<Rightarrow> string \<Rightarrow> voice_settings \<Rightarrow> audio_settings \<Rightarrow> string" where
  "encode_task_start dump m v a = dump (task_start_json m v a)"

definition encode_task_continue :: "(json \<Rightarrow> string) \<Rightarrow> string \<Rightarrow> string" where
  "encode_task_continue dump txt =
     dump (JObj (obj_set ''text'' (JStr txt) (obj_set ''event'' (JStr ''task_continue'') [])))"

definition encode_task_finish :: "(json \<Rightarrow> string) \<Rightarrow> string" where
  "encode_task_finish dump = dump (JObj (obj_set ''event'' (JStr ''task_finish'') []))"

definition default_voice_id :: string where
  "default_voice_id = ''male-qn-qingse''"

section \<open>Incoming frames\<close>

record parsed_server_frame =
  pf_event :: string
  pf_session_id :: "string option"
  pf_trace_id :: "string option"
  pf_audio_hex :: "string option"
  pf_is_final :: "bool option"
  pf_sample_rate :: "int option"
  pf_channels :: "int option"
  pf_usage_characters :: "int option"
  pf_status_code :: int
  pf_status_msg :: string

definition empty_frame :: parsed_server_frame where
  "empty_frame = \<lparr>pf_event = [], pf_session_id = None, pf_trace_id = None, pf_audio_hex = None,
     pf_is_final = None, pf_sample_rate = None, pf_channels = None, pf_usage_characters = None,
     pf_status_code = 0, pf_status_msg = []\<rparr>"

definition read_data :: "json \<Rightarrow> parsed_server_frame \<Rightarrow> parsed_server_frame" where
  "read_data j p = (case obj_member j ''data'' of
     None \<Rightarrow> p
   | Some d \<Rightarrow> p\<lparr>pf_audio_hex := str_member d ''audio''\<rparr>)"

definition read_extra_info :: "json \<Rightarrow> parsed_server_frame \<Rightarrow> parsed_server_frame" where
  "read_extra_info j p = (case obj_member j ''extra_info'' of
     None \<Rightarrow> p
   | Some e \<Rightarrow> p\<lparr>pf_sample_rate := int_member e ''audio_sample_rate'',
                pf_channels := int_member e ''audio_channel'',
                pf_usage_characters := int_member e ''usage_characters''\<rparr>)"

definition read_base_resp :: "json \<Rightarrow> parsed_server_frame \<Rightarrow> parsed_server_frame" where
  "read_base_resp j p = (case obj_member j ''base_resp'' of
     None \<Rightarrow> p
   | Some b \<Rightarrow> p\<lparr>pf_status_code := (case int_member b ''status_code'' of None \<Rightarrow> 0 | Some c \<Rightarrow> c),
                pf_status_msg := (case str_member b ''status_msg'' of None \<Rightarrow> [] | Some m \<Rightarrow> m)\<rparr>)"

definition parse_server_frame :: "(string \<Rightarrow> json option) \<Rightarrow> string \<Rightarrow> parsed_server_frame option" where
  "parse_server_frame parse raw =
     (case parse raw of
        None \<Rightarrow> None
      | Some j \<Rightarrow>
          (let p = empty_frame\<lparr>pf_event := (case str_member j ''event'' of None \<Rightarrow> [] | Some e \<Rightarrow> e),
                     pf_session_id := str_member j ''session_id'',
                     pf_trace_id := str_member j ''trace_id'',
                     pf_is_final := bool_member j ''is_final''\<rparr>
           in Some (read_base_resp j (read_extra_info j (read_data j p)))))"

section \<open>Protocol adapter\<close>

record ws_frame_decoded_event =
  de_session_id :: string
  de_request_id :: string
  de_event_name :: string
  de_audio_hex :: string
  de_is_final :: bool
  de_sample_rate :: int
  de_channels :: int
  de_usage_characters :: int
  de_status_code :: int
  de_status_msg :: string
  de_trace_id :: string

definition translate :: "ws_frame_decoded_event \<Rightarrow> tts_response_msg list" where
  "translate e =
     (if de_event_name e = ''connected_success'' then
        [default_response\<lparr>rs_session_id := de_session_id e, rs_request_id := [], rs_kind := WsConnected\<rparr>]
      else if de_event_name e = ''task_started'' then
        [default_response\<lparr>rs_session_id := de_session_id e, rs_kind := WsTaskStarted\<rparr>]
      else if de_event_name e = ''task_continued'' then
        [default_response\<lparr>rs_session_id := de_session_id e, rs_kind := WsAudioChunk,
           rs_audio_hex := de_audio_hex e, rs_is_final := de_is_final e, rs_sample_rate := de_sample_rate e,
           rs_channels := de_channels e, rs_usage_characters := de_usage_characters e,
           rs_status_code := de_status_code e, rs_status_msg := de_status_msg e, rs_trace_id := de_trace_id e\<rparr>]
      else if de_event_name e = ''task_finished'' then
        [default_response\<lparr>rs_session_id := de_session_id e, rs_kind := WsTaskFinished,
           rs_status_code := de_status_code e, rs_status_msg := de_status_msg e\<rparr>]
      else if de_event_name e = ''task_failed'' then
        [default_response\<lparr>rs_session_id := de_session_id e, rs_kind := WsTaskFailed,
           rs_status_code := de_status_code e, rs_status_msg := de_status_msg e\<rparr>]
      else [])"

section \<open>Members\<close>

lemma obj_set_get: "map_of (obj_set k v ms) k' = (if k' = k then Some v else map_of ms k')"
  by (induction k v ms rule: obj_set.induct) auto

declare obj_set.simps [simp del]

lemmas member_defs = str_member_def bool_member_def int_member_def obj_member_def obj_set_get

definition opt_set :: "string \<Rightarrow> json option \<Rightarrow> (string \<times> json) list \<Rightarrow> (string \<times> json) list" where
  "opt_set k v ms = (case v of None \<Rightarrow> ms | Some x \<Rightarrow> obj_set k x ms)"

lemma opt_set_get: "map_of (opt_set k v ms) k' = (if k' = k \<and> v \<noteq> None then v else map_of ms k')"
  by (auto simp: opt_set_def obj_set_get split: option.splits)

text \<open>
  The frame the service sends for a parsed frame, in the layout of its documentation: optional members are
  left out when they are not set.
\<close>

definition server_frame_json :: "parsed_server_frame \<Rightarrow> json" where
  "server_frame_json p =
     (let d = opt_set ''audio'' (map_option JStr (pf_audio_hex p)) [];
          e = opt_set ''audio_sample_rate'' (map_option JInt (pf_sample_rate p))
                (opt_set ''audio_channel'' (map_option JInt (pf_channels p))
                  (opt_set ''usage_characters'' (map_option JInt (pf_usage_characters p)) []));
          b = obj_set ''status_code'' (JInt (pf_status_code p)) (obj_set ''status_msg'' (JStr (pf_status_msg p)) [])
      in JObj (obj_set ''event'' (JStr (pf_event p))
           (opt_set ''session_id'' (map_option JStr (pf_session_id p))
             (opt_set ''trace_id'' (map_option JStr (pf_trace_id p))
               (opt_set ''is_final'' (map_option JBool (pf_is_final p))
                 (obj_set ''data'' (JObj d) (obj_set ''extra_info'' (JObj e) (obj_set ''base_resp'' (JObj b) []))))))))"

definition int32 :: "int \<Rightarrow> bool" where
  "int32 i \<longleftrightarrow> - (2 ^ 31) \<le> i \<and> i < 2 ^ 31"

definition frame_in_range :: "parsed_server_frame \<Rightarrow> bool" where
  "frame_in_range p \<longleftrightarrow> int32 (pf_status_code p) \<and> pred_option int32 (pf_sample_rate p) \<and>
     pred_option int32 (pf_channels p) \<and> pred_option int32 (pf_usage_characters p)"

lemma int32_get: "int32 i \<Longrightarrow> signed_take_bit 31 i = i"
  by (simp add: int32_def signed_take_bit_int_eq_self)

lemma read_data_frame: "read_data (server_frame_json p) q = q\<lparr>pf_audio_hex := pf_audio_hex p\<rparr>"
proof -
  have "obj_member (server_frame_json p) ''data'' = Some (JObj (opt_set ''audio'' (map_option JStr (pf_audio_hex p)) []))"
    by (simp add: server_frame_json_def Let_def member_defs opt_set_get)
  then show ?thesis by (cases "pf_audio_hex p") (simp_all add: read_data_def str_member_def opt_set_get)
qed

lemma read_extra_info_frame:
  assumes "frame_in_range p"
  shows "read_extra_info (server_frame_json p) q =
    q\<lparr>pf_sample_rate := pf_sample_rate p, pf_channels := pf_channels p, pf_usage_characters := pf_usage_characters p\<rparr>"
proof -
  let ?e = "opt_set ''audio_sample_rate'' (map_option JInt (pf_sample_rate p))
      (opt_set ''audio_channel'' (map_option JInt (pf_channels p))
        (opt_set ''usage_characters'' (map_option JInt (pf_usage_characters p)) []))"
  have "obj_member (server_frame_json p) ''extra_info'' = Some (JObj ?e)"
    by (simp add: server_frame_json_def Let_def member_defs opt_set_get)
  then show ?thesis using assms
    by (cases "pf_sample_rate p"; cases "pf_channels p"; cases "pf_usage_characters p")
      (simp_all add: read_extra_info_def int_member_def opt_set_get int32_get frame_in_range_def)
qed

lemma read_base_resp_frame:
  assumes "frame_in_range p"
  shows "read_base_resp (server_frame_json p) q =
    q\<lparr>pf_status_code := pf_status_code p, pf_status_msg := pf_status_msg p\<rparr>"
proof -
  let ?b = "obj_set ''status_code'' (JInt (pf_status_code p)) (obj_set ''status_msg'' (JStr (pf_status_msg p)) [])"
  have "obj_member (server_frame_json p) ''base_resp'' = Some (JObj ?b)"
    by (simp add: server_frame_json_def Let_def member_defs opt_set_get)
  then show ?thesis using assms
    by (simp add: read_base_resp_def int_member_def str_member_def obj_set_get int32_get frame_in_range_def)
qed

section \<open>Properties\<close>

text \<open>
  C35. Server frames round-trip: when the text of a frame parses to the documented layout of a frame \<open>p\<close> whose
  numbers fit an \<^verbatim>\<open>int\<close>, the codec returns exactly \<open>p\<close>, for every combination of optional members; and a
  text that does not parse is reported, not guessed at.
\<close>

theorem server_frame_roundtrip:
  assumes "parse raw = Some (server_frame_json p)" and "frame_in_range p" and "parse bad = None"
  shows "parse_server_frame parse raw = Some p \<and> parse_server_frame parse bad = None"
proof -
  let ?j = "server_frame_json p"
  have e: "str_member ?j ''event'' = Some (pf_event p)"
    by (simp add: server_frame_json_def Let_def member_defs)
  have s: "str_member ?j ''session_id'' = pf_session_id p"
    by (cases "pf_session_id p") (simp_all add: server_frame_json_def Let_def member_defs opt_set_get)
  have t: "str_member ?j ''trace_id'' = pf_trace_id p"
    by (cases "pf_trace_id p") (simp_all add: server_frame_json_def Let_def member_defs opt_set_get)
  have f: "bool_member ?j ''is_final'' = pf_is_final p"
    by (cases "pf_is_final p") (simp_all add: server_frame_json_def Let_def member_defs opt_set_get)
  show ?thesis using assms
    by (simp add: parse_server_frame_def e s t f read_data_frame read_extra_info_frame read_base_resp_frame
        empty_frame_def)
qed

definition example_frame :: parsed_server_frame where
  "example_frame = empty_frame\<lparr>pf_event := ''task_continued'', pf_session_id := Some ''s1'',
     pf_audio_hex := Some ''00ff'', pf_is_final := Some True, pf_sample_rate := Some 16000\<rparr>"

theorem server_frame_roundtrip_witness:
  "let parse = (\<lambda>raw. if raw = ''frame'' then Some (server_frame_json example_frame) else None) in
   frame_in_range example_frame \<and> parse_server_frame parse ''frame'' = Some example_frame \<and>
   parse_server_frame parse ''{'' = None"
proof -
  let ?parse = "\<lambda>raw. if raw = ''frame'' then Some (server_frame_json example_frame) else None"
  have r: "frame_in_range example_frame"
    by (simp add: frame_in_range_def example_frame_def empty_frame_def int32_def)
  from server_frame_roundtrip [of ?parse "''frame''" example_frame "''{''"] r show ?thesis by (simp add: Let_def)
qed

text \<open>
  The task_start frame loses nothing: two frames are the same JSON value exactly when they were built
  from the same model, voice settings and audio settings, including whether an emotion is set.
\<close>

theorem task_start_faithful:
  "task_start_json m v a = task_start_json m' v' a' \<longleftrightarrow> m = m' \<and> v = v' \<and> a = a'"
proof
  assume eq: "task_start_json m v a = task_start_json m' v' a'"
  have get: "json_get (task_start_json m v a) k = json_get (task_start_json m' v' a') k" for k
    by (simp only: eq)
  have m: "m = m'" using get [of "''model''"] by (simp add: task_start_json_def Let_def obj_set_get)
  have "voice_setting_json v = voice_setting_json v'"
    using get [of "''voice_setting''"] by (simp add: task_start_json_def Let_def obj_set_get)
  then have vg: "json_get (voice_setting_json v) k = json_get (voice_setting_json v') k" for k by (simp only:)
  have v: "v = v'"
    using vg [of "''voice_id''"] vg [of "''speed''"] vg [of "''vol''"] vg [of "''pitch''"] vg [of "''emotion''"]
      vg [of "''english_normalization''"]
    by (cases v; cases v'; cases "vs_emotion v"; cases "vs_emotion v'")
      (simp_all add: voice_setting_json_def Let_def obj_set_get)
  have "audio_setting_json a = audio_setting_json a'"
    using get [of "''audio_setting''"] by (simp add: task_start_json_def Let_def obj_set_get)
  then have ag: "json_get (audio_setting_json a) k = json_get (audio_setting_json a') k" for k by (simp only:)
  have a: "a = a'"
    using ag [of "''sample_rate''"] ag [of "''bitrate''"] ag [of "''format''"] ag [of "''channel''"]
    by (cases a; cases a') (simp_all add: audio_setting_json_def Let_def obj_set_get format_name.enc_eq_iff)
  show "m = m' \<and> v = v' \<and> a = a'" using m v a by simp
qed simp

end
