(* ===== verification/Hex_Codec.thy ===== *)
theory Hex_Codec
  imports Messages
begin

text \<open>
  The hexadecimal audio encoding of \<^verbatim>\<open>src/upstream/hex_codec.h\<close> and the session ids that
  \<^verbatim>\<open>MessageProcessor::generate_session_id\<close> of \<^verbatim>\<open>src/heartbeat/message_processor.h\<close> prints with
  \<^verbatim>\<open>"s-%016llx"\<close>. The decoder returns the empty string for malformed input, so its result does not tell
  an error from an empty payload.
\<close>

unbundle bit_operations_syntax

section \<open>Definitions\<close>

definition nibble :: "char \<Rightarrow> int" where
  "nibble c = (let n = of_char c :: int in
     if 48 \<le> n \<and> n \<le> 57 then n - 48
     else if 97 \<le> n \<and> n \<le> 102 then 10 + (n - 97)
     else if 65 \<le> n \<and> n \<le> 70 then 10 + (n - 65)
     else - 1)"

fun hex_loop :: "string \<Rightarrow> bytes \<Rightarrow> bytes" where
  "hex_loop (h # l # rest) out =
     (let hi = nibble h; lo = nibble l in
      if hi < 0 \<or> lo < 0 then [] else hex_loop rest (out @ [word_of_int (push_bit 4 hi OR lo)]))"
| "hex_loop _ out = out"

definition hex_decode :: "string \<Rightarrow> bytes" where
  "hex_decode hex = (if length hex mod 2 \<noteq> 0 then [] else hex_loop hex [])"

definition hex_digits :: string where
  "hex_digits = ''0123456789abcdef''"

fun hex_encode :: "bytes \<Rightarrow> string" where
  "hex_encode [] = []"
| "hex_encode (c # cs) =
     hex_digits ! unat (drop_bit 4 c AND 15) # hex_digits ! unat (c AND 15) # hex_encode cs"

text \<open>The conversion \<^verbatim>\<open>%016llx\<close> of a 64-bit value: sixteen lower-case digits, most significant first.\<close>

definition print_016llx :: "u64 \<Rightarrow> string" where
  "print_016llx w = map (\<lambda>i. hex_digits ! unat (take_bit 4 (drop_bit (4 * i) w))) (rev [0..<16])"

definition generate_session_id :: "u64 \<Rightarrow> string" where
  "generate_session_id w = ''s-'' @ print_016llx w"

definition is_hex :: "char \<Rightarrow> bool" where
  "is_hex c \<longleftrightarrow> nibble c \<ge> 0"

definition valid_hex :: "string \<Rightarrow> bool" where
  "valid_hex s \<longleftrightarrow> even (length s) \<and> list_all is_hex s"

fun hex_value :: "string \<Rightarrow> bytes" where
  "hex_value (h # l # rest) = word_of_int (16 * nibble h + nibble l) # hex_value rest"
| "hex_value _ = []"

section \<open>Digits\<close>

lemma digit_nibble: "k < 16 \<Longrightarrow> nibble (hex_digits ! k) = int k"
proof -
  have "\<forall>k \<in> set [0..<16]. nibble (hex_digits ! k) = int k"
    by (simp add: nibble_def hex_digits_def upt_rec Let_def)
  then show "k < 16 \<Longrightarrow> nibble (hex_digits ! k) = int k" by simp
qed

lemma nibble_bounds: "nibble c \<ge> 0 \<Longrightarrow> nibble c < 16"
  by (auto simp: nibble_def Let_def split: if_splits)

lemma low_nibble_lt: "unat (x AND 15 :: 8 word) < 16"
proof -
  have "x AND 15 \<le> 15" by (rule word_and_le1)
  then show ?thesis by (simp add: word_le_nat_alt)
qed

lemma join_nibbles:
  assumes "0 \<le> hi" "hi < 16" "0 \<le> lo" "lo < 16"
  shows "push_bit 4 hi OR lo = 16 * hi + (lo :: int)"
proof -
  have lo: "take_bit 4 lo = lo" using assms by (simp add: take_bit_int_eq_self)
  have "take_bit 4 lo OR push_bit 4 hi = take_bit 4 lo + push_bit 4 hi"
    using concat_bit_eq [of 4 lo hi] by (simp add: concat_bit_def)
  then show ?thesis unfolding lo by (simp add: or.commute push_bit_eq_mult)
qed

lemma split_byte: "16 * uint (drop_bit 4 x AND 15) + uint (x AND 15) = uint (x :: 8 word)"
proof -
  have u: "0 \<le> uint x" "uint x < 256" using uint_lt2p [of x] by simp_all
  have f: "uint (15 :: 8 word) = 15" by simp
  have m: "y AND 15 = y mod (16 :: int)" for y using take_bit_eq_mask [of 4 y]
    by (simp add: take_bit_eq_mod mask_eq_exp_minus_1)
  have lo: "uint (x AND 15) = uint x mod 16" by (simp only: uint_and f m)
  have hi: "uint (drop_bit 4 x AND 15) = (uint x div 16) mod 16"
    using u by (simp only: uint_and f m unsigned_drop_bit_eq) (simp add: drop_bit_eq_div take_bit_int_eq_self)
  have "uint x div 16 mod 16 = uint x div 16" using u by (intro mod_pos_pos_trivial) (simp_all add: pos_imp_zdiv_nonneg_iff)
  then show ?thesis unfolding lo hi by (simp only: mult_div_mod_eq)
qed

section \<open>Decoding and encoding\<close>

lemma hex_loop_value:
  "even (length s) \<Longrightarrow> hex_loop s out = (if list_all is_hex s then out @ hex_value s else [])"
proof (induction s out rule: hex_loop.induct)
  case (1 h l rest out)
  show ?case
  proof (cases "is_hex h \<and> is_hex l")
    case True
    then have "push_bit 4 (nibble h) OR nibble l = 16 * nibble h + nibble l"
      by (intro join_nibbles) (simp_all add: is_hex_def nibble_bounds)
    with 1 True show ?thesis by (simp add: is_hex_def)
  qed (auto simp: is_hex_def)
qed simp_all

lemma hex_decode_value: "hex_decode s = (if valid_hex s then hex_value s else [])"
  by (simp add: hex_decode_def valid_hex_def hex_loop_value odd_iff_mod_2_eq_one even_iff_mod_2_eq_zero)

lemma hex_encode_valid: "valid_hex (hex_encode bs)"
  by (induction bs) (simp_all add: valid_hex_def is_hex_def digit_nibble low_nibble_lt)

lemma hex_value_encode: "hex_value (hex_encode bs) = bs"
proof (induction bs)
  case (Cons b bs)
  have "word_of_int (16 * uint (drop_bit 4 b AND 15) + uint (b AND 15)) = b"
    by (simp only: split_byte word_of_int_uint)
  with Cons show ?case by (simp only: hex_encode.simps hex_value.simps digit_nibble low_nibble_lt uint_nat)
qed simp

lemma length_hex_value: "length (hex_value s) = length s div 2"
  by (induction s rule: hex_value.induct) simp_all

interpretation hex: text_codec hex_encode hex_decode
  by unfold_locales (simp add: hex_decode_value hex_encode_valid hex_value_encode)

lemma digits_inj: "i < 16 \<Longrightarrow> j < 16 \<Longrightarrow> hex_digits ! i = hex_digits ! j \<longleftrightarrow> i = j"
proof
  assume ij: "i < 16" "j < 16" and eq: "hex_digits ! i = hex_digits ! j"
  have "int i = nibble (hex_digits ! i)" using ij(1) by (rule digit_nibble [symmetric])
  also have "\<dots> = nibble (hex_digits ! j)" by (simp only: eq)
  also have "\<dots> = int j" using ij(2) by (rule digit_nibble)
  finally show "i = j" by (simp only: of_nat_eq_iff)
qed (rule arg_cong)

lemma nibble_lt: "unat (take_bit 4 (w :: u64)) < 16"
  using take_bit_nat_less_exp [of 4 "unat w"] by (simp add: unsigned_take_bit_eq)

lemma word_from_nibbles:
  assumes "\<And>i. i < 16 \<Longrightarrow> take_bit 4 (drop_bit (4 * i) w) = take_bit 4 (drop_bit (4 * i) (w' :: u64))"
  shows "w = w'"
proof (rule bit_word_eqI)
  fix n assume "n < LENGTH(64)"
  then have n: "n div 4 < 16" by simp
  have "bit v n \<longleftrightarrow> bit (take_bit 4 (drop_bit (4 * (n div 4)) v)) (n mod 4)" for v :: u64
    by (simp add: bit_take_bit_iff bit_drop_bit_eq)
  with assms [OF n] show "bit w n \<longleftrightarrow> bit w' n" by metis
qed

lemma print_016llx_inj: "print_016llx w = print_016llx w' \<longleftrightarrow> w = w'"
proof
  assume "print_016llx w = print_016llx w'"
  then have eq: "hex_digits ! unat (take_bit 4 (drop_bit (4 * i) w)) =
                 hex_digits ! unat (take_bit 4 (drop_bit (4 * i) w'))" if "i < 16" for i
    using that unfolding print_016llx_def map_eq_conv by simp
  show "w = w'"
    by (rule word_from_nibbles, rule unsigned_word_eqI)
      (rule iffD1 [OF digits_inj [OF nibble_lt nibble_lt] eq])
qed simp

section \<open>Properties\<close>

text \<open>
  C36. The hexadecimal codec: decoding an encoded payload gives it back, whatever its bytes; a string
  decodes to the bytes its digit pairs denote, half as many as it has characters, when it has even length
  and only hexadecimal digits of either case, and to the empty payload otherwise.
\<close>

theorem hex_codec_correct:
  "hex_decode (hex_encode bs) = bs \<and>
   hex_decode s = (if valid_hex s then hex_value s else []) \<and>
   length (hex_decode s) = (if valid_hex s then length s div 2 else 0) \<and>
   (hex_encode bs = hex_encode bs' \<longleftrightarrow> bs = bs')"
  using hex.dec_enc [of bs] by (simp add: hex.enc_eq_iff) (simp add: hex_decode_value length_hex_value)

text \<open>
  Session ids: different random values give different ids, each id has the 18 characters that fit the
  32-byte print buffer, and none is empty (an empty id is the failure value of
  \<^verbatim>\<open>acquire_or_create_session\<close>).
\<close>

theorem session_ids_unique:
  "(generate_session_id w = generate_session_id w' \<longleftrightarrow> w = w') \<and>
   length (generate_session_id w) = 18 \<and> generate_session_id w \<noteq> []"
  by (simp add: generate_session_id_def print_016llx_inj) (simp add: print_016llx_def)

end
