(* ===== verification/Message_Processor.thy ===== *)
theory Message_Processor
  imports Copy_Channel Evolution Observability Ws_Codec Hex_Codec
begin

text \<open>
  The board, the change set builder and the message processor that the heartbeat works with:
  \<^verbatim>\<open>src/databoard/data_board.h\<close>, \<^verbatim>\<open>src/heartbeat/changeset_builder.h\<close> and
  \<^verbatim>\<open>src/heartbeat/message_processor.h\<close>.

  The objects share one another through \<^verbatim>\<open>shared_ptr\<close>, so their fields form one state, the record
  \<open>server\<close>. What the process reads from outside is the record \<open>environment\<close>: the successive readings of the
  injected clock and of \<^verbatim>\<open>std::chrono::steady_clock\<close>, the values of the random generator, the library function
  \<^verbatim>\<open>json::dump\<close>, whether there is a local engine that is ready, and the configuration. The counters
  \<open>hb_clock_reads\<close>, \<open>hb_steady_reads\<close> and \<open>hb_rng_draws\<close> say how many values have been consumed.
  The sets \<^verbatim>\<open>changed_sessions\<close> and \<^verbatim>\<open>changed_requests\<close> are local variables of \<^verbatim>\<open>Heartbeat::tick\<close> that the
  handlers receive by reference; they are fields that the tick resets when it starts.
\<close>

section \<open>State\<close>

record data_board =
  bd_pool :: session_pool
  bd_pending :: pending_store
  bd_catalog :: voice_catalog
  bd_metrics :: metrics

definition new_board :: data_board where
  "new_board = \<lparr>bd_pool = new_pool 16 60 3600, bd_pending = [], bd_catalog = new_catalog,
     bd_metrics = new_metrics\<rparr>"

record environment =
  env_clock :: "nat \<Rightarrow> time_point"
  env_steady :: "nat \<Rightarrow> time_point"
  env_rng :: "nat \<Rightarrow> u64"
  env_dump :: "json \<Rightarrow> string"
  env_engine_ready :: bool
  env_prefer_local :: bool
  env_backpressure :: backpressure

record server =
  hb_board :: data_board
  hb_request_channel :: "message copy_channel"
  hb_ws_channel :: "message copy_channel"
  hb_changeset :: change_set
  hb_bus :: tts_bus
  hb_gate_open :: bool
  hb_log :: "bus_event list"
  hb_count :: u64
  hb_last_duration_us :: u64
  hb_clock_reads :: nat
  hb_steady_reads :: nat
  hb_rng_draws :: nat
  hb_changed_sessions :: "string list"
  hb_changed_requests :: "string list"

definition new_server :: server where
  "new_server = \<lparr>hb_board = new_board, hb_request_channel = new_channel, hb_ws_channel = new_channel,
     hb_changeset = empty_change_set, hb_bus = observability_bus, hb_gate_open = True, hb_log = [],
     hb_count = 0, hb_last_duration_us = 0, hb_clock_reads = 0, hb_steady_reads = 0, hb_rng_draws = 0,
     hb_changed_sessions = [], hb_changed_requests = []\<rparr>"

abbreviation pool_of :: "server \<Rightarrow> session_pool" where
  "pool_of st \<equiv> bd_pool (hb_board st)"

abbreviation pending_of :: "server \<Rightarrow> pending_store" where
  "pending_of st \<equiv> bd_pending (hb_board st)"

abbreviation metrics_of :: "server \<Rightarrow> metrics" where
  "metrics_of st \<equiv> bd_metrics (hb_board st)"

definition upd_pool :: "(session_pool \<Rightarrow> session_pool) \<Rightarrow> server \<Rightarrow> server" where
  "upd_pool f st = st\<lparr>hb_board := (hb_board st)\<lparr>bd_pool := f (pool_of st)\<rparr>\<rparr>"

definition upd_pending :: "(pending_store \<Rightarrow> pending_store) \<Rightarrow> server \<Rightarrow> server" where
  "upd_pending f st = st\<lparr>hb_board := (hb_board st)\<lparr>bd_pending := f (pending_of st)\<rparr>\<rparr>"

definition upd_metrics :: "(metrics \<Rightarrow> metrics) \<Rightarrow> server \<Rightarrow> server" where
  "upd_metrics f st = st\<lparr>hb_board := (hb_board st)\<lparr>bd_metrics := f (metrics_of st)\<rparr>\<rparr>"

definition change_session :: "string \<Rightarrow> server \<Rightarrow> server" where
  "change_session sid st = st\<lparr>hb_changed_sessions := set_insert sid (hb_changed_sessions st)\<rparr>"

definition change_request :: "string \<Rightarrow> server \<Rightarrow> server" where
  "change_request rid st = st\<lparr>hb_changed_requests := set_insert rid (hb_changed_requests st)\<rparr>"

text \<open>Successive readings of the clocks and of the generator.\<close>

definition read_clock :: "environment \<Rightarrow> server \<Rightarrow> time_point \<times> server" where
  "read_clock env st = (env_clock env (hb_clock_reads st), st\<lparr>hb_clock_reads := Suc (hb_clock_reads st)\<rparr>)"

definition read_steady :: "environment \<Rightarrow> server \<Rightarrow> time_point \<times> server" where
  "read_steady env st = (env_steady env (hb_steady_reads st), st\<lparr>hb_steady_reads := Suc (hb_steady_reads st)\<rparr>)"

definition draw_rng :: "environment \<Rightarrow> server \<Rightarrow> u64 \<times> server" where
  "draw_rng env st = (env_rng env (hb_rng_draws st), st\<lparr>hb_rng_draws := Suc (hb_rng_draws st)\<rparr>)"

section \<open>Change set builder\<close>

definition add_ws_frame :: "out_ws_frame \<Rightarrow> server \<Rightarrow> server" where
  "add_ws_frame f st = st\<lparr>hb_changeset := (hb_changeset st)\<lparr>ws_frames := ws_frames (hb_changeset st) @ [f]\<rparr>\<rparr>"

definition add_client_write :: "write_to_client \<Rightarrow> server \<Rightarrow> server" where
  "add_client_write w st =
     st\<lparr>hb_changeset := (hb_changeset st)\<lparr>client_writes := client_writes (hb_changeset st) @ [w]\<rparr>\<rparr>"

definition add_close :: "close_session \<Rightarrow> server \<Rightarrow> server" where
  "add_close c st =
     st\<lparr>hb_changeset := (hb_changeset st)\<lparr>close_sessions := close_sessions (hb_changeset st) @ [c]\<rparr>\<rparr>"

definition add_emit :: "message \<Rightarrow> server \<Rightarrow> server" where
  "add_emit m st =
     st\<lparr>hb_changeset := (hb_changeset st)\<lparr>emit_messages := emit_messages (hb_changeset st) @ [m]\<rparr>\<rparr>"

definition add_local_job :: "local_synth_job \<Rightarrow> server \<Rightarrow> server" where
  "add_local_job j st =
     st\<lparr>hb_changeset := (hb_changeset st)\<lparr>local_jobs := local_jobs (hb_changeset st) @ [j]\<rparr>\<rparr>"

definition collect :: "server \<Rightarrow> change_set \<times> server" where
  "collect st = (hb_changeset st, st\<lparr>hb_changeset := empty_change_set\<rparr>)"

section \<open>Message processor\<close>

definition drain_batch :: "server \<Rightarrow> message list \<times> server" where
  "drain_batch st =
     (let (out, rc) = swap_out_all [] (hb_request_channel st);
          (ws, wc) = swap_out_all [] (hb_ws_channel st)
      in (out @ ws, st\<lparr>hb_request_channel := rc, hb_ws_channel := wc\<rparr>))"

fun collect_new_requests :: "message list \<Rightarrow> tts_request_msg list" where
  "collect_new_requests [] = []"
| "collect_new_requests (ReqMsg r # ms) = r # collect_new_requests ms"
| "collect_new_requests (_ # ms) = collect_new_requests ms"

fun collect_responses :: "message list \<Rightarrow> tts_response_msg list" where
  "collect_responses [] = []"
| "collect_responses (RspMsg r # ms) = r # collect_responses ms"
| "collect_responses (_ # ms) = collect_responses ms"

record session_handle =
  sh_session_id :: string
  sh_reused :: bool

definition acquire_or_create_session :: "environment \<Rightarrow> server \<Rightarrow> session_handle \<times> server" where
  "acquire_or_create_session env st =
     (case find_idle_least_recently_used (pool_of st) of
        Some idle \<Rightarrow>
          (let (now, st) = read_steady env st
           in (\<lparr>sh_session_id = sr_session_id idle, sh_reused = True\<rparr>,
               upd_pool (mark_active (sr_session_id idle) now) st))
      | None \<Rightarrow>
          (let (w, st) = draw_rng env st;
               sid = generate_session_id w;
               rec = default_session\<lparr>sr_session_id := sid, sr_state := Connecting\<rparr>;
               (ok, pool) = pool_add rec (pool_of st)
           in (\<lparr>sh_session_id = (if ok then sid else []), sh_reused = False\<rparr>, upd_pool (\<lambda>_. pool) st)))"

definition bind_request :: "environment \<Rightarrow> string \<Rightarrow> session_handle \<Rightarrow> tts_request_msg \<Rightarrow> server \<Rightarrow> server" where
  "bind_request env rid h req st =
     (let p = default_pending\<lparr>pr_request_id := rid, pr_session_id := sh_session_id h, pr_state := AwaitingSession,
            pr_sample_rate := as_sample_rate (rq_audio req), pr_channels := as_channel (rq_audio req),
            pr_format := as_format (rq_audio req)\<rparr>;
          (now, st) = read_steady env st
      in upd_metrics inc_inflight (upd_pending (pending_add p now) st))"

definition take_completed :: "string \<Rightarrow> server \<Rightarrow> pending_request list" where
  "take_completed rid st =
     (case pending_get (pending_of st) rid of
        None \<Rightarrow> []
      | Some p \<Rightarrow> [default_pending\<lparr>pr_request_id := pr_request_id p, pr_session_id := pr_session_id p,
           pr_accumulated_audio := pr_accumulated_audio p, pr_cumulative_bytes := pr_cumulative_bytes p,
           pr_sample_rate := pr_sample_rate p, pr_channels := pr_channels p, pr_format := pr_format p,
           pr_usage_characters := pr_usage_characters p, pr_status_code := pr_status_code p,
           pr_status_msg := pr_status_msg p, pr_final_received := pr_final_received p\<rparr>])"

section \<open>Lemmas\<close>

lemmas upd_defs = upd_pool_def upd_pending_def upd_metrics_def change_session_def change_request_def
  read_clock_def read_steady_def draw_rng_def
lemmas builder_defs = add_ws_frame_def add_client_write_def add_close_def add_emit_def add_local_job_def
  collect_def

lemma drain_batch_result:
  "drain_batch st = (buffer (hb_request_channel st) @ buffer (hb_ws_channel st),
     st\<lparr>hb_request_channel := (hb_request_channel st)\<lparr>buffer := []\<rparr>,
        hb_ws_channel := (hb_ws_channel st)\<lparr>buffer := []\<rparr>\<rparr>)"
  by (simp add: drain_batch_def swap_out_all_result)

end
