(* ===== verification/Heartbeat.thy ===== *)
theory Heartbeat
  imports Message_Processor
begin

text \<open>
  The heartbeat of \<^verbatim>\<open>src/heartbeat/heartbeat.h\<close>: every tick drains the two channels, handles each message
  on the board, emits the requests that are complete, lets the evolution engine clean up, and returns the change
  set that the rest of the server carries out. The bus pointer is never null in the program (\<^verbatim>\<open>src/main.cpp\<close>).
\<close>

section \<open>Requests\<close>

definition should_use_local :: "environment \<Rightarrow> tts_request_msg \<Rightarrow> bool" where
  "should_use_local env req =
     (if \<not> env_engine_ready env then False
      else if rq_backend req = Backend_Upstream then False
      else if rq_backend req = Backend_Local then True
      else env_prefer_local env)"

definition hb_publish_async :: "bus_event \<Rightarrow> server \<Rightarrow> server" where
  "hb_publish_async e st = st\<lparr>hb_bus := publish_async e (hb_bus st)\<rparr>"

definition local_pending :: "tts_request_msg \<Rightarrow> pending_request" where
  "local_pending req = default_pending\<lparr>pr_request_id := rq_request_id req, pr_state := StreamingAudio,
     pr_sample_rate := as_sample_rate (rq_audio req), pr_channels := as_channel (rq_audio req), pr_format := Pcm\<rparr>"

definition open_local_pending :: "environment \<Rightarrow> tts_request_msg \<Rightarrow> server \<Rightarrow> server" where
  "open_local_pending env req st =
     (case pending_get (pending_of st) (rq_request_id req) of
        None \<Rightarrow> (let (now, st) = read_steady env st in upd_pending (pending_add (local_pending req) now) st)
      | Some _ \<Rightarrow> upd_pending (reopen_local (rq_request_id req) (rq_audio req)) st)"

definition local_job :: "tts_request_msg \<Rightarrow> local_synth_job" where
  "local_job req = default_job\<lparr>lj_request_id := rq_request_id req, lj_text := rq_text req,
     lj_voice_id := vs_voice_id (rq_voice req),
     lj_speed := (if f32_positive (vs_speed (rq_voice req)) then vs_speed (rq_voice req) else f32_one)\<rparr>"

definition handle_request_local :: "environment \<Rightarrow> tts_request_msg \<Rightarrow> server \<Rightarrow> server" where
  "handle_request_local env req st =
     (let st = open_local_pending env req st;
          st = upd_metrics inc_inflight st;
          st = change_request (rq_request_id req) st
      in add_local_job (local_job req) st)"

definition start_frame :: "environment \<Rightarrow> tts_request_msg \<Rightarrow> string \<Rightarrow> out_ws_frame" where
  "start_frame env req sid = \<lparr>wf_session_id = sid, wf_op = TaskStart,
     wf_payload_json = encode_task_start (env_dump env) (model_to_string (rq_model req)) (rq_voice req) (rq_audio req)\<rparr>"

definition continue_frame :: "environment \<Rightarrow> tts_request_msg \<Rightarrow> string \<Rightarrow> out_ws_frame" where
  "continue_frame env req sid = \<lparr>wf_session_id = sid, wf_op = TaskContinue,
     wf_payload_json = encode_task_continue (env_dump env) (rq_text req)\<rparr>"

definition handle_request_upstream :: "environment \<Rightarrow> tts_request_msg \<Rightarrow> server \<Rightarrow> server" where
  "handle_request_upstream env req st =
     (let (h, st) = acquire_or_create_session env st in
      if sh_session_id h = [] then
        hb_publish_async (WsFrameSendFailedEvent (rq_request_id req) ''no_session_available'') st
      else
        (let st = bind_request env (rq_request_id req) h req st;
             st = change_session (sh_session_id h) st;
             st = change_request (rq_request_id req) st;
             st = upd_pool (set_current_request (sh_session_id h) (rq_request_id req)) st;
             st = (if sh_reused h then st else add_ws_frame (start_frame env req (sh_session_id h)) st)
         in add_ws_frame (continue_frame env req (sh_session_id h)) st))"

definition handle_request :: "environment \<Rightarrow> tts_request_msg \<Rightarrow> server \<Rightarrow> server" where
  "handle_request env req st =
     (let (d, m) = bp_evaluate (env_backpressure env) (metrics_of st);
          st = upd_metrics (\<lambda>_. m) st
      in if \<not> admit d then
           hb_publish_async (WsFrameSendFailedEvent (rq_request_id req) ''backpressure_admission_denied'') st
         else if should_use_local env req then handle_request_local env req st
         else handle_request_upstream env req st)"

section \<open>Results of the local engine\<close>

definition complete_write :: "local_synth_complete_msg \<Rightarrow> write_to_client" where
  "complete_write c = default_write\<lparr>wc_request_id := lc_request_id c, wc_audio := lc_audio c,
     wc_sample_rate := lc_sample_rate c, wc_channels := lc_channels c, wc_format := lc_format c, wc_is_final := True,
     wc_cumulative_bytes := int (length (lc_audio c)), wc_audio_length_ms := lc_usage_ms c,
     wc_status_code := lc_status_code c, wc_status_msg := lc_status_msg c\<rparr>"

definition handle_local_complete :: "local_synth_complete_msg \<Rightarrow> server \<Rightarrow> server" where
  "handle_local_complete c st =
     (let st = add_client_write (complete_write c) st;
          st = upd_metrics (add_audio_bytes (of_nat (length (lc_audio c)))) st;
          st = upd_metrics dec_inflight st
      in upd_pending (pending_remove (lc_request_id c)) st)"

definition failed_write :: "local_synth_failed_msg \<Rightarrow> write_to_client" where
  "failed_write f = default_write\<lparr>wc_request_id := lf_request_id f, wc_is_final := True, wc_sample_rate := 16000,
     wc_channels := 1, wc_format := Pcm, wc_status_code := lf_status_code f, wc_status_msg := lf_status_msg f\<rparr>"

definition handle_local_failed :: "local_synth_failed_msg \<Rightarrow> server \<Rightarrow> server" where
  "handle_local_failed f st =
     (let st = add_client_write (failed_write f) st;
          st = upd_metrics inc_failed_requests st;
          st = upd_metrics dec_inflight st;
          st = upd_pending (pending_remove (lf_request_id f)) st
      in change_request (lf_request_id f) st)"

section \<open>Upstream events\<close>

definition fail_pending :: "tts_response_msg \<Rightarrow> string \<Rightarrow> server \<Rightarrow> server" where
  "fail_pending rsp rid st =
     (let st = upd_pending (set_state rid Failed) st;
          st = upd_pending (set_status rid (rs_status_code rsp) (rs_status_msg rsp)) st;
          st = upd_metrics inc_failed_requests st
      in change_request rid st)"

definition drop_pending :: "string \<Rightarrow> server \<Rightarrow> server" where
  "drop_pending rid st = change_request rid (upd_pending (set_state rid Failed) st)"

definition current_request :: "server \<Rightarrow> string \<Rightarrow> string" where
  "current_request st sid =
     (case pool_get (pool_of st) sid of None \<Rightarrow> [] | Some s \<Rightarrow> sr_current_request_id s)"

definition handle_response :: "environment \<Rightarrow> tts_response_msg \<Rightarrow> server \<Rightarrow> server" where
  "handle_response env rsp st = (case rs_kind rsp of
     WsConnected \<Rightarrow>
       (let (now, st) = read_steady env st;
            st = upd_pool (mark_ready (rs_session_id rsp) now) st;
            st = change_session (rs_session_id rsp) st
        in upd_metrics inc_upstream_connected st)
   | WsTaskStarted \<Rightarrow> st
   | WsAudioChunk \<Rightarrow>
       (let rid = current_request st (rs_session_id rsp) in
        if rid = [] then st
        else
          (let (now, st) = read_steady env st;
               st = upd_pending (\<lambda>s. snd (append_chunk rid (hex_decode (rs_audio_hex rsp)) (rs_is_final rsp)
                      (rs_usage_characters rsp) now s)) st
           in change_request rid st))
   | WsTaskFinished \<Rightarrow> change_session (rs_session_id rsp) st
   | WsTaskFailed \<Rightarrow>
       (let st = fold (fail_pending rsp) (collect_by_session (rs_session_id rsp) (pending_of st)) st;
            st = upd_pool (mark_errored (rs_session_id rsp) (rs_status_msg rsp)) st
        in change_session (rs_session_id rsp) st)
   | WsDisconnected \<Rightarrow>
       (let st = fold drop_pending (collect_by_session (rs_session_id rsp) (pending_of st)) st;
            st = upd_pool (mark_closed (rs_session_id rsp)) st
        in change_session (rs_session_id rsp) st))"

definition handle_cancel :: "cancel_request_msg \<Rightarrow> server \<Rightarrow> server" where
  "handle_cancel c st =
     change_request (cn_request_id c) (upd_pending (set_state (cn_request_id c) Cancelled) st)"

section \<open>Emission and the tick\<close>

definition emitted_write :: "string \<Rightarrow> pending_request \<Rightarrow> write_to_client" where
  "emitted_write rid p = default_write\<lparr>wc_request_id := rid, wc_audio := pr_accumulated_audio p,
     wc_sample_rate := pr_sample_rate p, wc_channels := pr_channels p, wc_format := pr_format p,
     wc_is_final := pr_final_received p, wc_cumulative_bytes := pr_cumulative_bytes p,
     wc_audio_length_ms := pr_usage_characters p, wc_status_code := pr_status_code p,
     wc_status_msg := pr_status_msg p\<rparr>"

definition emit_completed :: "string \<Rightarrow> server \<Rightarrow> server" where
  "emit_completed rid st =
     (case pending_get (pending_of st) rid of
        None \<Rightarrow> st
      | Some p \<Rightarrow>
          (let st = add_client_write (emitted_write rid p) st;
               st = upd_metrics (add_audio_bytes (word_of_int (pr_cumulative_bytes p))) st;
               st = upd_metrics dec_inflight st;
               st = upd_pool (mark_draining (pr_session_id p)) st;
               st = change_session (pr_session_id p) st;
               st = change_request rid st
           in upd_pending (pending_remove rid) st))"

fun handle_message :: "environment \<Rightarrow> message \<Rightarrow> server \<Rightarrow> server" where
  "handle_message env (ReqMsg r) st = handle_request env r st"
| "handle_message env (RspMsg r) st = handle_response env r st"
| "handle_message env (CancelMsg c) st = handle_cancel c st"
| "handle_message env (CompleteMsg c) st = handle_local_complete c st"
| "handle_message env (FailedMsg f) st = handle_local_failed f st"

definition run_evolution :: "environment \<Rightarrow> server \<Rightarrow> server" where
  "run_evolution env st =
     (let (now, st) = read_clock env st;
          (closes, pool, pend) = evolve now \<lparr>ei_changed_sessions = hb_changed_sessions st,
             ei_changed_requests = hb_changed_requests st\<rparr> (pool_of st) (pending_of st)
      in fold add_close closes (upd_pending (\<lambda>_. pend) (upd_pool (\<lambda>_. pool) st)))"

text \<open>\<^verbatim>\<open>duration_cast<microseconds>\<close> truncates towards zero.\<close>

definition to_us :: "int \<Rightarrow> int" where
  "to_us d = (if 0 \<le> d then d div 1000 else - (- d div 1000))"

definition hb_publish_sync :: "bus_event \<Rightarrow> server \<Rightarrow> server" where
  "hb_publish_sync e st =
     (let ob = publish_sync e (hb_bus st) \<lparr>ob_metrics = metrics_of st, ob_open = hb_gate_open st, ob_log = hb_log st\<rparr>
      in upd_metrics (\<lambda>_. ob_metrics ob) (st\<lparr>hb_gate_open := ob_open ob, hb_log := ob_log ob\<rparr>))"

definition finish_tick :: "environment \<Rightarrow> time_point \<Rightarrow> nat \<Rightarrow> change_set \<Rightarrow> server \<Rightarrow> server" where
  "finish_tick env t0 batch_size cs st =
     (let (t1, st) = read_clock env st;
          us = word_of_int (to_us (t1 - t0));
          st = st\<lparr>hb_last_duration_us := us, hb_count := hb_count st + 1\<rparr>;
          st = upd_metrics inc_heartbeat st;
          st = upd_metrics (record_heartbeat_latency_us us) st
      in hb_publish_sync (HeartbeatTickEvent us (of_nat batch_size) (of_nat (change_set_total cs))) st)"

definition tick :: "environment \<Rightarrow> server \<Rightarrow> change_set \<times> server" where
  "tick env st =
     (let (t0, st) = read_clock env st;
          (batch, st) = drain_batch st;
          st = st\<lparr>hb_changed_sessions := [], hb_changed_requests := []\<rparr>;
          st = fold (handle_message env) batch st;
          st = fold emit_completed (find_ready_to_emit (pending_of st)) st;
          st = run_evolution env st;
          (cs, st) = collect st
      in (cs, finish_tick env t0 (length batch) cs st))"

record heartbeat_stats =
  st_heartbeat_count :: u64
  st_last_duration_us :: u64

definition heartbeat_stats_of :: "server \<Rightarrow> heartbeat_stats" where
  "heartbeat_stats_of st = \<lparr>st_heartbeat_count = hb_count st, st_last_duration_us = hb_last_duration_us st\<rparr>"

section \<open>Runs of the server\<close>

text \<open>
  What can happen to the server: a service thread sends a message into the request channel, the upstream side
  sends one into the other channel, a bus worker runs one queued event, or the heartbeat thread ticks. A send into a
  closed channel throws and leaves the server as it is.
\<close>

datatype server_op = SendRequest message | SendWsEvent message | BusWork | Tick

definition send_into :: "message \<Rightarrow> message copy_channel \<Rightarrow> message copy_channel" where
  "send_into m ch = (case send m ch of Inl _ \<Rightarrow> ch | Inr ch' \<Rightarrow> ch')"

definition bus_work :: "server \<Rightarrow> server" where
  "bus_work st =
     (case try_pop (hb_bus st) of
        (None, _) \<Rightarrow> st
      | (Some (t, e), b) \<Rightarrow>
          (let ob = dispatch_sync b t e \<lparr>ob_metrics = metrics_of st, ob_open = hb_gate_open st, ob_log = hb_log st\<rparr>
           in upd_metrics (\<lambda>_. ob_metrics ob) (st\<lparr>hb_bus := b, hb_gate_open := ob_open ob, hb_log := ob_log ob\<rparr>)))"

fun server_step :: "environment \<Rightarrow> server_op \<Rightarrow> server \<Rightarrow> change_set list \<times> server" where
  "server_step env (SendRequest m) st = ([], st\<lparr>hb_request_channel := send_into m (hb_request_channel st)\<rparr>)"
| "server_step env (SendWsEvent m) st = ([], st\<lparr>hb_ws_channel := send_into m (hb_ws_channel st)\<rparr>)"
| "server_step env BusWork st = ([], bus_work st)"
| "server_step env Tick st = (let (cs, st') = tick env st in ([cs], st'))"

fun server_run :: "environment \<Rightarrow> server_op list \<Rightarrow> server \<Rightarrow> change_set list \<times> server" where
  "server_run env [] st = ([], st)"
| "server_run env (op # ops) st =
     (let (out, st) = server_step env op st; (outs, st) = server_run env ops st in (out @ outs, st))"

end
