(* ===== verification/Heartbeat_Laws.thy ===== *)
theory Heartbeat_Laws
  imports Heartbeat
begin

text \<open>
  The laws of the heartbeat: the well-formedness that every handler keeps, the locale that lifts an invariant of the
  handlers to ticks and to whole runs of the server, what each handler adds to the change set, the balance between
  admitted and answered requests, and the decomposition of a tick into its phases.
\<close>

section \<open>Well-formed servers\<close>

definition server_ok :: "server \<Rightarrow> bool" where
  "server_ok st \<longleftrightarrow> pool_wf (pool_of st) \<and> pending_wf (pending_of st) \<and> wired (hb_bus st) \<and>
     max_size (pool_of st) = 16 \<and> idle_timeout (pool_of st) = 60 \<and> max_lifetime (pool_of st) = 3600 \<and>
     pool_get (pool_of st) [] = None \<and>
     distinct (hb_changed_sessions st) \<and> sorted (hb_changed_sessions st)"

definition pool_ok :: "session_pool \<Rightarrow> bool" where
  "pool_ok p \<longleftrightarrow> pool_wf p \<and> max_size p = 16 \<and> idle_timeout p = 60 \<and> max_lifetime p = 3600 \<and> pool_get p [] = None"

lemma pool_exec_unnamed:
  assumes "pool_get p [] = None" and "\<And>r. op = Add r \<Longrightarrow> sr_session_id r \<noteq> []"
  shows "pool_get (pool_exec op p) [] = None"
  using assms by (cases op) (auto simp: pool_use_defs pool_edit_defs store_laws split: option.splits)

lemma pool_exec_ok: "pool_ok p \<Longrightarrow> (\<And>r. op = Add r \<Longrightarrow> sr_session_id r \<noteq> []) \<Longrightarrow> pool_ok (pool_exec op p)"
  by (simp add: pool_ok_def pool_exec_wf frame_simps pool_exec_unnamed)

lemma pool_ops_ok:
  assumes "pool_ok p"
  shows "sr_session_id r \<noteq> [] \<Longrightarrow> pool_ok (snd (pool_add r p))" and "pool_ok (mark_active i t p)" and "pool_ok (mark_ready i t p)"
    and "pool_ok (mark_draining i p)" and "pool_ok (mark_errored i e p)" and "pool_ok (mark_closed i p)"
    and "pool_ok (set_current_request i j p)"
  using assms pool_exec_ok [of p "Add r"] pool_exec_ok [of p "MarkActive i t"] pool_exec_ok [of p "MarkReady i t"]
    pool_exec_ok [of p "MarkDraining i"] pool_exec_ok [of p "MarkErrored i e"] pool_exec_ok [of p "MarkClosed i"]
    pool_exec_ok [of p "SetCurrentRequest i j"]
  by simp_all

lemma pending_ops_wf:
  assumes "pending_wf s"
  shows "bytes_counted p \<Longrightarrow> pending_wf (pending_add p t s)" and "pending_wf (pending_remove i s)"
    and "pending_wf (set_state i x s)" and "pending_wf (snd (append_chunk i d f u t s))"
    and "pending_wf (reopen_local i a s)" and "pending_wf (set_status i c m s)"
  using assms pending_exec_wf [of s "PAdd p t"] pending_exec_wf [of s "PRemove i"] pending_exec_wf [of s "PSetState i x"]
    pending_exec_wf [of s "PAppend i d f u t"] pending_exec_wf [of s "PReopen i a"] pending_exec_wf [of s "PStatus i c m"]
  by simp_all

lemma server_okI:
  "server_ok st \<Longrightarrow> pool_ok (pool_of st') \<Longrightarrow> pending_wf (pending_of st') \<Longrightarrow> wired (hb_bus st') \<Longrightarrow>
   sorted (hb_changed_sessions st') \<and> distinct (hb_changed_sessions st') \<Longrightarrow> server_ok st'"
  by (simp add: server_ok_def pool_ok_def)

lemma server_okD:
  assumes "server_ok st"
  shows "pool_ok (pool_of st)" and "pending_wf (pending_of st)" and "wired (hb_bus st)"
    and "sorted (hb_changed_sessions st) \<and> distinct (hb_changed_sessions st)"
  using assms by (simp_all add: server_ok_def pool_ok_def)

lemma ok_upd:
  assumes "server_ok st"
  shows "pool_ok (f (pool_of st)) \<Longrightarrow> server_ok (upd_pool f st)"
    and "pending_wf (g (pending_of st)) \<Longrightarrow> server_ok (upd_pending g st)"
    and "server_ok (upd_metrics h st)"
    and "server_ok (change_session i st)" and "server_ok (change_request i st)"
    and "server_ok (snd (read_clock env st))" and "server_ok (snd (read_steady env st))"
    and "server_ok (snd (draw_rng env st))"
    and "server_ok (add_ws_frame fr st)" and "server_ok (add_client_write w st)" and "server_ok (add_close c st)"
    and "server_ok (add_local_job j st)" and "server_ok (hb_publish_async e st)"
  using server_okD [OF assms] set_insert_sorted
  by (simp_all add: upd_defs builder_defs server_ok_def pool_ok_def hb_publish_async_def wired_publish_async)

lemma frame_reads:
  "pool_of (snd (read_steady env st)) = pool_of st" "pending_of (snd (read_steady env st)) = pending_of st"
  "metrics_of (snd (read_steady env st)) = metrics_of st"
  "pool_of (snd (draw_rng env st)) = pool_of st"
  by (simp_all add: upd_defs)


lemma bytes_counted_new: "bytes_counted (default_pending\<lparr>pr_request_id := i, pr_session_id := j, pr_state := x,
    pr_sample_rate := a, pr_channels := b, pr_format := c\<rparr>)"
  by (simp add: bytes_counted_def default_pending_def)

lemma bytes_counted_local: "bytes_counted (local_pending req)"
  by (simp add: bytes_counted_def local_pending_def default_pending_def)

lemma ok_open_local_pending: "server_ok st \<Longrightarrow> server_ok (open_local_pending env req st)"
  by (auto simp: open_local_pending_def split_beta frame_reads bytes_counted_local
      intro!: ok_upd pending_ops_wf dest: server_okD split: option.splits)

lemma ok_acquire: "server_ok st \<Longrightarrow> server_ok (snd (acquire_or_create_session env st))"
  by (auto simp: acquire_or_create_session_def split_beta Let_def frame_reads generate_session_id_def
      intro!: ok_upd pool_ops_ok dest: server_okD split: option.splits)

lemma ok_bind_request: "server_ok st \<Longrightarrow> server_ok (bind_request env rid h req st)"
  by (auto simp: bind_request_def split_beta Let_def frame_reads bytes_counted_new
      intro!: ok_upd pending_ops_wf dest: server_okD)

lemma ok_handle_request: "server_ok st \<Longrightarrow> server_ok (handle_request env req st)"
  by (simp add: handle_request_def handle_request_local_def handle_request_upstream_def split_beta Let_def
      ok_upd ok_open_local_pending ok_acquire ok_bind_request pool_ops_ok server_okD)

lemma ok_fold: "(\<And>x st. server_ok st \<Longrightarrow> server_ok (f x st)) \<Longrightarrow> server_ok st \<Longrightarrow> server_ok (fold f xs st)"
  by (induction xs arbitrary: st) simp_all

lemma ok_fail_pending: "server_ok st \<Longrightarrow> server_ok (fail_pending rsp rid st)"
  by (simp add: fail_pending_def Let_def ok_upd pending_ops_wf server_okD)

lemma ok_drop_pending: "server_ok st \<Longrightarrow> server_ok (drop_pending rid st)"
  by (simp add: drop_pending_def ok_upd pending_ops_wf server_okD)

lemma ok_handle_response: "server_ok st \<Longrightarrow> server_ok (handle_response env rsp st)"
  by (simp add: handle_response_def Let_def split_beta ok_upd pool_ops_ok pending_ops_wf server_okD
      ok_fold ok_fail_pending ok_drop_pending frame_reads split: ws_event_kind.splits)

lemma ok_handle_message: "server_ok st \<Longrightarrow> server_ok (handle_message env m st)"
  by (cases m) (simp_all add: ok_handle_request ok_handle_response handle_cancel_def handle_local_complete_def
      handle_local_failed_def Let_def ok_upd pending_ops_wf server_okD)

lemma ok_emit_completed: "server_ok st \<Longrightarrow> server_ok (emit_completed rid st)"
  by (simp add: emit_completed_def Let_def ok_upd pool_ops_ok pending_ops_wf server_okD split: option.splits)

lemma ok_run_evolution:
  assumes "server_ok st"
  shows "server_ok (run_evolution env st)"
proof -
  obtain now st1 where r: "read_clock env st = (now, st1)" by (cases "read_clock env st")
  have ok1: "server_ok st1" using ok_upd(6) [OF assms, of env] by (simp add: r)
  let ?in = "\<lparr>ei_changed_sessions = hb_changed_sessions st1, ei_changed_requests = hb_changed_requests st1\<rparr>"
  obtain out p' s' where e: "evolve now ?in (pool_of st1) (pending_of st1) = (out, p', s')"
    by (metis prod_cases3)
  have "pool_wf (pool_of st1)" "distinct (ei_changed_sessions ?in)" "pending_wf (pending_of st1)"
    using ok1 by (simp_all add: server_ok_def)
  note wf = evolve_wf [OF this e]
  have "pool_get p' [] \<noteq> Some r" for r
    using evolve_pool_get [OF _ _ _ e, of "[]" r] ok1 by (simp add: server_ok_def)
  then have "pool_get p' [] = None" by (metis not_None_eq)
  then have "server_ok (upd_pending (\<lambda>_. s') (upd_pool (\<lambda>_. p') st1))"
    using wf ok1 by (intro ok_upd) (simp_all add: server_ok_def pool_ok_def)
  then show ?thesis by (simp add: run_evolution_def r e ok_fold ok_upd)
qed

section \<open>Answers to clients\<close>

fun answers :: "message \<Rightarrow> write_to_client list" where
  "answers (CompleteMsg c) = [complete_write c]"
| "answers (FailedMsg f) = [failed_write f]"
| "answers _ = []"

definition answered :: "change_set \<Rightarrow> nat" where
  "answered cs = length (client_writes cs)"

definition admitted :: "change_set \<Rightarrow> nat" where
  "admitted cs = length (local_jobs cs) + length (filter (\<lambda>f. wf_op f = TaskContinue) (ws_frames cs))"

text \<open>Requests in flight, less those the change set under construction has admitted, plus those it answers.\<close>

definition balance :: "server \<Rightarrow> u64" where
  "balance st = inflight (metrics_of st) + of_nat (answered (hb_changeset st)) - of_nat (admitted (hb_changeset st))"

lemma cs_upd [simp]:
  "hb_changeset (upd_pool f st) = hb_changeset st" "hb_changeset (upd_pending g st) = hb_changeset st"
  "hb_changeset (upd_metrics h st) = hb_changeset st" "hb_changeset (change_session i st) = hb_changeset st"
  "hb_changeset (change_request i st) = hb_changeset st"
  "hb_changeset (snd (read_steady env st)) = hb_changeset st" "hb_changeset (snd (draw_rng env st)) = hb_changeset st"
  "hb_changeset (snd (read_clock env st)) = hb_changeset st" "hb_changeset (hb_publish_async e st) = hb_changeset st"
  by (simp_all add: upd_defs hb_publish_async_def)

lemma metrics_upd [simp]:
  "metrics_of (upd_pool f st) = metrics_of st" "metrics_of (upd_pending g st) = metrics_of st"
  "metrics_of (upd_metrics h st) = h (metrics_of st)" "metrics_of (change_session i st) = metrics_of st"
  "metrics_of (change_request i st) = metrics_of st"
  "metrics_of (snd (read_steady env st)) = metrics_of st" "metrics_of (snd (draw_rng env st)) = metrics_of st"
  "metrics_of (snd (read_clock env st)) = metrics_of st" "metrics_of (hb_publish_async e st) = metrics_of st"
  "metrics_of (add_ws_frame fr st) = metrics_of st" "metrics_of (add_client_write w st) = metrics_of st"
  "metrics_of (add_close c st) = metrics_of st" "metrics_of (add_local_job j st) = metrics_of st"
  by (simp_all add: upd_defs hb_publish_async_def builder_defs)

lemma pending_upd [simp]:
  "pending_of (upd_pool f st) = pending_of st" "pending_of (upd_pending g st) = g (pending_of st)"
  "pending_of (upd_metrics h st) = pending_of st" "pending_of (change_session i st) = pending_of st"
  "pending_of (change_request i st) = pending_of st"
  "pending_of (snd (read_steady env st)) = pending_of st" "pending_of (snd (draw_rng env st)) = pending_of st"
  "pending_of (snd (read_clock env st)) = pending_of st" "pending_of (hb_publish_async e st) = pending_of st"
  "pending_of (add_ws_frame fr st) = pending_of st" "pending_of (add_client_write w st) = pending_of st"
  "pending_of (add_close c st) = pending_of st" "pending_of (add_local_job j st) = pending_of st"
  by (simp_all add: upd_defs hb_publish_async_def builder_defs)

lemma pool_upd [simp]:
  "pool_of (upd_pool f st) = f (pool_of st)" "pool_of (upd_pending g st) = pool_of st"
  "pool_of (upd_metrics h st) = pool_of st" "pool_of (change_session i st) = pool_of st"
  "pool_of (change_request i st) = pool_of st"
  "pool_of (snd (read_steady env st)) = pool_of st" "pool_of (snd (draw_rng env st)) = pool_of st"
  "pool_of (snd (read_clock env st)) = pool_of st" "pool_of (hb_publish_async e st) = pool_of st"
  "pool_of (add_ws_frame fr st) = pool_of st" "pool_of (add_client_write w st) = pool_of st"
  "pool_of (add_close c st) = pool_of st" "pool_of (add_local_job j st) = pool_of st"
  by (simp_all add: upd_defs hb_publish_async_def builder_defs)

lemma handle_response_fold_frame [simp]:
  "hb_changeset (fold (fail_pending rsp) ids st) = hb_changeset st"
  "hb_changeset (fold drop_pending ids st) = hb_changeset st"
  "inflight (metrics_of (fold (fail_pending rsp) ids st)) = inflight (metrics_of st)"
  "metrics_of (fold drop_pending ids st) = metrics_of st"
  "pool_of (fold (fail_pending rsp) ids st) = pool_of st"
  "pool_of (fold drop_pending ids st) = pool_of st"
  by (induction ids arbitrary: st) (simp_all add: fail_pending_def drop_pending_def Let_def inc_failed_requests_def)

lemma acquire_frame [simp]:
  "hb_changeset (snd (acquire_or_create_session env st)) = hb_changeset st"
  "metrics_of (snd (acquire_or_create_session env st)) = metrics_of st"
  "pending_of (snd (acquire_or_create_session env st)) = pending_of st"
  by (simp_all add: acquire_or_create_session_def Let_def split_beta split: option.splits)

lemma open_local_frame [simp]:
  "hb_changeset (open_local_pending env req st) = hb_changeset st"
  "metrics_of (open_local_pending env req st) = metrics_of st"
  "pool_of (open_local_pending env req st) = pool_of st"
  by (simp_all add: open_local_pending_def Let_def split_beta split: option.splits)

lemma bind_request_frame [simp]:
  "hb_changeset (bind_request env rid h req st) = hb_changeset st"
  "metrics_of (bind_request env rid h req st) = inc_inflight (metrics_of st)"
  "pool_of (bind_request env rid h req st) = pool_of st"
  by (simp_all add: bind_request_def Let_def split_beta)

lemma handle_response_frame [simp]:
  "hb_changeset (handle_response env rsp st) = hb_changeset st"
  "inflight (metrics_of (handle_response env rsp st)) = inflight (metrics_of st)"
  by (simp_all add: handle_response_def Let_def split_beta inc_upstream_connected_def split: ws_event_kind.splits)

lemma builder_fields [simp]:
  "ws_frames (hb_changeset (add_ws_frame f st)) = ws_frames (hb_changeset st) @ [f]"
  "client_writes (hb_changeset (add_ws_frame f st)) = client_writes (hb_changeset st)"
  "local_jobs (hb_changeset (add_ws_frame f st)) = local_jobs (hb_changeset st)"
  "ws_frames (hb_changeset (add_client_write w st)) = ws_frames (hb_changeset st)"
  "client_writes (hb_changeset (add_client_write w st)) = client_writes (hb_changeset st) @ [w]"
  "local_jobs (hb_changeset (add_client_write w st)) = local_jobs (hb_changeset st)"
  "ws_frames (hb_changeset (add_local_job j st)) = ws_frames (hb_changeset st)"
  "client_writes (hb_changeset (add_local_job j st)) = client_writes (hb_changeset st)"
  "local_jobs (hb_changeset (add_local_job j st)) = local_jobs (hb_changeset st) @ [j]"
  "ws_frames (hb_changeset (add_close c st)) = ws_frames (hb_changeset st)"
  "client_writes (hb_changeset (add_close c st)) = client_writes (hb_changeset st)"
  "local_jobs (hb_changeset (add_close c st)) = local_jobs (hb_changeset st)"
  "close_sessions (hb_changeset (add_close c st)) = close_sessions (hb_changeset st) @ [c]"
  by (simp_all add: builder_defs)

lemma handle_message_writes:
  "client_writes (hb_changeset (handle_message env m st)) = client_writes (hb_changeset st) @ answers m"
  by (cases m) (simp_all add: handle_request_def handle_request_local_def handle_request_upstream_def
      handle_local_complete_def handle_local_failed_def handle_cancel_def split_beta Let_def)

lemma handle_message_balance: "balance (handle_message env m st) = balance st"
  by (cases m) (simp_all add: balance_def answered_def admitted_def handle_request_def handle_request_local_def
      handle_request_upstream_def handle_local_complete_def handle_local_failed_def handle_cancel_def split_beta
      Let_def start_frame_def continue_frame_def inc_inflight_def dec_inflight_def add_audio_bytes_def
      inc_failed_requests_def frame_simps)

lemma emit_completed_some:
  assumes "pending_get (pending_of st) rid = Some p"
  shows "client_writes (hb_changeset (emit_completed rid st)) = client_writes (hb_changeset st) @ [emitted_write rid p]"
    and "pending_of (emit_completed rid st) = pending_remove rid (pending_of st)"
    and "balance (emit_completed rid st) = balance st"
  using assms by (simp_all add: emit_completed_def Let_def balance_def answered_def admitted_def
      dec_inflight_def add_audio_bytes_def)

lemma emit_completed_none: "pending_get (pending_of st) rid = None \<Longrightarrow> emit_completed rid st = st"
  by (simp add: emit_completed_def)

lemma emit_completed_balance: "balance (emit_completed rid st) = balance st"
  by (cases "pending_get (pending_of st) rid") (simp_all add: emit_completed_none emit_completed_some)

lemma fold_emit_writes:
  assumes "distinct ids" and "\<forall>i \<in> set ids. pending_get (pending_of st) i \<noteq> None"
  shows "client_writes (hb_changeset (fold emit_completed ids st)) = client_writes (hb_changeset st) @
    map (\<lambda>i. emitted_write i (the (pending_get (pending_of st) i))) ids"
  using assms
proof (induction ids arbitrary: st)
  case (Cons i ids)
  from Cons.prems obtain p where p: "pending_get (pending_of st) i = Some p" by auto
  have same: "\<forall>j \<in> set ids. pending_get (pending_of (emit_completed i st)) j = pending_get (pending_of st) j"
    using Cons.prems by (auto simp: emit_completed_some [OF p] store_laws)
  with Cons.prems have "\<forall>j \<in> set ids. pending_get (pending_of (emit_completed i st)) j \<noteq> None" by simp
  with Cons same show ?case by (simp add: emit_completed_some(1) [OF p] p)
qed simp

section \<open>The phases of a tick\<close>

definition tick_batch :: "server \<Rightarrow> message list" where
  "tick_batch st = buffer (hb_request_channel st) @ buffer (hb_ws_channel st)"

definition tick_start :: "environment \<Rightarrow> server \<Rightarrow> server" where
  "tick_start env st = (snd (drain_batch (snd (read_clock env st))))\<lparr>hb_changed_sessions := [], hb_changed_requests := []\<rparr>"

definition after_batch :: "environment \<Rightarrow> server \<Rightarrow> server" where
  "after_batch env st = fold (handle_message env) (tick_batch st) (tick_start env st)"

definition after_emit :: "environment \<Rightarrow> server \<Rightarrow> server" where
  "after_emit env st = fold emit_completed (find_ready_to_emit (pending_of (after_batch env st))) (after_batch env st)"

lemma tick_phases:
  "fst (tick env st) = hb_changeset (run_evolution env (after_emit env st))"
  "snd (tick env st) = finish_tick env (env_clock env (hb_clock_reads st)) (length (tick_batch st)) (fst (tick env st))
     ((run_evolution env (after_emit env st))\<lparr>hb_changeset := empty_change_set\<rparr>)"
proof -
  have b: "fst (drain_batch (snd (read_clock env st))) = tick_batch st"
    by (simp add: drain_batch_result tick_batch_def upd_defs)
  show "fst (tick env st) = hb_changeset (run_evolution env (after_emit env st))"
    by (simp add: tick_def split_beta Let_def collect_def after_emit_def after_batch_def tick_start_def b)
  show "snd (tick env st) = finish_tick env (env_clock env (hb_clock_reads st)) (length (tick_batch st)) (fst (tick env st))
     ((run_evolution env (after_emit env st))\<lparr>hb_changeset := empty_change_set\<rparr>)"
    by (simp add: tick_def split_beta Let_def collect_def after_emit_def after_batch_def tick_start_def b)
      (simp add: read_clock_def)
qed

lemma tick_start_frame [simp]:
  "hb_changeset (tick_start env st) = hb_changeset st" "hb_board (tick_start env st) = hb_board st"
  "hb_bus (tick_start env st) = hb_bus st" "hb_clock_reads (tick_start env st) = Suc (hb_clock_reads st)"
  by (simp_all add: tick_start_def drain_batch_result upd_defs)

lemma fold_add_close [simp]:
  "hb_board (fold add_close cs st) = hb_board st" "hb_bus (fold add_close cs st) = hb_bus st"
  "hb_clock_reads (fold add_close cs st) = hb_clock_reads st"
  "client_writes (hb_changeset (fold add_close cs st)) = client_writes (hb_changeset st)"
  "ws_frames (hb_changeset (fold add_close cs st)) = ws_frames (hb_changeset st)"
  "local_jobs (hb_changeset (fold add_close cs st)) = local_jobs (hb_changeset st)"
  "close_sessions (hb_changeset (fold add_close cs st)) = close_sessions (hb_changeset st) @ cs"
  by (induction cs arbitrary: st) (simp_all add: add_close_def)

lemma run_evolution_frame [simp]:
  "client_writes (hb_changeset (run_evolution env st)) = client_writes (hb_changeset st)"
  "ws_frames (hb_changeset (run_evolution env st)) = ws_frames (hb_changeset st)"
  "local_jobs (hb_changeset (run_evolution env st)) = local_jobs (hb_changeset st)"
  "metrics_of (run_evolution env st) = metrics_of st"
  "hb_bus (run_evolution env st) = hb_bus st"
  by (simp_all add: run_evolution_def Let_def split_beta) (simp add: upd_defs)

lemma finish_tick_frame:
  "pool_of (finish_tick env t n cs st) = pool_of st" "pending_of (finish_tick env t n cs st) = pending_of st"
  "hb_changeset (finish_tick env t n cs st) = hb_changeset st"
  by (simp_all add: finish_tick_def hb_publish_sync_def Let_def split_beta)

section \<open>Channels\<close>

definition chans :: "server \<Rightarrow> message copy_channel \<times> message copy_channel" where
  "chans st = (hb_request_channel st, hb_ws_channel st)"

lemma tick_batch_chans: "tick_batch st = buffer (fst (chans st)) @ buffer (snd (chans st))"
  by (simp add: tick_batch_def chans_def)

lemma chans_upd [simp]:
  "chans (upd_pool f st) = chans st" "chans (upd_pending g st) = chans st"
  "chans (upd_metrics h st) = chans st" "chans (change_session i st) = chans st"
  "chans (change_request i st) = chans st" "chans (snd (read_steady env st)) = chans st"
  "chans (snd (draw_rng env st)) = chans st" "chans (snd (read_clock env st)) = chans st"
  "chans (hb_publish_async e st) = chans st" "chans (add_ws_frame fr st) = chans st"
  "chans (add_client_write w st) = chans st" "chans (add_close c st) = chans st"
  "chans (add_local_job j st) = chans st"
  by (simp_all add: chans_def upd_defs builder_defs hb_publish_async_def)

lemma chans_fold [simp]: "(\<And>x st. chans (f x st) = chans st) \<Longrightarrow> chans (fold f xs st) = chans st"
  by (induction xs arbitrary: st) simp_all

lemma chans_handle_message [simp]: "chans (handle_message env m st) = chans st"
  by (cases m) (simp_all add: handle_request_def handle_request_local_def handle_request_upstream_def
      handle_response_def handle_local_complete_def handle_local_failed_def handle_cancel_def split_beta Let_def
      open_local_pending_def bind_request_def acquire_or_create_session_def fail_pending_def drop_pending_def
      split: ws_event_kind.splits option.splits)

lemma chans_emit [simp]: "chans (emit_completed rid st) = chans st"
  by (simp add: emit_completed_def Let_def split: option.splits)

text \<open>A tick empties both channels and leaves them open or closed as they were.\<close>

lemma chans_tick:
  "chans (snd (tick env st)) = ((hb_request_channel st)\<lparr>buffer := []\<rparr>, (hb_ws_channel st)\<lparr>buffer := []\<rparr>)"
proof -
  have s: "chans (tick_start env st) = ((hb_request_channel st)\<lparr>buffer := []\<rparr>, (hb_ws_channel st)\<lparr>buffer := []\<rparr>)"
    by (simp add: chans_def tick_start_def drain_batch_result upd_defs)
  have "chans (run_evolution env (after_emit env st)) = chans (after_emit env st)"
    by (simp add: run_evolution_def Let_def split_beta)
  also have "\<dots> = chans (tick_start env st)" by (simp add: after_emit_def after_batch_def)
  finally show ?thesis unfolding s
    by (simp add: tick_phases(2) finish_tick_def hb_publish_sync_def Let_def split_beta)
      (simp add: chans_def upd_defs)
qed

lemma channels_tick: "tick_batch (snd (tick env st)) = []"
  by (simp add: tick_batch_chans chans_tick)

lemma chans_bus_work [simp]: "chans (bus_work st) = chans st"
  by (cases "try_pop (hb_bus st)"; cases "fst (try_pop (hb_bus st))")
    (simp_all add: bus_work_def Let_def split_beta, simp add: chans_def)

lemma channels_bus_work: "tick_batch (bus_work st) = tick_batch st"
  by (simp add: tick_batch_chans)

section \<open>Invariants of the heartbeat\<close>

text \<open>
  What may happen to the server when the messages sent to it are restricted by a guard, and the channels of a server
  that only such messages have been sent to.
\<close>

fun op_guard :: "(message \<Rightarrow> bool) \<Rightarrow> server_op \<Rightarrow> bool" where
  "op_guard guard (SendRequest m) = guard m"
| "op_guard guard (SendWsEvent m) = guard m"
| "op_guard guard _ = True"

definition channels_guarded :: "(message \<Rightarrow> bool) \<Rightarrow> server \<Rightarrow> bool" where
  "channels_guarded guard st \<longleftrightarrow> (\<forall>m \<in> set (tick_batch st). guard m)"

lemma op_guard_True [simp]: "op_guard (\<lambda>_. True) op" "list_all (op_guard (\<lambda>_. True)) ops"
  by (cases op) (simp_all add: list_all_iff, metis op_guard.elims(3))

lemma channels_guarded_True [simp]: "channels_guarded (\<lambda>_. True) st"
  by (simp add: channels_guarded_def)

lemma channels_guarded_step:
  assumes "channels_guarded guard st" and "op_guard guard op"
  shows "channels_guarded guard (snd (server_step env op st))"
  using assms
  by (cases op) (auto simp: channels_guarded_def split_beta channels_tick channels_bus_work,
      auto simp: tick_batch_def send_into_def send_def split: if_splits)

text \<open>
  The fields an invariant may look at besides the board's pool and store: the change set builder, the counters and
  the channels are not among them, so draining, collecting and finishing a tick cannot break it.
\<close>

definition same_data :: "server \<Rightarrow> server \<Rightarrow> bool" where
  "same_data st st' \<longleftrightarrow> pool_of st' = pool_of st \<and> pending_of st' = pending_of st \<and>
     registry (hb_bus st') = registry (hb_bus st) \<and>
     (hb_changed_sessions st' = hb_changed_sessions st \<or> hb_changed_sessions st' = [])"

lemma same_data_tick_start: "same_data st (tick_start env st)"
  by (simp add: same_data_def tick_start_def drain_batch_result upd_defs)

text \<open>
  An invariant that every handler keeps for the messages of the guard is an invariant of the server: of each phase
  of a tick, of ticks, and of all runs.
\<close>

locale heartbeat_invariant =
  fixes env :: environment
    and guard :: "message \<Rightarrow> bool"
    and inv :: "server \<Rightarrow> bool"
  assumes inv_message: "inv st \<Longrightarrow> guard m \<Longrightarrow> inv (handle_message env m st)"
    and inv_emit: "inv st \<Longrightarrow> inv (emit_completed rid st)"
    and inv_evolution: "inv st \<Longrightarrow> inv (run_evolution env st)"
    and inv_same: "inv st \<Longrightarrow> same_data st st' \<Longrightarrow> inv st'"
begin

lemma inv_batch: "inv st \<Longrightarrow> \<forall>m \<in> set ms. guard m \<Longrightarrow> inv (fold (handle_message env) ms st)"
  by (induction ms arbitrary: st) (simp_all add: inv_message)

lemma inv_emits: "inv st \<Longrightarrow> inv (fold emit_completed ids st)"
  by (induction ids arbitrary: st) (simp_all add: inv_emit)

lemma inv_phases:
  assumes "inv st" and "channels_guarded guard st"
  shows "inv (tick_start env st)" and "inv (after_batch env st)" and "inv (after_emit env st)"
proof -
  show s: "inv (tick_start env st)" using assms(1) same_data_tick_start by (rule inv_same)
  show b: "inv (after_batch env st)"
    unfolding after_batch_def using assms(2) by (intro inv_batch s) (simp add: channels_guarded_def)
  show "inv (after_emit env st)" unfolding after_emit_def by (rule inv_emits [OF b])
qed

lemma inv_tick:
  assumes "inv st" and "channels_guarded guard st"
  shows "inv (snd (tick env st))"
  using inv_evolution [OF inv_phases(3) [OF assms]]
  by (rule inv_same) (simp add: tick_phases same_data_def finish_tick_def hb_publish_sync_def upd_defs split_beta Let_def)

lemma inv_step:
  assumes "inv st" and "channels_guarded guard st"
  shows "inv (snd (server_step env op st))"
proof (cases op)
  case BusWork
  show ?thesis unfolding BusWork using assms(1)
    by (rule inv_same)
      (auto simp: bus_work_def same_data_def upd_defs try_pop_def Let_def split: list.splits prod.splits)
next
  case Tick
  then show ?thesis using inv_tick [OF assms] by (simp add: split_beta)
qed (use assms(1) in \<open>auto intro: inv_same simp: same_data_def\<close>)

lemma inv_run:
  assumes "inv st" and "channels_guarded guard st" and "list_all (op_guard guard) ops"
  shows "inv (snd (server_run env ops st))" and "channels_guarded guard (snd (server_run env ops st))"
proof -
  have "inv (snd (server_run env ops st)) \<and> channels_guarded guard (snd (server_run env ops st))"
    using assms
  proof (induction ops arbitrary: st)
    case (Cons op ops)
    from Cons.prems(3) have g: "op_guard guard op" "list_all (op_guard guard) ops" by simp_all
    from Cons.IH [OF inv_step [OF Cons.prems(1,2), of op] channels_guarded_step [OF Cons.prems(2) g(1)] g(2)]
    show ?case by (simp add: split_beta)
  qed simp
  then show "inv (snd (server_run env ops st))" and "channels_guarded guard (snd (server_run env ops st))" by simp_all
qed

end

lemma ok_same: "server_ok st \<Longrightarrow> same_data st st' \<Longrightarrow> server_ok st'"
  by (auto simp: server_ok_def same_data_def wired_def)

interpretation ok: heartbeat_invariant env "\<lambda>_. True" server_ok for env
  by unfold_locales (simp_all add: ok_handle_message ok_emit_completed ok_run_evolution ok_same)

lemmas ok_phases = ok.inv_phases [OF _ channels_guarded_True]
lemmas ok_step = ok.inv_step [OF _ channels_guarded_True]
lemmas ok_run = ok.inv_run(1) [OF _ channels_guarded_True op_guard_True(2)]

lemma ok_new_server: "server_ok new_server"
  using new_pool_inv [of 16 60 3600]
  by (simp add: server_ok_def new_server_def new_board_def wired_observability_bus pool_inv_def)
    (simp add: new_pool_def pool_get_def)

section \<open>The balance and the writes of a tick\<close>

lemma run_evolution_balance: "balance (run_evolution env st) = balance st"
  by (simp add: balance_def answered_def admitted_def)

lemma gate_on_tick_inflight: "inflight (ob_metrics (gate_on_tick e s)) = inflight (ob_metrics s)"
  by (cases e) (simp_all add: set_backpressure_level_def)

lemma finish_tick_inflight:
  assumes "wired (hb_bus st)"
  shows "inflight (metrics_of (finish_tick env t n cs st)) = inflight (metrics_of st)"
proof -
  have "wired (hb_bus (st\<lparr>hb_last_duration_us := a, hb_count := b\<rparr>))" for a b using assms by simp
  then show ?thesis using assms
    by (simp add: finish_tick_def hb_publish_sync_def Let_def split_beta)
      (simp add: upd_defs publish_sync_effect gate_on_tick_inflight inc_heartbeat_def record_heartbeat_latency_us_def
        set_backpressure_level_def Let_def)
qed

lemma fold_balance:
  "(\<And>x st. balance (f x st) = balance st) \<Longrightarrow> balance (fold f xs st) = balance st"
  by (induction xs arbitrary: st) simp_all

lemma tick_balance:
  assumes "server_ok st" and "hb_changeset st = empty_change_set"
  shows "inflight (metrics_of (snd (tick env st))) + of_nat (answered (fst (tick env st))) =
    inflight (metrics_of st) + of_nat (admitted (fst (tick env st)))"
proof -
  let ?e = "run_evolution env (after_emit env st)"
  have "balance ?e = balance (tick_start env st)"
    by (simp add: run_evolution_balance after_emit_def after_batch_def fold_balance handle_message_balance
        emit_completed_balance)
  also have "\<dots> = inflight (metrics_of st)"
    using assms(2) by (simp add: balance_def answered_def admitted_def)
  finally have b: "inflight (metrics_of ?e) + of_nat (answered (hb_changeset ?e)) =
      inflight (metrics_of st) + of_nat (admitted (hb_changeset ?e))"
    by (simp add: balance_def algebra_simps)
  have "wired (hb_bus ?e)" using ok_phases(3) [OF assms(1)] by (simp add: server_ok_def)
  then have "inflight (metrics_of (snd (tick env st))) = inflight (metrics_of ?e)"
    by (simp add: tick_phases(2) finish_tick_inflight)
  with b show ?thesis by (simp add: tick_phases(1))
qed

lemma tick_changeset [simp]: "hb_changeset (snd (tick env st)) = empty_change_set"
  by (simp add: tick_phases(2) finish_tick_frame)

lemma after_batch_writes:
  "client_writes (hb_changeset (fold (handle_message env) ms st)) =
     client_writes (hb_changeset st) @ concat (map answers ms)"
  by (induction ms arbitrary: st) (simp_all add: handle_message_writes)

lemma find_ready_to_emit_distinct: "pending_wf s \<Longrightarrow> distinct (find_ready_to_emit s)"
  by (auto simp: find_ready_to_emit_def pending_wf_def intro: collect_distinct)

lemma tick_writes:
  assumes "server_ok st" and "hb_changeset st = empty_change_set"
  shows "client_writes (fst (tick env st)) = concat (map answers (tick_batch st)) @
    map (\<lambda>i. emitted_write i (the (pending_get (pending_of (after_batch env st)) i)))
      (find_ready_to_emit (pending_of (after_batch env st)))"
proof -
  let ?b = "after_batch env st"
  have wf: "pending_wf (pending_of ?b)" using ok_phases(2) [OF assms(1)] by (simp add: server_ok_def)
  have "\<forall>i \<in> set (find_ready_to_emit (pending_of ?b)). pending_get (pending_of ?b) i \<noteq> None"
    using wf by (auto simp: store_laws)
  then have "client_writes (hb_changeset (after_emit env st)) = client_writes (hb_changeset ?b) @
      map (\<lambda>i. emitted_write i (the (pending_get (pending_of ?b) i))) (find_ready_to_emit (pending_of ?b))"
    unfolding after_emit_def by (intro fold_emit_writes find_ready_to_emit_distinct wf)
  moreover have "client_writes (hb_changeset ?b) = concat (map answers (tick_batch st))"
    unfolding after_batch_def after_batch_writes using assms(2) by simp
  ultimately show ?thesis by (simp add: tick_phases(1))
qed

end
