(* ===== verification/Heartbeat_Properties.thy ===== *)
theory Heartbeat_Properties
  imports Heartbeat_Laws
begin

text \<open>
  What the heartbeat guarantees over whole runs of the server: the answers of a tick, the accounting of requests in
  flight, consistency, routing and audio; and what follows from the code where it falls short: requests routed
  upstream are never answered, failed and cancelled ones disappear, and sessions do not outlive a tick once the clock is an
  hour past its epoch.
\<close>

section \<open>Conservation over runs\<close>

lemma wired_dispatch_inflight:
  assumes "wired b"
  shows "inflight (ob_metrics (dispatch_sync b t e s)) = inflight (ob_metrics s)"
  unfolding dispatch_bucket wired_bucket [OF assms]
  by (cases t) (simp_all add: observability_bus_def wire_defs bucket_subscribe bucket_new metric_defs
      gate_on_tick_inflight)

lemma try_pop_wired: "wired b \<Longrightarrow> wired (snd (try_pop b))"
  by (simp add: wired_def try_pop_def split: list.splits)

lemma bus_work_frame:
  assumes "wired (hb_bus st)"
  shows "inflight (metrics_of (bus_work st)) = inflight (metrics_of st)"
    and "hb_changeset (bus_work st) = hb_changeset st"
proof -
  obtain x b where p: "try_pop (hb_bus st) = (x, b)" by (cases "try_pop (hb_bus st)")
  have b: "wired b" using try_pop_wired [OF assms] by (simp add: p)
  show "inflight (metrics_of (bus_work st)) = inflight (metrics_of st)"
    by (cases x) (simp_all add: bus_work_def p Let_def wired_dispatch_inflight [OF b] split_beta)
  show "hb_changeset (bus_work st) = hb_changeset st"
    by (cases x) (simp_all add: bus_work_def p Let_def split_beta)
qed

lemma step_conserves:
  assumes "server_ok st" and "hb_changeset st = empty_change_set"
  shows "inflight (metrics_of (snd (server_step env op st))) + of_nat (sum_list (map answered (fst (server_step env op st)))) =
      inflight (metrics_of st) + of_nat (sum_list (map admitted (fst (server_step env op st))))"
    and "hb_changeset (snd (server_step env op st)) = empty_change_set"
  using assms tick_balance [OF assms, of env]
  by (cases op; simp add: split_beta bus_work_frame server_ok_def)+

lemma run_conserves:
  assumes "server_ok st" and "hb_changeset st = empty_change_set"
  shows "inflight (metrics_of (snd (server_run env ops st))) + of_nat (sum_list (map answered (fst (server_run env ops st)))) =
      inflight (metrics_of st) + of_nat (sum_list (map admitted (fst (server_run env ops st))))"
  using assms
proof (induction ops arbitrary: st)
  case (Cons op ops)
  let ?st = "snd (server_step env op st)"
  have "server_ok ?st" by (rule ok_step [OF Cons.prems(1)])
  note ih = Cons.IH [OF this step_conserves(2) [OF Cons.prems]]
  from ih step_conserves(1) [OF Cons.prems, of env op] show ?case
    by (simp add: split_beta algebra_simps)
qed simp

lemma run_changeset: "server_ok st \<Longrightarrow> hb_changeset st = empty_change_set \<Longrightarrow>
    hb_changeset (snd (server_run env ops st)) = empty_change_set"
proof (induction ops arbitrary: st)
  case (Cons op ops)
  have "server_ok (snd (server_step env op st))" by (rule ok_step [OF Cons.prems(1)])
  from Cons.IH [OF this step_conserves(2) [OF Cons.prems]] show ?case by (simp add: split_beta)
qed simp

lemma new_server_changeset: "hb_changeset new_server = empty_change_set"
  by (simp add: new_server_def)

section \<open>Session age\<close>

definition created0 :: "session_pool \<Rightarrow> bool" where
  "created0 p \<longleftrightarrow> (\<forall>i r. pool_get p i = Some r \<longrightarrow> sr_created_at r = 0)"

lemma created_pool_exec:
  assumes "created0 p" and "\<And>r. op = Add r \<Longrightarrow> sr_created_at r = 0"
  shows "created0 (pool_exec op p)"
  using assms
  by (cases op) (auto simp: created0_def pool_use_defs pool_edit_defs store_laws split: option.splits if_splits)

lemma created_ops:
  assumes "created0 p"
  shows "sr_created_at r = 0 \<Longrightarrow> created0 (snd (pool_add r p))" and "created0 (mark_active i t p)"
    and "created0 (mark_ready i t p)" and "created0 (mark_draining i p)" and "created0 (mark_errored i e p)"
    and "created0 (mark_closed i p)" and "created0 (set_current_request i j p)"
  using created_pool_exec [OF assms, of "Add r"] created_pool_exec [OF assms, of "MarkActive i t"]
    created_pool_exec [OF assms, of "MarkReady i t"] created_pool_exec [OF assms, of "MarkDraining i"]
    created_pool_exec [OF assms, of "MarkErrored i e"] created_pool_exec [OF assms, of "MarkClosed i"]
    created_pool_exec [OF assms, of "SetCurrentRequest i j"]
  by simp_all

lemma created_acquire: "created0 (pool_of st) \<Longrightarrow> created0 (pool_of (snd (acquire_or_create_session env st)))"
  by (simp add: acquire_or_create_session_def Let_def split_beta created_ops default_session_def split: option.splits)

lemma created_handle_message: "created0 (pool_of st) \<Longrightarrow> created0 (pool_of (handle_message env m st))"
  by (cases m) (simp_all add: handle_request_def handle_request_local_def handle_request_upstream_def
      handle_response_def handle_local_complete_def handle_local_failed_def handle_cancel_def split_beta Let_def
      created_acquire created_ops split: ws_event_kind.splits)

lemma created_emit: "created0 (pool_of st) \<Longrightarrow> created0 (pool_of (emit_completed rid st))"
  by (simp add: emit_completed_def Let_def created_ops split: option.splits)

text \<open>The board after the evolution of a tick, in terms of the evolution engine.\<close>

lemma run_evolution_board:
  assumes "server_ok st"
  obtains out p' s' where "evolve (env_clock env (hb_clock_reads st)) \<lparr>ei_changed_sessions = hb_changed_sessions st,
      ei_changed_requests = hb_changed_requests st\<rparr> (pool_of st) (pending_of st) = (out, p', s')"
    and "pool_of (run_evolution env st) = p'" and "pending_of (run_evolution env st) = s'"
    and "close_sessions (hb_changeset (run_evolution env st)) = close_sessions (hb_changeset st) @ out"
proof -
  obtain out p' s' where e: "evolve (env_clock env (hb_clock_reads st)) \<lparr>ei_changed_sessions = hb_changed_sessions st,
      ei_changed_requests = hb_changed_requests st\<rparr> (pool_of st) (pending_of st) = (out, p', s')"
    by (metis prod_cases3)
  show thesis by (rule that [OF e]) (simp_all add: run_evolution_def read_clock_def e)
qed

lemma evolution_pool_get:
  assumes "server_ok st"
  shows "pool_get (pool_of (run_evolution env st)) i = Some r \<longleftrightarrow> pool_get (pool_of st) i = Some r \<and>
    survives (env_clock env (hb_clock_reads st)) \<lparr>ei_changed_sessions = hb_changed_sessions st,
      ei_changed_requests = hb_changed_requests st\<rparr> (pool_of st) i r"
proof -
  have "pool_wf (pool_of st)" "pending_wf (pending_of st)" "distinct (hb_changed_sessions st)"
    using assms by (simp_all add: server_ok_def)
  moreover obtain out p' s' where "evolve (env_clock env (hb_clock_reads st)) \<lparr>ei_changed_sessions = hb_changed_sessions st,
      ei_changed_requests = hb_changed_requests st\<rparr> (pool_of st) (pending_of st) = (out, p', s')"
    and "pool_of (run_evolution env st) = p'" using run_evolution_board [OF assms] by metis
  ultimately show ?thesis by (simp add: evolve_pool_get)
qed

lemma evolution_pending_get:
  assumes "server_ok st"
  shows "pending_get (pending_of (run_evolution env st)) i = Some q \<longleftrightarrow>
    pending_get (pending_of st) i = Some q \<and> pr_state q \<noteq> Failed \<and> pr_state q \<noteq> Cancelled"
proof -
  have "pending_wf (pending_of st)" "distinct (hb_changed_sessions st)"
    using assms by (simp_all add: server_ok_def)
  moreover obtain out p' s' where e: "evolve (env_clock env (hb_clock_reads st)) \<lparr>ei_changed_sessions = hb_changed_sessions st,
      ei_changed_requests = hb_changed_requests st\<rparr> (pool_of st) (pending_of st) = (out, p', s')"
    and "pending_of (run_evolution env st) = s'" using run_evolution_board [OF assms] by metis
  ultimately show ?thesis using evolve_pending_get [OF _ _ e] by simp
qed

definition epoch_sessions :: "server \<Rightarrow> bool" where
  "epoch_sessions st \<longleftrightarrow> server_ok st \<and> created0 (pool_of st)"

interpretation epoch: heartbeat_invariant env "\<lambda>_. True" epoch_sessions for env
proof
  fix st st' :: server
  assume i: "epoch_sessions st"
  then have ok: "server_ok st" and c: "created0 (pool_of st)" by (simp_all add: epoch_sessions_def)
  show "epoch_sessions (handle_message env m st)" for m
    using ok c by (simp add: epoch_sessions_def ok_handle_message created_handle_message)
  show "epoch_sessions (emit_completed rid st)" for rid
    using ok c by (simp add: epoch_sessions_def ok_emit_completed created_emit)
  show "epoch_sessions (run_evolution env st)"
    using ok c by (auto simp: epoch_sessions_def ok_run_evolution created0_def evolution_pool_get)
  show "epoch_sessions st'" if "same_data st st'"
    using ok c that ok_same [OF ok that] by (simp add: epoch_sessions_def same_data_def)
qed

section \<open>Requests that wait for a session\<close>

text \<open>
  A request id that is only ever sent with a routing to upstream, and for which no result of a local engine is
  injected: it never reaches the state in which requests are emitted.
\<close>

fun upstream_only :: "environment \<Rightarrow> string \<Rightarrow> message \<Rightarrow> bool" where
  "upstream_only env rid (ReqMsg r) = (rq_request_id r = rid \<longrightarrow> \<not> should_use_local env r)"
| "upstream_only env rid (CompleteMsg c) = (lc_request_id c \<noteq> rid)"
| "upstream_only env rid (FailedMsg f) = (lf_request_id f \<noteq> rid)"
| "upstream_only env rid _ = True"

definition unstreamed :: "string \<Rightarrow> pending_store \<Rightarrow> bool" where
  "unstreamed rid s \<longleftrightarrow> (\<forall>p. pending_get s rid = Some p \<longrightarrow> pr_state p \<noteq> StreamingAudio)"

definition waits :: "string \<Rightarrow> server \<Rightarrow> bool" where
  "waits rid st \<longleftrightarrow> server_ok st \<and> unstreamed rid (pending_of st)"

lemma unstreamed_ops:
  assumes "unstreamed rid s"
  shows "pr_request_id p \<noteq> rid \<or> pr_state p \<noteq> StreamingAudio \<Longrightarrow> unstreamed rid (pending_add p t s)"
    and "unstreamed rid (pending_remove i s)" and "x \<noteq> StreamingAudio \<Longrightarrow> unstreamed rid (set_state i x s)"
    and "unstreamed rid (snd (append_chunk i d f u t s))" and "unstreamed rid (set_status i c m s)"
    and "i \<noteq> rid \<Longrightarrow> unstreamed rid (reopen_local i a s)"
  using assms by (auto simp: unstreamed_def store_laws split: option.splits if_splits)

lemma unstreamed_bind:
  "unstreamed rid (pending_of st) \<Longrightarrow> unstreamed rid (pending_of (bind_request env i h req st))"
  by (simp add: bind_request_def Let_def split_beta unstreamed_ops)

lemma unstreamed_open:
  "unstreamed rid (pending_of st) \<Longrightarrow> rq_request_id req \<noteq> rid \<Longrightarrow>
   unstreamed rid (pending_of (open_local_pending env req st))"
  by (simp add: open_local_pending_def Let_def split_beta unstreamed_ops local_pending_def split: option.splits)

lemma unstreamed_fold:
  assumes "unstreamed rid (pending_of st)"
  shows "unstreamed rid (pending_of (fold (fail_pending rsp) ids st))"
    and "unstreamed rid (pending_of (fold drop_pending ids st))"
  using assms
  by (induction ids arbitrary: st) (simp_all add: fail_pending_def drop_pending_def Let_def unstreamed_ops)

lemma unstreamed_handle_message:
  "unstreamed rid (pending_of st) \<Longrightarrow> upstream_only env rid m \<Longrightarrow> unstreamed rid (pending_of (handle_message env m st))"
  by (cases m) (auto simp: handle_request_def handle_request_local_def handle_request_upstream_def
      handle_response_def handle_local_complete_def handle_local_failed_def handle_cancel_def split_beta Let_def
      unstreamed_bind unstreamed_open unstreamed_ops unstreamed_fold split: ws_event_kind.splits)

lemma unstreamed_emit: "unstreamed rid (pending_of st) \<Longrightarrow> unstreamed rid (pending_of (emit_completed i st))"
  by (simp add: emit_completed_def Let_def unstreamed_ops split: option.splits)

interpretation waiting: heartbeat_invariant env "upstream_only env rid" "waits rid" for env rid
proof
  fix st st' :: server
  assume i: "waits rid st"
  then have ok: "server_ok st" by (simp add: waits_def)
  show "waits rid (handle_message env m st)" if "upstream_only env rid m" for m
    using i that by (simp add: waits_def ok_handle_message unstreamed_handle_message)
  show "waits rid (emit_completed i st)" for i
    using i by (simp add: waits_def ok_emit_completed unstreamed_emit)
  show "waits rid (run_evolution env st)"
    using i ok by (auto simp: waits_def ok_run_evolution unstreamed_def evolution_pending_get)
  show "waits rid st'" if "same_data st st'"
    using i that ok_same [OF ok that] by (simp add: waits_def same_data_def)
qed

lemma answers_other: "upstream_only env rid m \<Longrightarrow> w \<in> set (answers m) \<Longrightarrow> wc_request_id w \<noteq> rid"
  by (cases m) (auto simp: complete_write_def failed_write_def)

lemma tick_no_answer:
  assumes "waits rid st" and "channels_guarded (upstream_only env rid) st" and "hb_changeset st = empty_change_set"
  shows "rid \<notin> wc_request_id ` set (client_writes (fst (tick env st)))"
proof -
  have ok: "server_ok st" using assms(1) by (simp add: waits_def)
  have b: "waits rid (after_batch env st)" by (rule waiting.inv_phases(2) [OF assms(1,2)])
  then have "rid \<notin> set (find_ready_to_emit (pending_of (after_batch env st)))"
    by (auto simp: waits_def server_ok_def unstreamed_def find_ready_to_emit_set)
  moreover have "\<forall>m \<in> set (tick_batch st). upstream_only env rid m" using assms(2) by (simp add: channels_guarded_def)
  ultimately show ?thesis using answers_other
    by (fastforce simp: tick_writes [OF ok assms(3)] emitted_write_def)
qed

lemma new_server_board:
  "pending_of new_server = []" "sessions (pool_of new_server) = []"
  by (simp_all add: new_server_def new_board_def new_pool_def)

lemma waits_new: "waits rid new_server"
  by (simp add: waits_def ok_new_server new_server_board unstreamed_def pending_get_def)

lemma epoch_new: "epoch_sessions new_server"
  by (simp add: epoch_sessions_def ok_new_server created0_def pool_get_def new_server_board)

section \<open>Properties of every tick\<close>

lemma pending_get_None_iff: "pending_get s i = None \<longleftrightarrow> i \<notin> fst ` set s"
  by (simp add: pending_get_def map_of_eq_None_iff)

lemma fold_emit_pending:
  "pending_wf (pending_of st) \<Longrightarrow> pending_get (pending_of (fold emit_completed ids st)) i =
     (if i \<in> set ids then None else pending_get (pending_of st) i)"
proof (induction ids arbitrary: st)
  case (Cons j ids)
  show ?case
  proof (cases "pending_get (pending_of st) j")
    case None
    with Cons show ?thesis by (simp add: emit_completed_none)
  next
    case (Some p)
    have "pending_wf (pending_of (emit_completed j st))"
      using Cons.prems by (simp add: emit_completed_some(2) [OF Some] pending_ops_wf)
    from Cons.IH [OF this] show ?thesis by (simp add: emit_completed_some(2) [OF Some] store_laws)
  qed
qed simp

lemma tick_pending_get:
  assumes "server_ok st"
  shows "pending_get (pending_of (snd (tick env st))) i = Some q \<longleftrightarrow>
    pending_get (pending_of (after_batch env st)) i = Some q \<and> i \<notin> set (find_ready_to_emit (pending_of (after_batch env st))) \<and>
    pr_state q \<noteq> Failed \<and> pr_state q \<noteq> Cancelled"
proof -
  have wf: "pending_wf (pending_of (after_batch env st))" using ok_phases(2) [OF assms] by (simp add: server_ok_def)
  have "pending_of (snd (tick env st)) = pending_of (run_evolution env (after_emit env st))"
    by (simp add: tick_phases(2) finish_tick_frame)
  moreover have "pending_get (pending_of (after_emit env st)) i =
      (if i \<in> set (find_ready_to_emit (pending_of (after_batch env st))) then None
       else pending_get (pending_of (after_batch env st)) i)"
    unfolding after_emit_def by (rule fold_emit_pending [OF wf])
  ultimately show ?thesis by (auto simp: evolution_pending_get [OF ok_phases(3) [OF assms]])
qed

text \<open>
  C1. Every tick answers the clients completely and exactly once. In any state the server can reach, the client writes
  of a tick are, in this order: one final write for each result of the local engine in the drained batch, carrying its
  audio and status, and one write for each request that is streaming and has received its last chunk once the batch is
  handled; and no request so emitted is still in the store afterwards, so it is never emitted again.
\<close>

theorem tick_answers_clients:
  "let st = snd (server_run env ops new_server);
       (cs, st') = tick env st;
       pend = pending_of (after_batch env st);
       ready = find_ready_to_emit pend
   in client_writes cs = concat (map answers (tick_batch st)) @ map (\<lambda>i. emitted_write i (the (pending_get pend i))) ready \<and>
      distinct ready \<and>
      set ready = {i. \<exists>p. pending_get pend i = Some p \<and> pr_state p = StreamingAudio \<and> pr_final_received p} \<and>
      fst ` set (pending_of st') \<inter> set ready = {}"
proof -
  let ?st = "snd (server_run env ops new_server)"
  have ok: "server_ok ?st" by (rule ok_run [OF ok_new_server])
  have cs: "hb_changeset ?st = empty_change_set" by (rule run_changeset [OF ok_new_server new_server_changeset])
  have wf: "pending_wf (pending_of (after_batch env ?st))" using ok_phases(2) [OF ok] by (simp add: server_ok_def)
  have "i \<notin> set (find_ready_to_emit (pending_of (after_batch env ?st)))"
    if "i \<in> fst ` set (pending_of (snd (tick env ?st)))" for i
  proof -
    from that obtain q where "pending_get (pending_of (snd (tick env ?st))) i = Some q"
      using pending_get_None_iff by (metis not_None_eq)
    then show ?thesis by (simp add: tick_pending_get [OF ok])
  qed
  then show ?thesis
    using tick_writes [OF ok cs] find_ready_to_emit_distinct [OF wf] find_ready_to_emit_set [OF wf]
    by (auto simp: Let_def split_beta)
qed

text \<open>
  C3. The in-flight counter accounts for every request: after any run of the server, the counter plus the number of
  client writes ever returned equals the number of requests ever admitted, counting a local job or a task_continue frame for
  each (in 64-bit arithmetic). A request that is dropped without a write therefore stays in the counter for good.
\<close>

theorem inflight_accounts_for_requests:
  "let (outs, st) = server_run env ops new_server
   in inflight (metrics_of st) + of_nat (sum_list (map answered outs)) = of_nat (sum_list (map admitted outs))"
proof -
  have z: "inflight (metrics_of new_server) = 0" by (simp add: new_server_def new_board_def new_metrics_def)
  show ?thesis using run_conserves [OF ok_new_server new_server_changeset, of env ops]
    by (simp only: z add_0_left) (simp add: split_beta)
qed

text \<open>
  C15. The server keeps its data consistent in every reachable state: pool and recency list agree and hold at most 16
  sessions, every pending request is stored under its own id with as many bytes counted as accumulated, no listener
  is lost, and no change is left over for the next tick.
\<close>

theorem server_stays_consistent:
  "let st = snd (server_run env ops new_server)
   in pool_wf (pool_of st) \<and> length (sessions (pool_of st)) \<le> 16 \<and> pending_wf (pending_of st) \<and>
      wired (hb_bus st) \<and> hb_changeset st = empty_change_set"
proof -
  let ?st = "snd (server_run env ops new_server)"
  have "server_ok ?st" by (rule ok_run [OF ok_new_server])
  then show ?thesis
    using run_changeset [OF ok_new_server new_server_changeset, of env ops]
    by (auto simp: Let_def server_ok_def pool_wf_def)
qed


section \<open>Requests that are never answered\<close>

lemma new_server_channels: "channels_guarded guard new_server"
  by (simp add: channels_guarded_def tick_batch_def new_server_def new_channel_def)

lemma waiting_run:
  assumes "waits rid st" and "hb_changeset st = empty_change_set" and "channels_guarded (upstream_only env rid) st"
    and "list_all (op_guard (upstream_only env rid)) ops"
  shows "\<forall>cs \<in> set (fst (server_run env ops st)). rid \<notin> wc_request_id ` set (client_writes cs)"
  using assms
proof (induction ops arbitrary: st)
  case (Cons op ops)
  have ok: "server_ok st" using Cons.prems(1) by (simp add: waits_def)
  have "\<forall>cs \<in> set (fst (server_step env op st)). rid \<notin> wc_request_id ` set (client_writes cs)"
    using tick_no_answer [OF Cons.prems(1,3,2)] by (cases op) (simp_all add: split_beta)
  moreover have "\<forall>cs \<in> set (fst (server_run env ops (snd (server_step env op st)))).
      rid \<notin> wc_request_id ` set (client_writes cs)"
    using Cons.prems by (intro Cons.IH waiting.inv_step step_conserves(2) [OF ok] channels_guarded_step) simp_all
  ultimately show ?case by (auto simp: split_beta)
qed simp

text \<open>
  C27. A request routed upstream is never answered. Take any run in which the requests with a given id are routed
  upstream and nobody injects a local result for that id: whatever else happens, including its session connecting
  and delivering audio up to a final chunk, no client write of any tick is for it. It waits in the state AwaitingSession,
  and nothing in the program moves it to the state that is emitted.
\<close>

theorem upstream_requests_never_answered:
  assumes "list_all (op_guard (upstream_only env rid)) ops"
  shows "rid \<notin> wc_request_id ` set (concat (map client_writes (fst (server_run env ops new_server))))"
  using waiting_run [OF waits_new new_server_changeset new_server_channels assms] by auto

definition example_env :: environment where
  "example_env = \<lparr>env_clock = (\<lambda>_. 0), env_steady = (\<lambda>_. 0), env_rng = of_nat, env_dump = (\<lambda>_. []),
     env_engine_ready = False, env_prefer_local = True, env_backpressure = new_backpressure\<rparr>"

theorem upstream_requests_never_answered_witness:
  "let env = example_env\<lparr>env_engine_ready := True\<rparr>; sid = generate_session_id 0;
       ops = [SendRequest (ReqMsg (default_request\<lparr>rq_request_id := ''strm-1'', rq_text := ''hi'', rq_backend := Backend_Upstream\<rparr>)),
         Tick, SendWsEvent (RspMsg (default_response\<lparr>rs_session_id := sid, rs_kind := WsConnected\<rparr>)),
         SendWsEvent (RspMsg (default_response\<lparr>rs_session_id := sid, rs_kind := WsAudioChunk, rs_audio_hex := ''00ff'',
           rs_is_final := True\<rparr>)), Tick]
   in ''strm-1'' \<notin> wc_request_id ` set (concat (map client_writes (fst (server_run env ops new_server))))"
  unfolding Let_def
  by (rule upstream_requests_never_answered) (simp add: should_use_local_def)

section \<open>Session lifetimes\<close>

lemma clock_reads_upd [simp]:
  "hb_clock_reads (upd_pool f st) = hb_clock_reads st" "hb_clock_reads (upd_pending g st) = hb_clock_reads st"
  "hb_clock_reads (upd_metrics h st) = hb_clock_reads st" "hb_clock_reads (change_session i st) = hb_clock_reads st"
  "hb_clock_reads (change_request i st) = hb_clock_reads st"
  "hb_clock_reads (snd (read_steady env st)) = hb_clock_reads st"
  "hb_clock_reads (snd (draw_rng env st)) = hb_clock_reads st"
  "hb_clock_reads (hb_publish_async e st) = hb_clock_reads st" "hb_clock_reads (add_ws_frame fr st) = hb_clock_reads st"
  "hb_clock_reads (add_client_write w st) = hb_clock_reads st" "hb_clock_reads (add_local_job j st) = hb_clock_reads st"
  by (simp_all add: upd_defs builder_defs hb_publish_async_def)

lemma clock_reads_fold [simp]:
  "(\<And>x st. hb_clock_reads (f x st) = hb_clock_reads st) \<Longrightarrow> hb_clock_reads (fold f xs st) = hb_clock_reads st"
  by (induction xs arbitrary: st) simp_all

lemma clock_reads_handlers [simp]:
  "hb_clock_reads (handle_message env m st) = hb_clock_reads st"
  "hb_clock_reads (emit_completed rid st) = hb_clock_reads st"
  by (cases m) (simp_all add: handle_request_def handle_request_local_def handle_request_upstream_def
      handle_response_def handle_local_complete_def handle_local_failed_def handle_cancel_def split_beta Let_def
      open_local_pending_def bind_request_def acquire_or_create_session_def fail_pending_def drop_pending_def
      emit_completed_def split: ws_event_kind.splits option.splits)

lemma after_emit_clock_reads: "hb_clock_reads (after_emit env st) = Suc (hb_clock_reads st)"
  by (simp add: after_emit_def after_batch_def)

lemma tick_pool_get:
  assumes "server_ok st"
  shows "pool_get (pool_of (snd (tick env st))) i = Some r \<longleftrightarrow> pool_get (pool_of (after_emit env st)) i = Some r \<and>
    survives (env_clock env (Suc (hb_clock_reads st))) \<lparr>ei_changed_sessions = hb_changed_sessions (after_emit env st),
      ei_changed_requests = hb_changed_requests (after_emit env st)\<rparr> (pool_of (after_emit env st)) i r"
  using evolution_pool_get [OF ok_phases(3) [OF assms], where env = env and i = i and r = r]
  by (simp add: tick_phases(2) finish_tick_frame after_emit_clock_reads)

lemma pool_empty_iff: "sessions p = [] \<longleftrightarrow> (\<forall>i. pool_get p i = None)"
  by (cases "sessions p") (auto simp: pool_get_def dest: spec)

text \<open>
  No session survives a tick once the clock is an hour past its epoch. The creation time of a session is never
  set, so it is the clock's epoch, and the lifetime check compares the clock with that: in every reachable state, if the reading
  the evolution engine takes is at least 3600 seconds, the pool is empty after the tick. Sessions created by that very
  tick are among those closed, and no session is ever reused.
\<close>

theorem pool_emptied_after_an_hour:
  assumes "st = snd (server_run env ops new_server)" and "env_clock env (Suc (hb_clock_reads st)) \<ge> secs 3600"
  shows "sessions (pool_of (snd (tick env st))) = []"
proof -
  have i: "epoch_sessions st" unfolding assms(1) by (rule epoch.inv_run(1) [OF epoch_new]) simp_all
  then have ok: "server_ok st" by (simp add: epoch_sessions_def)
  have "epoch_sessions (after_emit env st)" by (rule epoch.inv_phases(3) [OF i channels_guarded_True])
  then have c: "created0 (pool_of (after_emit env st))" and life: "max_lifetime (pool_of (after_emit env st)) = 3600"
    by (simp_all add: epoch_sessions_def server_ok_def)
  have "pool_get (pool_of (snd (tick env st))) i \<noteq> Some r" for i r
    using assms(2) c by (auto simp: tick_pool_get [OF ok] survives_def life created0_def)
  then show ?thesis unfolding pool_empty_iff by (metis not_None_eq)
qed

theorem pool_emptied_after_an_hour_witness:
  "let env = example_env\<lparr>env_clock := (\<lambda>_. secs 3600)\<rparr>;
       st = snd (server_run env [SendRequest (ReqMsg default_request)] new_server)
   in sessions (pool_of (snd (tick env st))) = []"
  unfolding Let_def
  by (rule pool_emptied_after_an_hour [OF refl]) (simp add: example_env_def)


section \<open>Admission and routing\<close>

lemma bus_upd [simp]:
  "hb_bus (upd_pool f st) = hb_bus st" "hb_bus (upd_pending g st) = hb_bus st"
  "hb_bus (upd_metrics h st) = hb_bus st" "hb_bus (change_session i st) = hb_bus st"
  "hb_bus (change_request i st) = hb_bus st" "hb_bus (snd (read_steady env st)) = hb_bus st"
  "hb_bus (snd (draw_rng env st)) = hb_bus st" "hb_bus (add_ws_frame fr st) = hb_bus st"
  "hb_bus (add_local_job j st) = hb_bus st"
  by (simp_all add: upd_defs builder_defs)

lemma bus_helpers [simp]:
  "hb_bus (snd (acquire_or_create_session env st)) = hb_bus st"
  "hb_bus (bind_request env rid h req st) = hb_bus st"
  "hb_bus (open_local_pending env req st) = hb_bus st"
  by (simp_all add: acquire_or_create_session_def bind_request_def open_local_pending_def Let_def split_beta
      split: option.splits)

lemma inbox_publish [simp]: "inbox (hb_bus (hb_publish_async e st)) = inbox (hb_bus st) @ [(event_type_of e, e)]"
  by (simp add: hb_publish_async_def inbox_publish_async)

lemma acquire_upd_metrics:
  "fst (acquire_or_create_session env (upd_metrics f st)) = fst (acquire_or_create_session env st)"
  "pool_of (snd (acquire_or_create_session env (upd_metrics f st))) = pool_of (snd (acquire_or_create_session env st))"
  by (simp_all add: acquire_or_create_session_def Let_def split_beta read_steady_def draw_rng_def split: option.splits)
    (simp_all add: upd_defs)

lemma mark_active_get_same: "pool_get p i = Some r \<Longrightarrow> pool_get (mark_active i t p) i \<noteq> None"
  by (simp add: mark_active_def store_laws)

lemma acquire_session:
  assumes "server_ok st"
  shows "sh_session_id (fst (acquire_or_create_session env st)) = [] \<Longrightarrow>
      pool_of (snd (acquire_or_create_session env st)) = pool_of st"
    and "sh_session_id (fst (acquire_or_create_session env st)) \<noteq> [] \<Longrightarrow>
      pool_get (pool_of (snd (acquire_or_create_session env st))) (sh_session_id (fst (acquire_or_create_session env st))) \<noteq> None"
proof -
  let ?p = "pool_of st"
  have wf: "pool_wf ?p" and un: "pool_get ?p [] = None" using assms by (simp_all add: server_ok_def)
  have idle: "pool_get ?p (sr_session_id r) = Some r" if "find_idle_least_recently_used ?p = Some r" for r
    using find_idle_SomeD [OF wf that] by simp
  show "sh_session_id (fst (acquire_or_create_session env st)) = [] \<Longrightarrow>
      pool_of (snd (acquire_or_create_session env st)) = pool_of st"
    using idle un by (auto simp: acquire_or_create_session_def Let_def split_beta generate_session_id_def pool_add_def
        split: option.splits if_splits)
  show "sh_session_id (fst (acquire_or_create_session env st)) \<noteq> [] \<Longrightarrow>
      pool_get (pool_of (snd (acquire_or_create_session env st))) (sh_session_id (fst (acquire_or_create_session env st))) \<noteq> None"
    using idle mark_active_get_same
    by (auto simp: acquire_or_create_session_def Let_def split_beta pool_add_def split: option.splits if_splits)
      (simp add: pool_get_def update_conv')
qed

lemma open_local_get:
  "map_option pr_state (pending_get (pending_of (open_local_pending env req st)) (rq_request_id req)) = Some StreamingAudio"
  by (auto simp: open_local_pending_def Let_def split_beta store_laws local_pending_def split: option.splits)

lemma bind_get:
  "map_option (\<lambda>p. (pr_state p, pr_session_id p)) (pending_get (pending_of (bind_request env rid h req st)) rid) =
     Some (AwaitingSession, sh_session_id h)"
  by (simp add: bind_request_def Let_def split_beta store_laws)

lemma builder_changeset:
  "hb_changeset (add_local_job j st) = (hb_changeset st)\<lparr>local_jobs := local_jobs (hb_changeset st) @ [j]\<rparr>"
  "hb_changeset (add_ws_frame f st) = (hb_changeset st)\<lparr>ws_frames := ws_frames (hb_changeset st) @ [f]\<rparr>"
  by (simp_all add: builder_defs)

lemma set_current_request_get:
  "pool_get p i \<noteq> None \<Longrightarrow> map_option sr_current_request_id (pool_get (set_current_request i j p) i) = Some j"
  by (auto simp: set_current_request_def store_laws split: option.splits)

lemma local_outcome:
  "let st' = handle_request_local env req st in
   pool_of st' = pool_of st \<and> hb_bus st' = hb_bus st \<and>
   map_option pr_state (pending_get (pending_of st') (rq_request_id req)) = Some StreamingAudio \<and>
   hb_changeset st' = (hb_changeset st)\<lparr>local_jobs := local_jobs (hb_changeset st) @ [local_job req]\<rparr>"
  using open_local_get [of env req st] by (simp add: handle_request_local_def Let_def builder_changeset)

lemma upstream_outcome:
  assumes "server_ok st" and "sh_session_id (fst (acquire_or_create_session env st)) \<noteq> []"
  shows "let st' = handle_request_upstream env req st; h = fst (acquire_or_create_session env st); sid = sh_session_id h in
   hb_bus st' = hb_bus st \<and>
   map_option (\<lambda>p. (pr_state p, pr_session_id p)) (pending_get (pending_of st') (rq_request_id req)) = Some (AwaitingSession, sid) \<and>
   map_option sr_current_request_id (pool_get (pool_of st') sid) = Some (rq_request_id req) \<and>
   hb_changeset st' = (hb_changeset st)\<lparr>ws_frames := ws_frames (hb_changeset st) @
     (if sh_reused h then [] else [start_frame env req sid]) @ [continue_frame env req sid]\<rparr>"
  using bind_get [of env "rq_request_id req" "fst (acquire_or_create_session env st)" req "snd (acquire_or_create_session env st)"]
    set_current_request_get [OF acquire_session(2) [OF assms]] assms(2)
  by (simp add: handle_request_upstream_def Let_def builder_changeset split_beta)




section \<open>Audio from upstream\<close>

lemma audio_chunk_step:
  assumes "pool_get (pool_of st) sid = Some r" and "sr_current_request_id r = rid" and "rid \<noteq> []"
    and "rs_session_id rsp = sid" and "rs_kind rsp = WsAudioChunk"
  shows "pool_of (handle_response env rsp st) = pool_of st"
    and "pending_of (handle_response env rsp st) = snd (append_chunk rid (hex_decode (rs_audio_hex rsp)) (rs_is_final rsp)
           (rs_usage_characters rsp) (env_steady env (hb_steady_reads st)) (pending_of st))"
  using assms by (simp_all add: handle_response_def current_request_def Let_def split_beta)
    (simp add: read_steady_def)

definition busy_server :: server where
  "busy_server = upd_pending (pending_add (default_pending\<lparr>pr_request_id := ''r'', pr_session_id := ''s''\<rparr>) 0)
     (upd_pool (\<lambda>p. snd (pool_add (default_session\<lparr>sr_session_id := ''s'', sr_state := Streaming,
        sr_current_request_id := ''r''\<rparr>) p)) new_server)"

lemma busy_server_board:
  "pool_get (pool_of busy_server) ''s'' = Some (default_session\<lparr>sr_session_id := ''s'', sr_state := Streaming,
     sr_current_request_id := ''r''\<rparr>)"
  "pending_get (pending_of busy_server) ''r'' = Some (default_pending\<lparr>pr_request_id := ''r'', pr_session_id := ''s''\<rparr>)"
  by (simp_all add: busy_server_def store_laws)
    (simp_all add: new_server_def new_board_def new_pool_def default_pending_def)

lemma busy_server_ok: "server_ok busy_server"
  unfolding busy_server_def
  by (intro ok_upd ok_new_server pool_ops_ok pending_ops_wf)
    (simp_all add: server_okD [OF ok_new_server] default_session_def bytes_counted_def default_pending_def)

text \<open>
  C23. Upstream audio arrives intact: while a session serves a request, the audio chunks of that session are appended to
  that request, hex-decoded, in order and without loss; its byte count grows by what was appended, it is final as
  soon as one chunk was, and no other request, session or pending change is touched.
\<close>

theorem upstream_audio_intact:
  assumes "pool_get (pool_of st) sid = Some r" and "sr_current_request_id r = rid" and "rid \<noteq> []"
    and "pending_get (pending_of st) rid = Some p"
    and "\<forall>rsp \<in> set rsps. rs_session_id rsp = sid \<and> rs_kind rsp = WsAudioChunk"
  shows "let st' = fold (handle_response env) rsps st; audio = concat (map (\<lambda>rsp. hex_decode (rs_audio_hex rsp)) rsps) in
    \<exists>p'. pending_get (pending_of st') rid = Some p' \<and>
      pr_accumulated_audio p' = pr_accumulated_audio p @ audio \<and>
      pr_cumulative_bytes p' = pr_cumulative_bytes p + int (length audio) \<and>
      pr_final_received p' = (pr_final_received p \<or> list_ex rs_is_final rsps) \<and>
      pr_state p' = pr_state p \<and> pool_of st' = pool_of st \<and> hb_changeset st' = hb_changeset st \<and>
      (\<forall>j. j \<noteq> rid \<longrightarrow> pending_get (pending_of st') j = pending_get (pending_of st) j)"
  using assms
proof (induction rsps arbitrary: st p)
  case (Cons rsp rsps)
  let ?st = "handle_response env rsp st"
  have rsp: "rs_session_id rsp = sid" "rs_kind rsp = WsAudioChunk" using Cons.prems(5) by simp_all
  note step = audio_chunk_step [OF Cons.prems(1-3) rsp, of env]
  obtain p1 where p1: "pending_get (pending_of ?st) rid = Some p1"
    and f: "pr_accumulated_audio p1 = pr_accumulated_audio p @ hex_decode (rs_audio_hex rsp)"
      "pr_cumulative_bytes p1 = pr_cumulative_bytes p + int (length (hex_decode (rs_audio_hex rsp)))"
      "pr_final_received p1 = (pr_final_received p \<or> rs_is_final rsp)" "pr_state p1 = pr_state p"
    using Cons.prems(4) by (auto simp: step store_laws)
  have o: "pending_get (pending_of ?st) j = pending_get (pending_of st) j" if "j \<noteq> rid" for j
    using that by (simp add: step store_laws)
  have "pool_get (pool_of ?st) sid = Some r" using Cons.prems(1) by (simp add: step)
  from Cons.IH [OF this Cons.prems(2,3) p1] Cons.prems(5) f o show ?case
    by (auto simp: Let_def step)
qed (simp add: Let_def)


theorem upstream_audio_intact_witness:
  "let rsp = default_response\<lparr>rs_session_id := ''s'', rs_kind := WsAudioChunk, rs_audio_hex := ''0aFF''\<rparr> in
   \<exists>p'. pending_get (pending_of (fold (handle_response example_env) [rsp, rsp] busy_server)) ''r'' = Some p' \<and>
     pr_accumulated_audio p' = [10, 255, 10, 255] \<and> \<not> pr_final_received p'"
proof -
  let ?rsp = "default_response\<lparr>rs_session_id := ''s'', rs_kind := WsAudioChunk, rs_audio_hex := ''0aFF''\<rparr>"
  have h: "hex_decode ''0aFF'' = [10, 255]" by (simp add: hex_decode_def nibble_def)
  have f: "\<not> rs_is_final ?rsp" "rs_audio_hex ?rsp = ''0aFF''" by (simp_all add: default_response_def)
  have a: "\<forall>rsp \<in> set [?rsp, ?rsp]. rs_session_id rsp = ''s'' \<and> rs_kind rsp = WsAudioChunk" by simp
  from upstream_audio_intact [OF busy_server_board(1) _ _ busy_server_board(2) a, of example_env] f h
  show ?thesis by (auto simp: Let_def default_pending_def)
qed

section \<open>Requests that disappear\<close>

lemma terminal_vanishes:
  assumes "server_ok st" and "hb_changeset st = empty_change_set" and "concat (map answers (tick_batch st)) = []"
    and "pending_get (pending_of (after_batch env st)) rid = Some p" and "pr_state p = Failed \<or> pr_state p = Cancelled"
  shows "pending_get (pending_of (snd (tick env st))) rid = None"
    and "rid \<notin> wc_request_id ` set (client_writes (fst (tick env st)))"
proof -
  have wf: "pending_wf (pending_of (after_batch env st))" using ok_phases(2) [OF assms(1)] by (simp add: server_ok_def)
  have "pending_get (pending_of (snd (tick env st))) rid \<noteq> Some q" for q
    using assms(4,5) by (auto simp: tick_pending_get [OF assms(1)])
  then show "pending_get (pending_of (snd (tick env st))) rid = None" by (metis not_None_eq)
  have "rid \<notin> set (find_ready_to_emit (pending_of (after_batch env st)))"
    using assms(4,5) by (auto simp: find_ready_to_emit_set [OF wf])
  then show "rid \<notin> wc_request_id ` set (client_writes (fst (tick env st)))"
    by (auto simp: tick_writes [OF assms(1,2)] assms(3) emitted_write_def)
qed

lemma fold_drop_get:
  "pending_get (pending_of (fold drop_pending ids st)) i = (if i \<in> set ids
     then map_option (\<lambda>p. p\<lparr>pr_state := Failed\<rparr>) (pending_get (pending_of st) i)
     else pending_get (pending_of st) i)"
  by (induction ids arbitrary: st) (auto simp: drop_pending_def store_laws option.map_comp comp_def)

lemma fold_fail_get:
  "map_option pr_state (pending_get (pending_of (fold (fail_pending rsp) ids st)) i) = (if i \<in> set ids
     then map_option (\<lambda>_. Failed) (pending_get (pending_of st) i)
     else map_option pr_state (pending_get (pending_of st) i))"
  by (induction ids arbitrary: st) (auto simp: fail_pending_def Let_def store_laws option.map_comp comp_def)

text \<open>The messages after which a request of the store is failed or cancelled.\<close>

fun terminates :: "message \<Rightarrow> string \<Rightarrow> pending_request \<Rightarrow> bool" where
  "terminates (CancelMsg c) rid p = (cn_request_id c = rid)"
| "terminates (RspMsg r) rid p =
     (rs_session_id r = pr_session_id p \<and> (rs_kind r = WsTaskFailed \<or> rs_kind r = WsDisconnected))"
| "terminates _ rid p = False"

lemma terminates_state:
  assumes "server_ok st" and "pending_get (pending_of st) rid = Some p" and "terminates m rid p"
  obtains q where "pending_get (pending_of (handle_message env m st)) rid = Some q"
    and "pr_state q = Failed \<or> pr_state q = Cancelled"
proof (cases m)
  case (RspMsg r)
  have wf: "pending_wf (pending_of st)" using assms(1) by (simp add: server_ok_def)
  have m: "rid \<in> set (collect_by_session (rs_session_id r) (pending_of st))"
    using assms RspMsg by (auto simp: collect_by_session_set [OF wf])
  let ?ids = "collect_by_session (rs_session_id r) (pending_of st)"
  from fold_fail_get [of r ?ids st rid] fold_drop_get [of ?ids st rid] m assms RspMsg that show thesis
    by (auto simp: handle_response_def Let_def)
qed (use assms that in \<open>auto simp: handle_cancel_def store_laws\<close>)



definition cancelling_server :: server where
  "cancelling_server = busy_server\<lparr>hb_request_channel := new_channel\<lparr>buffer :=
     [CancelMsg \<lparr>cn_request_id = ''r'', cn_reason = ''client left''\<rparr>]\<rparr>\<rparr>"


section \<open>Counting ticks\<close>

lemma count_frame [simp]:
  "hb_count (upd_pending f st) = hb_count st" "hb_count (upd_pool g st) = hb_count st" "hb_count (upd_metrics h st) = hb_count st"
  "hb_count (change_session i st) = hb_count st" "hb_count (change_request i st) = hb_count st"
  "hb_count (add_client_write w st) = hb_count st" "hb_count (add_local_job j st) = hb_count st" "hb_count (add_ws_frame fr st) = hb_count st"
  "hb_count (add_close c st) = hb_count st" "hb_count (hb_publish_async e st) = hb_count st" "hb_count (hb_publish_sync e st) = hb_count st"
  "hb_count (snd (read_steady env st)) = hb_count st" "hb_count (snd (read_clock env st)) = hb_count st"
  "hb_count (snd (acquire_or_create_session env st)) = hb_count st" "hb_count (bind_request env r k q st) = hb_count st"
  by (simp_all add: upd_defs builder_defs hb_publish_async_def hb_publish_sync_def acquire_or_create_session_def bind_request_def
      split_beta Let_def split: option.split)

lemma count_folds [simp]:
  "hb_count (fold (fail_pending rsp) ids st) = hb_count st" "hb_count (fold drop_pending ids st) = hb_count st"
  "hb_count (fold add_close cs st) = hb_count st"
  by (induction ids arbitrary: st, simp_all add: fail_pending_def drop_pending_def Let_def) (induction cs arbitrary: st, simp_all)

lemma count_message [simp]: "hb_count (handle_message env m st) = hb_count st"
  by (cases m) (simp_all add: handle_request_def handle_request_local_def handle_request_upstream_def open_local_pending_def
      handle_response_def handle_local_complete_def handle_local_failed_def handle_cancel_def split_beta Let_def
      split: option.split ws_event_kind.split)

lemma count_emit [simp]: "hb_count (emit_completed i st) = hb_count st"
  by (simp add: emit_completed_def Let_def split: option.split)

lemma count_batch: "hb_count (fold (handle_message env) ms st) = hb_count st"
  by (induction ms arbitrary: st) simp_all

lemma count_emits: "hb_count (fold emit_completed ids st) = hb_count st"
  by (induction ids arbitrary: st) simp_all

lemma count_evolution: "hb_count (run_evolution env st) = hb_count st"
  by (simp add: run_evolution_def split_beta Let_def)

lemma count_start: "hb_count (tick_start env st) = hb_count st"
  by (simp add: tick_start_def drain_batch_result)

lemma tick_counts: "hb_count (snd (tick env st)) = hb_count st + 1"
  by (simp add: tick_phases(2) finish_tick_def split_beta Let_def count_evolution count_emits count_batch count_start after_emit_def after_batch_def)

text \<open>
  The statistics count the ticks: after any run, \<^verbatim>\<open>stats\<close> gives the number of its ticks, in 64-bit arithmetic.
\<close>

theorem stats_count_ticks:
  "st_heartbeat_count (heartbeat_stats_of (snd (server_run env ops new_server))) = of_nat (count_list ops Tick)"
proof -
  have "hb_count (snd (server_run env ops st)) = hb_count st + of_nat (count_list ops Tick)" for st
  proof (induction ops arbitrary: st)
    case (Cons op ops)
    have "hb_count (snd (server_step env op st)) = hb_count st + (if op = Tick then 1 else 0)"
      by (cases op) (simp_all add: split_beta tick_counts bus_work_def Let_def split: prod.split option.split)
    then show ?case using Cons.IH [of "snd (server_step env op st)"] by (simp add: split_beta)
  qed simp
  then show ?thesis by (simp add: heartbeat_stats_of_def new_server_def)
qed

end
