(* ===== verification/Request_Parser.thy ===== *)
theory Request_Parser
  imports Messages
begin

text \<open>
  Requests and responses at the gRPC boundary: \<^verbatim>\<open>src/entry/request_parser.cpp\<close> and
  \<^verbatim>\<open>src/entry/grpc_response_writer.cpp\<close>, on the messages of \<^verbatim>\<open>proto/tts.proto\<close>. Fields the code does not read
  are left out. Proto3 enums are open, so an enum field is the \<open>int\<close> that was received. A thrown
  \<^verbatim>\<open>ParseError\<close> is the left value of a sum.
\<close>

section \<open>Protocol messages\<close>

record voice_setting_proto =
  pv_voice_id :: string
  pv_speed :: f32
  pv_vol :: f32
  pv_pitch :: int
  pv_emotion :: int
  pv_english_normalization :: bool

record audio_setting_proto =
  pa_sample_rate :: int
  pa_bitrate :: int
  pa_format :: int
  pa_channel :: int

record pronunciation_dict =
  pd_tone :: "string list"

record timbre_weight =
  tw_voice_id :: string
  tw_weight :: int

record voice_modify =
  vm_pitch :: int
  vm_intensity :: int
  vm_timbre :: int

record synthesize_request =
  sp_text :: string
  sp_model :: int
  sp_voice :: voice_setting_proto
  sp_audio :: audio_setting_proto
  sp_pronunciation :: pronunciation_dict
  sp_timbre_weights :: "timbre_weight list"
  sp_language_boost :: int
  sp_voice_modify :: voice_modify
  sp_backend :: int

datatype text_chunk = ChunkText string | ChunkFinish | ChunkNotSet

record audio_meta =
  am_sample_rate :: int
  am_channels :: int
  am_format :: int
  am_audio_length_ms :: int
  am_audio_size_bytes :: int
  am_usage_characters :: int

record synthesize_response =
  so_audio :: bytes
  so_meta :: audio_meta
  so_is_final :: bool
  so_cumulative_bytes :: int
  so_status_code :: int
  so_status_msg :: string
  so_trace_id :: string

definition empty_request :: synthesize_request where
  "empty_request = \<lparr>sp_text = [], sp_model = 0,
     sp_voice = \<lparr>pv_voice_id = [], pv_speed = 0, pv_vol = 0, pv_pitch = 0, pv_emotion = 0, pv_english_normalization = False\<rparr>,
     sp_audio = \<lparr>pa_sample_rate = 0, pa_bitrate = 0, pa_format = 0, pa_channel = 0\<rparr>,
     sp_pronunciation = \<lparr>pd_tone = []\<rparr>, sp_timbre_weights = [], sp_language_boost = 0,
     sp_voice_modify = \<lparr>vm_pitch = 0, vm_intensity = 0, vm_timbre = 0\<rparr>, sp_backend = 0\<rparr>"

text \<open>The enumerations, whose values a field of a message carries as numbers; a number outside them is possible.\<close>

datatype proto_model = MODEL_UNSPECIFIED | SPEECH_2_8_HD | SPEECH_2_8_TURBO | SPEECH_2_6_HD | SPEECH_2_6_TURBO
  | SPEECH_02_HD | SPEECH_02_TURBO | SPEECH_01_HD | SPEECH_01_TURBO

fun model_number :: "proto_model \<Rightarrow> int" where
  "model_number MODEL_UNSPECIFIED = 0"
| "model_number SPEECH_2_8_HD = 1"
| "model_number SPEECH_2_8_TURBO = 2"
| "model_number SPEECH_2_6_HD = 3"
| "model_number SPEECH_2_6_TURBO = 4"
| "model_number SPEECH_02_HD = 5"
| "model_number SPEECH_02_TURBO = 6"
| "model_number SPEECH_01_HD = 7"
| "model_number SPEECH_01_TURBO = 8"

datatype proto_format = AUDIO_FORMAT_UNSPECIFIED | MP3 | PCM | FLAC | WAV | PCMU_RAW | PCMU_WAV | OPUS

fun format_number :: "proto_format \<Rightarrow> int" where
  "format_number AUDIO_FORMAT_UNSPECIFIED = 0"
| "format_number MP3 = 1"
| "format_number PCM = 2"
| "format_number FLAC = 3"
| "format_number WAV = 4"
| "format_number PCMU_RAW = 5"
| "format_number PCMU_WAV = 6"
| "format_number OPUS = 7"

datatype proto_emotion = EMOTION_UNSPECIFIED | HAPPY | SAD | ANGRY | FEARFUL | DISGUSTED | SURPRISED | CALM | FLUENT | WHISPER

fun emotion_number :: "proto_emotion \<Rightarrow> int" where
  "emotion_number EMOTION_UNSPECIFIED = 0"
| "emotion_number HAPPY = 1"
| "emotion_number SAD = 2"
| "emotion_number ANGRY = 3"
| "emotion_number FEARFUL = 4"
| "emotion_number DISGUSTED = 5"
| "emotion_number SURPRISED = 6"
| "emotion_number CALM = 7"
| "emotion_number FLUENT = 8"
| "emotion_number WHISPER = 9"

datatype proto_language_boost = LANGUAGE_BOOST_UNSPECIFIED | AUTO | CHINESE | ENGLISH | JAPANESE | KOREAN

fun language_boost_number :: "proto_language_boost \<Rightarrow> int" where
  "language_boost_number LANGUAGE_BOOST_UNSPECIFIED = 0"
| "language_boost_number AUTO = 1"
| "language_boost_number CHINESE = 2"
| "language_boost_number ENGLISH = 3"
| "language_boost_number JAPANESE = 4"
| "language_boost_number KOREAN = 5"

datatype proto_backend = BACKEND_UNSPECIFIED | BACKEND_AUTO | BACKEND_LOCAL | BACKEND_UPSTREAM

fun backend_number :: "proto_backend \<Rightarrow> int" where
  "backend_number BACKEND_UNSPECIFIED = 0"
| "backend_number BACKEND_AUTO = 1"
| "backend_number BACKEND_LOCAL = 2"
| "backend_number BACKEND_UPSTREAM = 3"

section \<open>Parsing\<close>

datatype parse_error = ParseError string

definition to_model :: "int \<Rightarrow> model" where
  "to_model m =
     (if m = 1 then Speech28Hd else if m = 2 then Speech28Turbo else if m = 3 then Speech26Hd
      else if m = 4 then Speech26Turbo else if m = 5 then Speech02Hd else if m = 6 then Speech02Turbo
      else if m = 7 then Speech01Hd else if m = 8 then Speech01Turbo else Model_Unspecified)"

definition to_format :: "int \<Rightarrow> audio_format" where
  "to_format f = (if f = 1 then Mp3 else if f = 2 then Pcm else if f = 3 then Flac else if f = 4 then Wav
     else Fmt_Unspecified)"

definition to_backend :: "int \<Rightarrow> backend" where
  "to_backend b = (if b = 2 then Backend_Local else if b = 3 then Backend_Upstream else Backend_Auto)"

definition emotion_name :: "int \<Rightarrow> string" where
  "emotion_name e =
     (if e = 1 then ''happy'' else if e = 2 then ''sad'' else if e = 3 then ''angry'' else if e = 4 then ''fearful''
      else if e = 5 then ''disgusted'' else if e = 6 then ''surprised'' else if e = 7 then ''calm''
      else if e = 8 then ''fluent'' else if e = 9 then ''whisper'' else [])"

definition apply_voice :: "voice_setting_proto \<Rightarrow> voice_settings \<Rightarrow> voice_settings" where
  "apply_voice src dst =
     (let dst = (if pv_voice_id src \<noteq> [] then dst\<lparr>vs_voice_id := pv_voice_id src\<rparr> else dst);
          dst = (if f32_nonzero (pv_speed src) then dst\<lparr>vs_speed := pv_speed src\<rparr> else dst);
          dst = (if f32_nonzero (pv_vol src) then dst\<lparr>vs_vol := pv_vol src\<rparr> else dst);
          dst = dst\<lparr>vs_pitch := pv_pitch src\<rparr>;
          dst = (if pv_emotion src \<noteq> 0 then dst\<lparr>vs_emotion := Some (emotion_name (pv_emotion src))\<rparr> else dst)
      in dst\<lparr>vs_english_normalization := pv_english_normalization src\<rparr>)"

definition apply_audio :: "audio_setting_proto \<Rightarrow> audio_settings \<Rightarrow> audio_settings" where
  "apply_audio src dst =
     (let dst = (if pa_sample_rate src \<noteq> 0 then dst\<lparr>as_sample_rate := pa_sample_rate src\<rparr> else dst);
          dst = (if pa_bitrate src \<noteq> 0 then dst\<lparr>as_bitrate := pa_bitrate src\<rparr> else dst);
          dst = (if pa_channel src \<noteq> 0 then dst\<lparr>as_channel := pa_channel src\<rparr> else dst)
      in if pa_format src \<noteq> 0 then dst\<lparr>as_format := to_format (pa_format src)\<rparr> else dst)"

definition enforce_audio_invariants :: "audio_settings \<Rightarrow> parse_error + unit" where
  "enforce_audio_invariants a =
     (if as_sample_rate a \<noteq> 8000 \<and> as_sample_rate a \<noteq> 16000 then Inl (ParseError ''sample_rate must be 8000 or 16000'')
      else if as_channel a \<noteq> 1 then Inl (ParseError ''channel must be 1 (mono)'')
      else if as_format a \<noteq> Mp3 \<and> as_format a \<noteq> Pcm then Inl (ParseError ''format must be mp3 or pcm in MVP'')
      else Inr ())"

definition parse_unary :: "synthesize_request \<Rightarrow> string \<Rightarrow> parse_error + tts_request_msg" where
  "parse_unary proto rid =
     (let r = default_request\<lparr>rq_request_id := rid, rq_kind := OpenStream, rq_text := sp_text proto,
            rq_model := to_model (sp_model proto)\<rparr>;
          r = r\<lparr>rq_voice := apply_voice (sp_voice proto) (rq_voice r)\<rparr>;
          r = r\<lparr>rq_audio := apply_audio (sp_audio proto) (rq_audio r)\<rparr>
      in case enforce_audio_invariants (rq_audio r) of
           Inl e \<Rightarrow> Inl e
         | Inr _ \<Rightarrow> Inr (r\<lparr>rq_backend := to_backend (sp_backend proto)\<rparr>))"

definition chunk_settings :: "synthesize_request \<Rightarrow> bool \<Rightarrow> tts_request_msg \<Rightarrow> parse_error + tts_request_msg" where
  "chunk_settings initial first r =
     (if first then
        (let r = r\<lparr>rq_kind := OpenStream, rq_model := to_model (sp_model initial)\<rparr>;
             r = r\<lparr>rq_voice := apply_voice (sp_voice initial) (rq_voice r)\<rparr>;
             r = r\<lparr>rq_audio := apply_audio (sp_audio initial) (rq_audio r)\<rparr>
         in case enforce_audio_invariants (rq_audio r) of
              Inl e \<Rightarrow> Inl e
            | Inr _ \<Rightarrow> Inr (r\<lparr>rq_backend := to_backend (sp_backend initial)\<rparr>))
      else Inr (r\<lparr>rq_kind := StreamChunk\<rparr>))"

definition parse_chunk ::
  "text_chunk \<Rightarrow> string \<Rightarrow> synthesize_request \<Rightarrow> bool \<Rightarrow> parse_error + tts_request_msg" where
  "parse_chunk chunk rid initial first =
     (case chunk_settings initial first (default_request\<lparr>rq_request_id := rid\<rparr>) of
        Inl e \<Rightarrow> Inl e
      | Inr r \<Rightarrow> Inr (case chunk of
          ChunkText t \<Rightarrow> r\<lparr>rq_text := t\<rparr>
        | ChunkFinish \<Rightarrow> r\<lparr>rq_kind := FinishStream, rq_text := []\<rparr>
        | ChunkNotSet \<Rightarrow> r))"

section \<open>Responses\<close>

fun format_to_proto :: "audio_format \<Rightarrow> int" where
  "format_to_proto Mp3 = 1"
| "format_to_proto Pcm = 2"
| "format_to_proto Flac = 3"
| "format_to_proto Wav = 4"
| "format_to_proto Fmt_Unspecified = 0"

definition to_proto :: "write_to_client \<Rightarrow> synthesize_response" where
  "to_proto w = \<lparr>so_audio = wc_audio w,
     so_meta = \<lparr>am_sample_rate = wc_sample_rate w, am_channels = wc_channels w, am_format = format_to_proto (wc_format w),
       am_audio_length_ms = wc_audio_length_ms w, am_audio_size_bytes = int (length (wc_audio w)),
       am_usage_characters = wc_audio_length_ms w\<rparr>,
     so_is_final = wc_is_final w, so_cumulative_bytes = wc_cumulative_bytes w, so_status_code = wc_status_code w,
     so_status_msg = wc_status_msg w, so_trace_id = wc_trace_id w\<rparr>"

section \<open>Lemmas\<close>

definition effective :: "int \<Rightarrow> int \<Rightarrow> int" where
  "effective given dflt = (if given = 0 then dflt else given)"

lemma apply_audio_fields:
  "as_sample_rate (apply_audio src default_audio_settings) = effective (pa_sample_rate src) 16000"
  "as_channel (apply_audio src default_audio_settings) = effective (pa_channel src) 1"
  "as_bitrate (apply_audio src default_audio_settings) = effective (pa_bitrate src) 128000"
  "as_format (apply_audio src default_audio_settings) = (if pa_format src = 0 then Mp3 else to_format (pa_format src))"
  by (simp_all add: apply_audio_def default_audio_settings_def effective_def Let_def)

lemma to_format_cases: "to_format f = Mp3 \<longleftrightarrow> f = 1" "to_format f = Pcm \<longleftrightarrow> f = 2"
  by (simp_all add: to_format_def)

lemma default_request_audio: "rq_audio default_request = default_audio_settings"
  by (simp add: default_request_def)

lemma enforce_ok: "enforce_audio_invariants a = Inr () \<longleftrightarrow>
    (as_sample_rate a = 8000 \<or> as_sample_rate a = 16000) \<and> as_channel a = 1 \<and> (as_format a = Mp3 \<or> as_format a = Pcm)"
  by (auto simp: enforce_audio_invariants_def)

text \<open>The audio settings the service accepts, in terms of what was received (0 stands for "not set").\<close>

definition acceptable_audio :: "audio_setting_proto \<Rightarrow> bool" where
  "acceptable_audio a \<longleftrightarrow> pa_sample_rate a \<in> {0, 8000, 16000} \<and> pa_channel a \<in> {0, 1} \<and> pa_format a \<in> {0, 1, 2}"

lemma enforce_applied:
  "enforce_audio_invariants (apply_audio src default_audio_settings) = Inr () \<longleftrightarrow> acceptable_audio src"
  unfolding enforce_ok apply_audio_fields acceptable_audio_def effective_def by (auto simp: to_format_cases)

section \<open>Properties\<close>

text \<open>
  C34. Parsing a unary request: it succeeds exactly when the sample rate is unset, 8000 or 16000, the channel count
  unset or 1, and the format unset, MP3 or PCM; the result then carries the id, text, model and backend of the request and
  audio settings within those limits; otherwise it is an error naming the first setting that is out of range.
\<close>

theorem parse_unary_accepts:
  "(case parse_unary proto rid of
      Inr r \<Rightarrow> acceptable_audio (sp_audio proto) \<and> rq_request_id r = rid \<and> rq_text r = sp_text proto \<and>
        rq_kind r = OpenStream \<and> rq_model r = to_model (sp_model proto) \<and> rq_backend r = to_backend (sp_backend proto) \<and>
        rq_voice r = apply_voice (sp_voice proto) default_voice_settings \<and>
        as_sample_rate (rq_audio r) \<in> {8000, 16000} \<and> as_channel (rq_audio r) = 1 \<and> as_format (rq_audio r) \<in> {Mp3, Pcm} \<and>
        as_sample_rate (rq_audio r) = effective (pa_sample_rate (sp_audio proto)) 16000
    | Inl e \<Rightarrow> \<not> acceptable_audio (sp_audio proto) \<and>
        e = ParseError (if pa_sample_rate (sp_audio proto) \<notin> {0, 8000, 16000} then ''sample_rate must be 8000 or 16000''
              else if pa_channel (sp_audio proto) \<notin> {0, 1} then ''channel must be 1 (mono)''
              else ''format must be mp3 or pcm in MVP''))"
proof -
  let ?a = "apply_audio (sp_audio proto) default_audio_settings"
  show ?thesis
  proof (cases "acceptable_audio (sp_audio proto)")
    case True
    then have "enforce_audio_invariants ?a = Inr ()" by (simp add: enforce_applied)
    with True show ?thesis
      by (auto simp: parse_unary_def Let_def default_request_audio apply_audio_fields acceptable_audio_def effective_def
          to_format_def default_request_def)
  next
    case False
    then show ?thesis
      by (auto simp: parse_unary_def Let_def default_request_audio enforce_audio_invariants_def apply_audio_fields
          acceptable_audio_def effective_def to_format_cases)
  qed
qed

text \<open>
  Parsing the chunks of a client stream: a chunk that is not the first is never rejected and keeps the default settings;
  a finish mark always yields an empty FinishStream request; and the first chunk is rejected exactly when the
  initial settings are out of range, never with the empty settings that the service passes.
\<close>

theorem parse_chunk_cases:
  "(\<exists>r. parse_chunk chunk rid initial False = Inr r \<and> rq_request_id r = rid \<and>
      rq_voice r = default_voice_settings \<and> rq_audio r = default_audio_settings \<and> rq_backend r = Backend_Auto \<and>
      rq_kind r = (if chunk = ChunkFinish then FinishStream else StreamChunk) \<and>
      rq_text r = (case chunk of ChunkText t \<Rightarrow> t | _ \<Rightarrow> [])) \<and>
   ((\<exists>r. parse_chunk chunk rid initial True = Inr r) \<longleftrightarrow> acceptable_audio (sp_audio initial)) \<and>
   (\<exists>r. parse_chunk chunk rid empty_request True = Inr r \<and> rq_model r = Model_Unspecified)"
proof (intro conjI)
  show "\<exists>r. parse_chunk chunk rid initial False = Inr r \<and> rq_request_id r = rid \<and>
      rq_voice r = default_voice_settings \<and> rq_audio r = default_audio_settings \<and> rq_backend r = Backend_Auto \<and>
      rq_kind r = (if chunk = ChunkFinish then FinishStream else StreamChunk) \<and>
      rq_text r = (case chunk of ChunkText t \<Rightarrow> t | _ \<Rightarrow> [])"
    by (cases chunk) (simp_all add: parse_chunk_def chunk_settings_def default_request_def)
  show "(\<exists>r. parse_chunk chunk rid initial True = Inr r) \<longleftrightarrow> acceptable_audio (sp_audio initial)"
    by (auto simp: parse_chunk_def chunk_settings_def Let_def default_request_audio simp flip: enforce_applied
        split: sum.splits)
  have "enforce_audio_invariants (apply_audio (sp_audio empty_request) default_audio_settings) = Inr ()"
    by (simp add: enforce_applied acceptable_audio_def empty_request_def)
  then show "\<exists>r. parse_chunk chunk rid empty_request True = Inr r \<and> rq_model r = Model_Unspecified"
    by (cases chunk) (simp_all add: parse_chunk_def chunk_settings_def Let_def default_request_audio,
        simp_all add: empty_request_def to_model_def)
qed

text \<open>What a client reads off a response: everything of the write but the request id and a separate usage count.\<close>

definition client_view :: "string \<Rightarrow> synthesize_response \<Rightarrow> write_to_client" where
  "client_view rid resp = \<lparr>wc_request_id = rid, wc_audio = so_audio resp, wc_sample_rate = am_sample_rate (so_meta resp),
     wc_channels = am_channels (so_meta resp), wc_format = to_format (am_format (so_meta resp)), wc_is_final = so_is_final resp,
     wc_cumulative_bytes = so_cumulative_bytes resp, wc_audio_length_ms = am_audio_length_ms (so_meta resp),
     wc_status_code = so_status_code resp, wc_status_msg = so_status_msg resp, wc_trace_id = so_trace_id resp\<rparr>"

text \<open>
  A response carries its write: the client can read back every field of the write, with the audio byte for byte and the
  size field equal to its length; the usage field, however, repeats the audio length in milliseconds.
\<close>

theorem response_roundtrip:
  "client_view (wc_request_id w) (to_proto w) = w \<and>
   am_audio_size_bytes (so_meta (to_proto w)) = int (length (wc_audio w)) \<and>
   am_usage_characters (so_meta (to_proto w)) = am_audio_length_ms (so_meta (to_proto w))"
proof -
  have "to_format (format_to_proto f) = f" for f by (cases f) (simp_all add: to_format_def)
  then show ?thesis by (cases w) (simp add: client_view_def to_proto_def)
qed

text \<open>
  The numbers of the protocol name what the parser takes them for: the printed name of the model a number stands for is the
  constant's name in the form of the upstream API, and of the eight audio formats exactly MP3, PCM or none at all are served.
\<close>

theorem enumerations_parsed:
  "map (\<lambda>m. model_to_string (to_model (model_number m)))
     [SPEECH_2_8_HD, SPEECH_2_8_TURBO, SPEECH_2_6_HD, SPEECH_2_6_TURBO, SPEECH_02_HD, SPEECH_02_TURBO, SPEECH_01_HD, SPEECH_01_TURBO] =
     [''speech-2.8-hd'', ''speech-2.8-turbo'', ''speech-2.6-hd'', ''speech-2.6-turbo'', ''speech-02-hd'', ''speech-02-turbo'',
      ''speech-01-hd'', ''speech-01-turbo''] \<and>
   map (\<lambda>e. emotion_name (emotion_number e)) [HAPPY, SAD, ANGRY, FEARFUL, DISGUSTED, SURPRISED, CALM, FLUENT, WHISPER] =
     [''happy'', ''sad'', ''angry'', ''fearful'', ''disgusted'', ''surprised'', ''calm'', ''fluent'', ''whisper''] \<and>
   to_backend (backend_number BACKEND_LOCAL) = Backend_Local \<and> to_backend (backend_number BACKEND_UPSTREAM) = Backend_Upstream \<and>
   (acceptable_audio ((sp_audio empty_request)\<lparr>pa_format := format_number f\<rparr>) \<longleftrightarrow> f \<in> {AUDIO_FORMAT_UNSPECIFIED, MP3, PCM})"
  by (cases f) (simp_all add: to_model_def emotion_name_def to_backend_def acceptable_audio_def empty_request_def)

text \<open>
  The parser ignores half of a request: pronunciation, timbre weights, language boost and voice effects reach neither backend.
\<close>

theorem upstream_settings_ignored:
  "parse_unary (proto\<lparr>sp_pronunciation := d, sp_timbre_weights := ts, sp_language_boost := l, sp_voice_modify := v\<rparr>) rid =
     parse_unary proto rid"
  by (simp add: parse_unary_def Let_def split: sum.split)

end
