(* ===== verification/Decimal.thy ===== *)
theory Decimal
  imports Tts_Prelude
begin

text \<open>
  \<^verbatim>\<open>std::to_string\<close> on unsigned integers, which the program prints its ids with: \<^verbatim>\<open>generate_request_id\<close> in
  \<^verbatim>\<open>src/entry/tts_service_impl.h\<close>, \<^verbatim>\<open>generate_session_id\<close> in \<^verbatim>\<open>src/upstream/lws_transport.cpp\<close> and \<^verbatim>\<open>TaskId::to_string\<close> in
  \<^verbatim>\<open>src/framework/task.h\<close>; and the \<^verbatim>\<open>std::sto*\<close> family it reads numbers with, in \<^verbatim>\<open>src/config.cpp\<close>,
  \<^verbatim>\<open>src/entry/jwt_auth_interceptor.cpp\<close> and \<^verbatim>\<open>src/local/sherpa_local_tts.cpp\<close>.
\<close>

section \<open>Printing numbers\<close>

definition digit :: "nat \<Rightarrow> char" where
  "digit k = char_of (48 + k)"

fun dec :: "nat \<Rightarrow> string" where
  "dec n = (if n < 10 then [digit n] else dec (n div 10) @ [digit (n mod 10)])"

declare dec.simps [simp del]

definition undec :: "string \<Rightarrow> nat" where
  "undec s = foldl (\<lambda>v c. 10 * v + (of_char c - 48)) 0 s"

definition to_string_u64 :: "u64 \<Rightarrow> string" where
  "to_string_u64 w = dec (unat w)"

section \<open>Reading numbers\<close>

text \<open>
  \<^verbatim>\<open>std::stoi\<close>, \<^verbatim>\<open>std::stoll\<close> and \<^verbatim>\<open>std::stoull\<close>: leading white space, an optional sign, digits up to the first other
  character; \<open>None\<close> where they throw, because there is no digit or the value is out of range. The unsigned one accepts a minus
  sign and negates modulo 2 to the 64.
\<close>

definition is_space :: "char \<Rightarrow> bool" where
  "is_space c \<longleftrightarrow> (let n = of_char c :: nat in n = 32 \<or> 9 \<le> n \<and> n \<le> 13)"

definition is_digit :: "char \<Rightarrow> bool" where
  "is_digit c \<longleftrightarrow> (let n = of_char c :: nat in 48 \<le> n \<and> n \<le> 57)"

definition digits_value :: "string \<Rightarrow> int" where
  "digits_value ds = foldl (\<lambda>v c. 10 * v + (of_char c - 48)) 0 ds"

definition scan_number :: "string \<Rightarrow> (bool \<times> int) option" where
  "scan_number s =
     (let s = dropWhile is_space s;
          neg = (s \<noteq> [] \<and> hd s = CHR ''-'');
          s = (if s \<noteq> [] \<and> (hd s = CHR ''-'' \<or> hd s = CHR ''+'') then tl s else s);
          ds = takeWhile is_digit s
      in if ds = [] then None else Some (neg, digits_value ds))"

definition signed_number :: "int \<Rightarrow> string \<Rightarrow> int option" where
  "signed_number bound s =
     (case scan_number s of
        None \<Rightarrow> None
      | Some (neg, v) \<Rightarrow> (let v = (if neg then - v else v) in if v < - bound \<or> v \<ge> bound then None else Some v))"

definition stoi :: "string \<Rightarrow> int option" where
  "stoi s = signed_number (2 ^ 31) s"

definition stoll :: "string \<Rightarrow> int option" where
  "stoll s = signed_number (2 ^ 63) s"

definition stoull :: "string \<Rightarrow> u64 option" where
  "stoull s =
     (case scan_number s of
        None \<Rightarrow> None
      | Some (neg, v) \<Rightarrow> if v \<ge> 2 ^ 64 then None else Some (if neg then - word_of_int v else word_of_int v))"

text \<open>What a C function sees of a string: the characters up to the first zero.\<close>

definition c_str :: "string \<Rightarrow> string" where
  "c_str s = takeWhile (\<lambda>c. c \<noteq> CHR 0x00) s"

section \<open>Lemmas\<close>

lemma digit_value: "k < 10 \<Longrightarrow> of_char (digit k) - 48 = k"
  by (simp add: digit_def of_char_of)

lemma undec_dec: "undec (dec n) = n"
proof (induction n rule: dec.induct)
  case (1 n)
  show ?case
  proof (cases "n < 10")
    case True
    then show ?thesis by (simp add: dec.simps [of n] undec_def digit_value)
  next
    case False
    have "undec (dec n) = 10 * undec (dec (n div 10)) + (of_char (digit (n mod 10)) - 48)"
      using False by (simp add: dec.simps [of n] undec_def)
    also have "\<dots> = 10 * (n div 10) + n mod 10" using 1 [OF False] by (simp add: digit_value)
    finally show ?thesis by simp
  qed
qed

lemma dec_no_dash: "CHR ''-'' \<notin> set (dec n)"
proof (induction n rule: dec.induct)
  case (1 n)
  have d: "digit k \<noteq> CHR ''-''" if "k < 10" for k
  proof
    assume "digit k = CHR ''-''"
    then have "of_char (digit k) = (45 :: nat)" by simp
    then show False using that by (simp add: digit_def of_char_of)
  qed
  show ?case using 1 d [of n] d [of "n mod 10"] by (cases "n < 10") (auto simp: dec.simps [of n])
qed

interpretation u64_text: text_codec to_string_u64 "\<lambda>s. of_nat (undec s)"
  by unfold_locales (simp add: to_string_u64_def undec_dec)

end
