(* ===== verification/Jwt.thy ===== *)
theory Jwt
  imports Decimal
begin

text \<open>
  The verification of bearer tokens in \<^verbatim>\<open>src/entry/jwt_auth_interceptor.cpp\<close>. OpenSSL is a third-party library: what
  its base64 filter returns for padded standard base64 text is the parameter \<open>b64\<close> (\<open>None\<close> where the read fails), and what
  its digest functions and its reader of keys return are the record \<open>evp\<close> and the parameter \<open>pem_read\<close>. The reading of \<^verbatim>\<open>system_clock\<close>, in seconds, is the argument \<open>now\<close>.
\<close>

unbundle bit_operations_syntax

section \<open>Strings\<close>

text \<open>\<^verbatim>\<open>std::string::find\<close> of a non-empty text: the first position where it occurs.\<close>

fun str_find :: "string \<Rightarrow> string \<Rightarrow> nat option" where
  "str_find n [] = (if n = [] then Some 0 else None)"
| "str_find n (c # cs) =
     (if take (length n) (c # cs) = n then Some 0 else map_option Suc (str_find n cs))"

section \<open>Tokens\<close>

datatype jwt_result = Jwt_Ok | MissingHeader | InvalidSignature | Expired | Malformed | IssuerMismatch

definition std_char :: "char \<Rightarrow> char" where
  "std_char c = (if c = CHR ''-'' then CHR ''+'' else if c = CHR ''_'' then CHR ''/'' else c)"

function pad_loop :: "string \<Rightarrow> string" where
  "pad_loop s = (if length s mod 4 \<noteq> 0 then pad_loop (s @ ''='') else s)"
  by pat_completeness auto
termination
proof (relation "measure (\<lambda>s. (4 - length s mod 4) mod 4)")
  fix s :: string
  assume "length s mod 4 \<noteq> 0"
  moreover have "length s mod 4 < 4" by simp
  ultimately consider "length s mod 4 = 1" | "length s mod 4 = 2" | "length s mod 4 = 3" by linarith
  then have "(4 - Suc (length s) mod 4) mod 4 < (4 - length s mod 4) mod 4" by cases (simp_all add: mod_Suc)
  then show "(s @ ''='', s) \<in> measure (\<lambda>s. (4 - length s mod 4) mod 4)" by simp
qed simp

declare pad_loop.simps [simp del]

definition base64url_decode :: "(string \<Rightarrow> string option) \<Rightarrow> string \<Rightarrow> string option" where
  "base64url_decode b64 s = b64 (pad_loop (map std_char s))"

fun split_loop :: "string \<Rightarrow> string \<Rightarrow> string list" where
  "split_loop [] part = [part]"
| "split_loop (c # cs) part = (if c = CHR ''.'' then part # split_loop cs [] else split_loop cs (part @ [c]))"

definition split_dot :: "string \<Rightarrow> string list" where
  "split_dot s = split_loop s []"

definition constant_time_eq :: "string \<Rightarrow> string \<Rightarrow> bool" where
  "constant_time_eq a b =
     (if length a \<noteq> length b then False
      else fold (\<lambda>i acc. acc OR (of_char (a ! i) XOR of_char (b ! i))) [0..<length a] (0 :: 8 word) = 0)"

definition find_value :: "string \<Rightarrow> string \<Rightarrow> string" where
  "find_value json key =
     (let k = ''\"'' @ key @ ''\":'' in
      case str_find k json of
        None \<Rightarrow> []
      | Some p \<Rightarrow>
          (let rest = drop (p + length k) json in
           if rest \<noteq> [] \<and> hd rest = CHR ''\"'' then
             (case str_find ''\"'' (tl rest) of None \<Rightarrow> [] | Some e \<Rightarrow> take e (tl rest))
           else takeWhile (\<lambda>c. c \<noteq> CHR '','' \<and> c \<noteq> CHR ''}'') rest))"

definition expired :: "int \<Rightarrow> string \<Rightarrow> bool" where
  "expired now payload =
     (let exp_str = find_value payload ''exp'' in
      if exp_str \<noteq> [] then (case stoll exp_str of None \<Rightarrow> False | Some e \<Rightarrow> now \<ge> e) else False)"

definition jwt_verify ::
  "(string \<Rightarrow> string option) \<Rightarrow> (string \<Rightarrow> string \<Rightarrow> bool) \<Rightarrow> int \<Rightarrow> string \<Rightarrow> string \<Rightarrow> jwt_result" where
  "jwt_verify b64 rsa_ok now token required_issuer =
     (if token = [] then MissingHeader
      else if length (split_dot token) \<noteq> 3 then Malformed
      else
        (let parts = split_dot token in
         case (base64url_decode b64 (parts ! 0), base64url_decode b64 (parts ! 1)) of
           (Some header_json, Some payload_json) \<Rightarrow>
             (case base64url_decode b64 (parts ! 2) of
                None \<Rightarrow> Malformed
              | Some sig_bytes \<Rightarrow>
                  if \<not> rsa_ok (parts ! 0 @ ''.'' @ parts ! 1) sig_bytes then InvalidSignature
                  else if str_find ''\"alg\":\"RS256\"'' header_json = None then InvalidSignature
                  else if expired now payload_json then Expired
                  else if required_issuer \<noteq> [] \<and> \<not> constant_time_eq (find_value payload_json ''iss'') required_issuer
                  then IssuerMismatch
                  else Jwt_Ok)
         | _ \<Rightarrow> Malformed))"

text \<open>
  The calls of OpenSSL in \<^verbatim>\<open>verify_rsa_sha256\<close>: whether a context can be made, and the return codes of the three steps for a key, the data and
  the signature.
\<close>

record 'k evp =
  evp_ctx_new :: bool
  evp_verify_init :: "'k \<Rightarrow> int"
  evp_verify_update :: "'k \<Rightarrow> string \<Rightarrow> int"
  evp_verify_final :: "'k \<Rightarrow> string \<Rightarrow> string \<Rightarrow> int"

definition verify_rsa_sha256 :: "'k evp \<Rightarrow> 'k \<Rightarrow> string \<Rightarrow> string \<Rightarrow> bool" where
  "verify_rsa_sha256 evp pkey signed_data signature =
     (if \<not> evp_ctx_new evp then False
      else if evp_verify_init evp pkey = 1
           then (if evp_verify_update evp pkey signed_data = 1 then evp_verify_final evp pkey signed_data signature = 1 else False)
           else False)"

definition load_public_key_pem :: "(string \<Rightarrow> bool) \<Rightarrow> (string \<Rightarrow> 'k option) \<Rightarrow> string \<Rightarrow> 'k option" where
  "load_public_key_pem fopen pem_read path = (if \<not> fopen path then None else pem_read path)"

definition rsa256_verify :: "'k evp \<Rightarrow> (string \<Rightarrow> string option) \<Rightarrow> int \<Rightarrow> 'k \<Rightarrow> string \<Rightarrow> string \<Rightarrow> jwt_result" where
  "rsa256_verify evp b64 now pkey = jwt_verify b64 (verify_rsa_sha256 evp pkey) now"

definition from_rsa256_public_key_file ::
  "(string \<Rightarrow> bool) \<Rightarrow> (string \<Rightarrow> 'k option) \<Rightarrow> 'k evp \<Rightarrow> (string \<Rightarrow> string option) \<Rightarrow> int \<Rightarrow> string \<Rightarrow>
   (string \<Rightarrow> string \<Rightarrow> jwt_result) option" where
  "from_rsa256_public_key_file fopen pem_read evp b64 now path =
     (case load_public_key_pem fopen pem_read path of None \<Rightarrow> None | Some pkey \<Rightarrow> Some (rsa256_verify evp b64 now pkey))"

text \<open>\<^verbatim>\<open>JwtAuthInterceptor::verify\<close>.\<close>

definition interceptor_verify :: "(string \<Rightarrow> string \<Rightarrow> jwt_result) option \<Rightarrow> string \<Rightarrow> string \<Rightarrow> jwt_result" where
  "interceptor_verify inner token issuer = (case inner of None \<Rightarrow> Malformed | Some verify \<Rightarrow> verify token issuer)"

section \<open>Splitting and comparing\<close>

fun join_dot :: "string list \<Rightarrow> string" where
  "join_dot [] = []"
| "join_dot [p] = p"
| "join_dot (p # q # ps) = p @ ''.'' @ join_dot (q # ps)"

lemma split_loop_nonempty: "split_loop s part \<noteq> []"
  by (induction s part rule: split_loop.induct) simp_all

lemma join_split_loop: "join_dot (split_loop s part) = part @ s"
proof (induction s part rule: split_loop.induct)
  case (2 c cs part)
  show ?case
  proof (cases "c = CHR ''.''")
    case True
    with 2(1) show ?thesis using split_loop_nonempty [of cs "[]"]
      by (cases "split_loop cs []") simp_all
  qed (use 2(2) in simp)
qed simp

lemma split_loop_parts: "CHR ''.'' \<notin> set part \<Longrightarrow> \<forall>p \<in> set (split_loop s part). CHR ''.'' \<notin> set p"
  by (induction s part rule: split_loop.induct) auto

lemma or_fold_zero: "fold (\<lambda>i acc. acc OR f i) is (a :: 8 word) = 0 \<longleftrightarrow> a = 0 \<and> (\<forall>i \<in> set is. f i = 0)"
  by (induction "is" arbitrary: a) (auto simp: or_eq_0_iff)

lemma of_char_8_inj: "(of_char c :: 8 word) = of_char d \<longleftrightarrow> c = d"
proof
  assume eq: "(of_char c :: 8 word) = of_char d"
  have u: "unat (of_char x :: 8 word) = (of_char x :: nat)" for x
  proof -
    have "(of_char x :: nat) < 256" by simp
    then have "unat (of_nat (of_char x) :: 8 word) = (of_char x :: nat)" by (simp add: unat_of_nat)
    then show ?thesis by (simp add: of_nat_of_char)
  qed
  from eq have "(of_char c :: nat) = of_char d" by (metis u)
  then show "c = d" by simp
qed simp

lemma word_xor_zero: "x XOR y = 0 \<longleftrightarrow> x = (y :: 8 word)"
proof
  assume "x XOR y = 0"
  then have "(x XOR y) XOR y = 0 XOR y" by (rule arg_cong)
  then show "x = y" by (simp add: xor.assoc)
qed simp

lemma constant_time_eq_iff: "constant_time_eq a b \<longleftrightarrow> a = b"
proof (cases "length a = length b")
  case True
  have "constant_time_eq a b \<longleftrightarrow> (\<forall>i < length a. (of_char (a ! i) XOR of_char (b ! i) :: 8 word) = 0)"
    using True by (auto simp: constant_time_eq_def or_fold_zero)
  also have "\<dots> \<longleftrightarrow> (\<forall>i < length a. a ! i = b ! i)" by (simp add: word_xor_zero of_char_8_inj)
  also have "\<dots> \<longleftrightarrow> a = b" using True by (auto intro: nth_equalityI)
  finally show ?thesis .
qed (auto simp: constant_time_eq_def)

lemma pad_loop_result: "pad_loop s = s @ replicate ((4 - length s mod 4) mod 4) CHR ''=''"
proof (induction s rule: pad_loop.induct)
  case (1 s)
  show ?case
  proof (cases "length s mod 4 = 0")
    case False
    moreover have "length s mod 4 < 4" by simp
    ultimately consider "length s mod 4 = 1" | "length s mod 4 = 2" | "length s mod 4 = 3" by linarith
    then have k: "(4 - length s mod 4) mod 4 = Suc ((4 - Suc (length s) mod 4) mod 4)"
      by cases (simp_all add: mod_Suc)
    have "pad_loop s = pad_loop (s @ ''='')" using False by (subst pad_loop.simps) simp
    also have "\<dots> = (s @ ''='') @ replicate ((4 - length (s @ ''='') mod 4) mod 4) CHR ''=''" by (rule 1 [OF False])
    finally show ?thesis unfolding k by simp
  qed (simp add: pad_loop.simps)
qed

lemma jwt_verify_Ok:
  "jwt_verify b64 rsa_ok now token issuer = Jwt_Ok \<longleftrightarrow>
     (\<exists>h p s hj pj sj. split_dot token = [h, p, s] \<and>
        base64url_decode b64 h = Some hj \<and> base64url_decode b64 p = Some pj \<and> base64url_decode b64 s = Some sj \<and>
        rsa_ok (h @ ''.'' @ p) sj \<and> str_find ''\"alg\":\"RS256\"'' hj \<noteq> None \<and> \<not> expired now pj \<and>
        (issuer = [] \<or> find_value pj ''iss'' = issuer))"
proof (cases "length (split_dot token) = 3")
  case True
  then obtain h p s where parts: "split_dot token = [h, p, s]" by (auto simp: length_Suc_conv numeral_3_eq_3)
  then have "token \<noteq> []" by (auto simp: split_dot_def)
  with parts show ?thesis
    by (auto simp: jwt_verify_def Let_def constant_time_eq_iff split: option.splits)
next
  case False
  then show ?thesis by (auto simp: jwt_verify_def)
qed

text \<open>A signature counts only if the last step of the check returns 1: the negative codes of an error are refusals.\<close>

lemma verify_rsa_sha256_iff:
  "verify_rsa_sha256 evp pkey signed_data signature \<longleftrightarrow>
     evp_ctx_new evp \<and> evp_verify_init evp pkey = 1 \<and> evp_verify_update evp pkey signed_data = 1 \<and>
     evp_verify_final evp pkey signed_data signature = 1"
  by (simp add: verify_rsa_sha256_def)

section \<open>Properties\<close>


text \<open>
  Splitting at dots loses nothing: joining the parts with dots gives the token back, and no part contains a dot. So the
  signed text of the check is exactly the token up to its last dot. Padding only appends the padding character up to
  the next multiple of four.
\<close>

theorem token_split_roundtrip:
  "join_dot (split_dot token) = token \<and> list_all (\<lambda>p. CHR ''.'' \<notin> set p) (split_dot token) \<and>
   4 dvd length (pad_loop s) \<and> take (length s) (pad_loop s) = s \<and> length (pad_loop s) < length s + 4"
proof (intro conjI)
  show "join_dot (split_dot token) = token" by (simp add: split_dot_def join_split_loop)
  show "list_all (\<lambda>p. CHR ''.'' \<notin> set p) (split_dot token)"
    using split_loop_parts [of "[]" token] by (simp add: split_dot_def list_all_iff)
  have "(length s + (4 - length s mod 4) mod 4) mod 4 = 0" by (simp add: mod_simps) presburger
  then show "4 dvd length (pad_loop s)" by (simp only: pad_loop_result length_append length_replicate dvd_eq_mod_eq_0)
  have "(4 - length s mod 4) mod 4 < 4" by simp
  then show "length (pad_loop s) < length s + 4" by (simp only: pad_loop_result length_append length_replicate add_less_cancel_left)
  show "take (length s) (pad_loop s) = s" unfolding pad_loop_result by (simp only: take_append take_all diff_self_eq_0 take_0 append_Nil2 order_refl)
qed

text \<open>
  A token whose expiry is present but not a number never expires: whether it is accepted does not depend on the
  time.
\<close>

theorem unparsable_expiry_never_expires:
  assumes "base64url_decode b64 (split_dot token ! 1) = Some payload" and "stoll (find_value payload ''exp'') = None"
  shows "jwt_verify b64 rsa_ok now token issuer = jwt_verify b64 rsa_ok now' token issuer"
  using assms by (simp add: jwt_verify_def Let_def expired_def split: option.splits)

theorem unparsable_expiry_never_expires_witness:
  "jwt_verify (\<lambda>s. Some (if s = ''eA=='' then ''{\"exp\":\"soon\"}'' else ''{\"alg\":\"RS256\"}'')) (\<lambda>_ _. True) 0 ''aA.eA.cw'' [] =
   jwt_verify (\<lambda>s. Some (if s = ''eA=='' then ''{\"exp\":\"soon\"}'' else ''{\"alg\":\"RS256\"}'')) (\<lambda>_ _. True) (10 ^ 12) ''aA.eA.cw'' []"
proof (rule unparsable_expiry_never_expires)
  show "base64url_decode (\<lambda>s. Some (if s = ''eA=='' then ''{\"exp\":\"soon\"}'' else ''{\"alg\":\"RS256\"}''))
      (split_dot ''aA.eA.cw'' ! 1) = Some ''{\"exp\":\"soon\"}''"
  proof -
    have "split_dot ''aA.eA.cw'' ! 1 = ''eA''" by (simp add: split_dot_def)
    moreover have "pad_loop (map std_char ''eA'') = ''eA==''" by (simp add: std_char_def pad_loop.simps)
    ultimately show ?thesis by (simp only: base64url_decode_def simp_thms if_True)
  qed
  show "stoll (find_value ''{\"exp\":\"soon\"}'' ''exp'') = None"
    by (simp add: find_value_def stoll_def signed_number_def scan_number_def is_space_def is_digit_def)
qed

end
