(* ===== verification/Tts_Service.thy ===== *)
theory Tts_Service
  imports Copy_Channel Metrics Request_Parser Jwt Decimal "HOL-Library.Sublist"
begin

text \<open>
  The gRPC service \<^verbatim>\<open>TtsServiceImpl\<close> of \<^verbatim>\<open>src/entry/tts_service_impl.h\<close>. Its state is the two maps under
  \<^verbatim>\<open>writers_mtx_\<close>, the static id counter, and the responses handed to the streams so far (\<open>sv_wire\<close>, with the request id whose
  call owns the stream). A registered \<^verbatim>\<open>WriteFn\<close> is the id of that call. Every handler is cut at the points where other threads may run:
  \<^verbatim>\<open>SynthesizeStream\<close> is a submission, a registration, and one operation per round of its polling loop. Whether a gRPC
  \<^verbatim>\<open>Write\<close> succeeds, whether the deadline has passed and whether the call was cancelled are inputs of those operations.
\<close>

section \<open>State\<close>

type_synonym metadata = "(string \<times> string) list"
type_synonym jwt_verifier = "string \<Rightarrow> string \<Rightarrow> jwt_result"
type_synonym request_channel = "message copy_channel"

record service =
  sv_writers :: "(string, string) umap"
  sv_queues :: "(string, write_to_client copy_channel) umap"
  sv_counter :: u64
  sv_wire :: "(string \<times> synthesize_response) list"

definition new_service :: service where
  "new_service = \<lparr>sv_writers = [], sv_queues = [], sv_counter = 1, sv_wire = []\<rparr>"

datatype status_code = OK | UNAUTHENTICATED | INVALID_ARGUMENT

datatype rpc_outcome = Status status_code string | Thrown channel_error

definition status_ok :: rpc_outcome where
  "status_ok = Status OK []"

definition unauth :: rpc_outcome where
  "unauth = Status UNAUTHENTICATED ''auth''"

definition check_auth :: "jwt_verifier option \<Rightarrow> metadata \<Rightarrow> bool" where
  "check_auth jwt md =
     (case jwt of
        None \<Rightarrow> True
      | Some verify \<Rightarrow>
          (case map_of md ''authorization'' of
             None \<Rightarrow> False
           | Some v \<Rightarrow>
               if take 7 v \<noteq> ''Bearer '' then False
               else if verify (drop 7 v) ''tts-service'' \<noteq> Jwt_Ok then False else True))"

definition request_id :: "string \<Rightarrow> u64 \<Rightarrow> string" where
  "request_id tag n = tag @ ''-'' @ to_string_u64 n"

definition generate_request_id :: "string \<Rightarrow> service \<Rightarrow> string \<times> service" where
  "generate_request_id tag sv = (request_id tag (sv_counter sv), sv\<lparr>sv_counter := sv_counter sv + 1\<rparr>)"

definition register_writer :: "string \<Rightarrow> string \<Rightarrow> service \<Rightarrow> service" where
  "register_writer rid call sv = sv\<lparr>sv_writers := AList.update rid call (sv_writers sv)\<rparr>"

definition unregister :: "string \<Rightarrow> service \<Rightarrow> service" where
  "unregister rid sv = sv\<lparr>sv_writers := AList.delete rid (sv_writers sv), sv_queues := AList.delete rid (sv_queues sv)\<rparr>"

definition write_response :: "string \<Rightarrow> write_to_client \<Rightarrow> service \<Rightarrow> service" where
  "write_response call w sv = sv\<lparr>sv_wire := sv_wire sv @ [(call, to_proto w)]\<rparr>"

section \<open>Dispatch\<close>

text \<open>A closed queue would throw out of the heartbeat thread and end the process: the left value.\<close>

definition dispatch_write :: "write_to_client \<Rightarrow> service \<Rightarrow> channel_error + service" where
  "dispatch_write w sv =
     (case map_of (sv_queues sv) (wc_request_id w) of
        Some q \<Rightarrow>
          (case send w q of
             Inl e \<Rightarrow> Inl e
           | Inr q' \<Rightarrow> Inr (sv\<lparr>sv_queues := AList.update (wc_request_id w) q' (sv_queues sv)\<rparr>))
      | None \<Rightarrow>
          (case map_of (sv_writers sv) (wc_request_id w) of
             Some call \<Rightarrow>
               (let sv = write_response call w sv in
                Inr (if wc_is_final w then sv\<lparr>sv_writers := AList.delete (wc_request_id w) (sv_writers sv)\<rparr> else sv))
           | None \<Rightarrow> Inr sv))"

fun dispatch_to_writers :: "write_to_client list \<Rightarrow> service \<Rightarrow> channel_error + service" where
  "dispatch_to_writers [] sv = Inr sv"
| "dispatch_to_writers (w # ws) sv =
     (case dispatch_write w sv of Inl e \<Rightarrow> Inl e | Inr sv' \<Rightarrow> dispatch_to_writers ws sv')"

section \<open>SynthesizeStream\<close>

definition stream_submit ::
  "jwt_verifier option \<Rightarrow> metadata \<Rightarrow> synthesize_request \<Rightarrow> service \<times> request_channel \<Rightarrow>
   (rpc_outcome + string) \<times> service \<times> request_channel" where
  "stream_submit jwt md proto = (\<lambda>(sv, ch).
     if \<not> check_auth jwt md then (Inl unauth, sv, ch)
     else
       (case generate_request_id ''strm'' sv of (rid, sv) \<Rightarrow>
          case parse_unary proto rid of
            Inl (ParseError e) \<Rightarrow> (Inl (Status INVALID_ARGUMENT e), sv, ch)
          | Inr r \<Rightarrow>
              (case send (ReqMsg r) ch of
                 Inl e \<Rightarrow> (Inl (Thrown e), sv, ch)
               | Inr ch' \<Rightarrow> (Inr rid, sv, ch'))))"

definition stream_register :: "string \<Rightarrow> service \<Rightarrow> service" where
  "stream_register rid sv =
     register_writer rid rid (sv\<lparr>sv_queues := AList.update rid new_channel (sv_queues sv)\<rparr>)"

text \<open>The inner loop over the drained writes; \<open>ok i\<close> is the result of the \<open>i\<close>-th \<^verbatim>\<open>Write\<close> of the round.\<close>

fun write_loop ::
  "string \<Rightarrow> (nat \<Rightarrow> bool) \<Rightarrow> write_to_client list \<Rightarrow> service \<Rightarrow> rpc_outcome option \<times> service" where
  "write_loop rid ok [] sv = (None, sv)"
| "write_loop rid ok (w # ws) sv =
     (let sv = write_response rid w sv in
      if \<not> ok 0 then (Some status_ok, unregister rid sv)
      else if wc_is_final w then (Some status_ok, unregister rid sv)
      else write_loop rid (\<lambda>i. ok (Suc i)) ws sv)"

text \<open>
  One round of the polling loop. The call holds its queue for as long as it runs, and the map holds it exactly that long; for an id
  without queue there is no call and the operation does nothing.
\<close>

definition stream_poll ::
  "string \<Rightarrow> (nat \<Rightarrow> bool) \<Rightarrow> bool \<Rightarrow> service \<Rightarrow> rpc_outcome option \<times> service" where
  "stream_poll rid ok timed_out sv =
     (case map_of (sv_queues sv) rid of
        None \<Rightarrow> (None, sv)
      | Some q \<Rightarrow>
          (case swap_out_all [] q of (drained, q') \<Rightarrow>
             case write_loop rid ok drained (sv\<lparr>sv_queues := AList.update rid q' (sv_queues sv)\<rparr>) of
               (Some st, sv) \<Rightarrow> (Some st, sv)
             | (None, sv) \<Rightarrow> if timed_out then (Some status_ok, unregister rid sv) else (None, sv)))"

definition stream_cancelled :: "string \<Rightarrow> service \<Rightarrow> rpc_outcome \<times> service" where
  "stream_cancelled rid sv = (status_ok, unregister rid sv)"

section \<open>SynthesizeClient and GetMetrics\<close>

definition client_open :: "jwt_verifier option \<Rightarrow> metadata \<Rightarrow> service \<Rightarrow> (rpc_outcome + string) \<times> service" where
  "client_open jwt md sv =
     (if \<not> check_auth jwt md then (Inl unauth, sv)
      else case generate_request_id ''cli'' sv of (rid, sv) \<Rightarrow> (Inr rid, register_writer rid rid sv))"

definition client_chunk ::
  "string \<Rightarrow> bool \<Rightarrow> text_chunk \<Rightarrow> request_channel \<Rightarrow> rpc_outcome option \<times> request_channel" where
  "client_chunk rid first chunk ch =
     (case parse_chunk chunk rid empty_request first of
        Inl (ParseError e) \<Rightarrow> (Some (Status INVALID_ARGUMENT e), ch)
      | Inr r \<Rightarrow> (case send (ReqMsg r) ch of Inl e \<Rightarrow> (Some (Thrown e), ch) | Inr ch' \<Rightarrow> (None, ch')))"

fun client_loop :: "string \<Rightarrow> bool \<Rightarrow> text_chunk list \<Rightarrow> request_channel \<Rightarrow> rpc_outcome \<times> request_channel" where
  "client_loop rid first [] ch = (status_ok, ch)"
| "client_loop rid first (c # cs) ch =
     (case client_chunk rid first c ch of
        (Some st, ch') \<Rightarrow> (st, ch')
      | (None, ch') \<Rightarrow> client_loop rid False cs ch')"

definition synthesize_client ::
  "jwt_verifier option \<Rightarrow> metadata \<Rightarrow> text_chunk list \<Rightarrow> service \<times> request_channel \<Rightarrow>
   rpc_outcome \<times> service \<times> request_channel" where
  "synthesize_client jwt md chunks = (\<lambda>(sv, ch).
     case client_open jwt md sv of
       (Inl st, sv) \<Rightarrow> (st, sv, ch)
     | (Inr rid, sv) \<Rightarrow> (case client_loop rid True chunks ch of (st, ch') \<Rightarrow> (st, sv, ch')))"

record metrics_snapshot =
  ms_inflight_requests :: u64
  ms_queued_messages :: u64
  ms_heartbeat_p99_us :: u64
  ms_upstream_connected :: u64
  ms_upstream_disconnected_total :: u64
  ms_audio_bytes_emitted_total :: u64
  ms_failed_requests_total :: u64
  ms_pool_idle_sessions :: u64
  ms_pool_active_sessions :: u64
  ms_backpressure_level :: u64
  ms_heartbeat_count :: u64
  ms_bus_worker_pending :: u64

definition get_metrics :: "jwt_verifier option \<Rightarrow> metadata \<Rightarrow> metrics \<Rightarrow> rpc_outcome + metrics_snapshot" where
  "get_metrics jwt md m =
     (if \<not> check_auth jwt md then Inl unauth
      else Inr \<lparr>ms_inflight_requests = inflight m, ms_queued_messages = queued m, ms_heartbeat_p99_us = heartbeat_p99_us m,
        ms_upstream_connected = upstream_connected m, ms_upstream_disconnected_total = upstream_disconnected m,
        ms_audio_bytes_emitted_total = audio_bytes m, ms_failed_requests_total = failed_requests m,
        ms_pool_idle_sessions = pool_idle m, ms_pool_active_sessions = pool_active m,
        ms_backpressure_level = backpressure_level m, ms_heartbeat_count = heartbeat_count m,
        ms_bus_worker_pending = bus_pending m\<rparr>)"

section \<open>Interleavings\<close>

datatype service_op =
    Submit metadata synthesize_request
  | Register string
  | Poll string "nat \<Rightarrow> bool" bool
  | CallCancelled string
  | ClientOpen metadata
  | ClientChunk string bool text_chunk
  | Dispatch "write_to_client list"

fun service_step :: "jwt_verifier option \<Rightarrow> service_op \<Rightarrow> service \<times> request_channel \<Rightarrow> service \<times> request_channel" where
  "service_step jwt (Submit md proto) (sv, ch) = snd (stream_submit jwt md proto (sv, ch))"
| "service_step jwt (Register rid) (sv, ch) = (stream_register rid sv, ch)"
| "service_step jwt (Poll rid ok timed_out) (sv, ch) = (snd (stream_poll rid ok timed_out sv), ch)"
| "service_step jwt (CallCancelled rid) (sv, ch) = (snd (stream_cancelled rid sv), ch)"
| "service_step jwt (ClientOpen md) (sv, ch) = (snd (client_open jwt md sv), ch)"
| "service_step jwt (ClientChunk rid first c) (sv, ch) = (sv, snd (client_chunk rid first c ch))"
| "service_step jwt (Dispatch ws) (sv, ch) =
     (case dispatch_to_writers ws sv of Inl _ \<Rightarrow> sv | Inr sv' \<Rightarrow> sv', ch)"

definition service_run :: "jwt_verifier option \<Rightarrow> service_op list \<Rightarrow> service \<times> request_channel \<Rightarrow> service \<times> request_channel" where
  "service_run jwt = fold (service_step jwt)"

section \<open>Invariants\<close>

text \<open>No queue is closed, and a writer writes to the stream of the call that registered it.\<close>

definition service_ok :: "service \<Rightarrow> bool" where
  "service_ok sv \<longleftrightarrow> (\<forall>rid q. map_of (sv_queues sv) rid = Some q \<longrightarrow> \<not> closed q) \<and>
     (\<forall>rid call. map_of (sv_writers sv) rid = Some call \<longrightarrow> call = rid)"

text \<open>What a stream was sent so far, and what a list of writes holds for it.\<close>

definition wire_of :: "string \<Rightarrow> service \<Rightarrow> synthesize_response list" where
  "wire_of rid sv = map snd (filter (\<lambda>p. fst p = rid) (sv_wire sv))"

definition writes_for :: "string \<Rightarrow> write_to_client list \<Rightarrow> write_to_client list" where
  "writes_for rid ws = filter (\<lambda>w. wc_request_id w = rid) ws"

fun op_writes :: "string \<Rightarrow> service_op \<Rightarrow> write_to_client list" where
  "op_writes rid (Dispatch ws) = writes_for rid ws"
| "op_writes rid _ = []"

definition dispatched :: "string \<Rightarrow> service_op list \<Rightarrow> write_to_client list" where
  "dispatched rid ops = concat (map (op_writes rid) ops)"

text \<open>
  The state of one call \<open>rid\<close> of \<^verbatim>\<open>SynthesizeStream\<close> against the writes \<open>ds\<close> dispatched for it: while it runs, it has sent all of
  them but those in its queue, none of which was final; once it has returned, it has sent an initial part.
\<close>

definition stream_state :: "string \<Rightarrow> write_to_client list \<Rightarrow> service \<Rightarrow> bool" where
  "stream_state rid ds sv =
     (case map_of (sv_queues sv) rid of
        Some q \<Rightarrow> map to_proto ds = wire_of rid sv @ map to_proto (buffer q) \<and> list_all (\<lambda>r. \<not> so_is_final r) (wire_of rid sv)
      | None \<Rightarrow> map_of (sv_writers sv) rid = None \<and> prefix (wire_of rid sv) (map to_proto ds) \<and>
          list_all (\<lambda>r. \<not> so_is_final r) (butlast (wire_of rid sv)))"

lemmas service_defs = stream_register_def register_writer_def unregister_def write_response_def generate_request_id_def
  stream_cancelled_def

lemma wire_of_write [simp]: "wire_of rid (write_response call w sv) = wire_of rid sv @ (if call = rid then [to_proto w] else [])"
  by (simp add: wire_of_def write_response_def)

lemma write_response_fields [simp]:
  "sv_queues (write_response call w sv) = sv_queues sv" "sv_writers (write_response call w sv) = sv_writers sv"
  "sv_counter (write_response call w sv) = sv_counter sv"
  by (simp_all add: write_response_def)

lemma unregister_fields [simp]:
  "map_of (sv_queues (unregister r sv)) k = (if k = r then None else map_of (sv_queues sv) k)"
  "map_of (sv_writers (unregister r sv)) k = (if k = r then None else map_of (sv_writers sv) k)"
  "wire_of k (unregister r sv) = wire_of k sv"
  "sv_counter (unregister r sv) = sv_counter sv"
  by (simp_all add: unregister_def delete_conv wire_of_def)

lemma wire_of_updates [simp]:
  "wire_of rid (sv\<lparr>sv_queues := qs\<rparr>) = wire_of rid sv" "wire_of rid (sv\<lparr>sv_writers := m\<rparr>) = wire_of rid sv"
  "wire_of rid (sv\<lparr>sv_counter := c\<rparr>) = wire_of rid sv"
  by (simp_all add: wire_of_def)

lemma so_final_to_proto [simp]: "so_is_final (to_proto w) = wc_is_final w"
  by (simp add: to_proto_def)

lemma service_ok_unregister: "service_ok sv \<Longrightarrow> service_ok (unregister rid sv)"
  by (simp add: service_ok_def)

lemma service_ok_write [simp]: "service_ok (write_response call w sv) = service_ok sv"
  by (simp add: service_ok_def)

lemma service_ok_counter [simp]: "service_ok (sv\<lparr>sv_counter := c\<rparr>) = service_ok sv"
  by (simp add: service_ok_def)

lemma service_ok_queue: "service_ok sv \<Longrightarrow> \<not> closed q \<Longrightarrow> service_ok (sv\<lparr>sv_queues := AList.update rid q (sv_queues sv)\<rparr>)"
  by (simp add: service_ok_def update_conv)

lemma service_ok_writer: "service_ok sv \<Longrightarrow> service_ok (register_writer rid rid sv)"
  by (simp add: service_ok_def register_writer_def update_conv)

lemma write_loop_ok: "service_ok sv \<Longrightarrow> service_ok (snd (write_loop rid ok ws sv))"
  by (induction rid ok ws sv rule: write_loop.induct) (simp_all add: Let_def service_ok_unregister)

lemma dispatch_write_ok:
  assumes "service_ok sv"
  obtains sv' where "dispatch_write w sv = Inr sv'" and "service_ok sv'"
proof (cases "map_of (sv_queues sv) (wc_request_id w)")
  case (Some q)
  with assms have "\<not> closed q" by (simp add: service_ok_def)
  with assms have "service_ok (sv\<lparr>sv_queues := AList.update (wc_request_id w) (q\<lparr>buffer := buffer q @ [w]\<rparr>) (sv_queues sv)\<rparr>)"
    by (intro service_ok_queue) simp_all
  with Some \<open>\<not> closed q\<close> that show ?thesis by (simp add: dispatch_write_def send_def)
next
  case None
  have del: "service_ok (sv'\<lparr>sv_writers := AList.delete k (sv_writers sv')\<rparr>)" if "service_ok sv'" for sv' k
    using that by (simp add: service_ok_def delete_conv)
  show ?thesis
  proof (cases "map_of (sv_writers sv) (wc_request_id w)")
    case None
    with \<open>map_of (sv_queues sv) (wc_request_id w) = None\<close> assms that show ?thesis by (simp add: dispatch_write_def)
  next
    case (Some call)
    with None have "dispatch_write w sv = Inr (if wc_is_final w then (write_response call w sv)
        \<lparr>sv_writers := AList.delete (wc_request_id w) (sv_writers (write_response call w sv))\<rparr> else write_response call w sv)"
      by (simp add: dispatch_write_def Let_def)
    moreover have "service_ok (if wc_is_final w then (write_response call w sv)
        \<lparr>sv_writers := AList.delete (wc_request_id w) (sv_writers (write_response call w sv))\<rparr> else write_response call w sv)"
      using assms del [of "write_response call w sv"] by simp
    ultimately show ?thesis by (rule that)
  qed
qed

lemma dispatch_ok:
  "service_ok sv \<Longrightarrow> \<exists>sv'. dispatch_to_writers ws sv = Inr sv' \<and> service_ok sv'"
proof (induction ws arbitrary: sv)
  case (Cons w ws)
  obtain sv1 where "dispatch_write w sv = Inr sv1" and "service_ok sv1" using Cons.prems by (rule dispatch_write_ok)
  with Cons.IH [of sv1] show ?case by simp
qed simp

lemma stream_poll_ok:
  assumes "service_ok sv"
  shows "service_ok (snd (stream_poll rid ok t sv))"
proof (cases "map_of (sv_queues sv) rid")
  case (Some q)
  let ?sv = "sv\<lparr>sv_queues := AList.update rid (q\<lparr>buffer := []\<rparr>) (sv_queues sv)\<rparr>"
  have "\<not> closed q" using assms Some by (simp add: service_ok_def)
  then have "service_ok ?sv" using assms by (intro service_ok_queue) simp_all
  then have "service_ok (snd (write_loop rid ok (buffer q) ?sv))" by (rule write_loop_ok)
  with Some show ?thesis
    by (auto simp: stream_poll_def swap_out_all_result service_ok_unregister split: prod.splits option.splits)
qed (use assms in \<open>simp add: stream_poll_def\<close>)

lemma service_step_ok:
  assumes "service_ok (fst s)"
  shows "service_ok (fst (service_step jwt op s))"
proof (cases s)
  case (Pair sv ch)
  with assms have ok: "service_ok sv" by simp
  then have "service_ok (stream_register rid sv)" for rid
    unfolding stream_register_def by (intro service_ok_writer service_ok_queue) (simp_all add: new_channel_def)
  moreover have "service_ok (register_writer rid rid (sv\<lparr>sv_counter := c\<rparr>))" for rid c
    using ok by (intro service_ok_writer) simp
  moreover have "service_ok (case dispatch_to_writers ws sv of Inl _ \<Rightarrow> sv | Inr sv' \<Rightarrow> sv')" for ws
    using dispatch_ok [OF ok, of ws] by auto
  ultimately show ?thesis
    using Pair ok stream_poll_ok [OF ok]
    by (cases op)
      (auto simp: stream_submit_def generate_request_id_def stream_cancelled_def client_open_def service_ok_unregister
        split: sum.split parse_error.split)
qed

text \<open>The calls only ever append requests to the request channel.\<close>

lemma service_step_channel:
  "\<exists>rs. buffer (snd (service_step jwt op s)) = buffer (snd s) @ map ReqMsg rs \<and> closed (snd (service_step jwt op s)) = closed (snd s)"
proof (cases s)
  case (Pair sv ch)
  have "\<exists>rs. buffer (snd (snd (stream_submit jwt md proto (sv, ch)))) = buffer ch @ map ReqMsg rs \<and>
      closed (snd (snd (stream_submit jwt md proto (sv, ch)))) = closed ch" for md proto
    by (auto simp: stream_submit_def generate_request_id_def send_def intro: exI [of _ "[]"] exI [of _ "[r]" for r]
        split: sum.split parse_error.split)
  moreover have "\<exists>rs. buffer (snd (client_chunk rid first c ch)) = buffer ch @ map ReqMsg rs \<and>
      closed (snd (client_chunk rid first c ch)) = closed ch" for rid first c
    by (auto simp: client_chunk_def send_def intro: exI [of _ "[]"] exI [of _ "[r]" for r] split: sum.split parse_error.split)
  ultimately show ?thesis by (cases op) (auto simp: Pair intro: exI [of _ "[]"])
qed

interpretation service_run: guarded_system "service_step jwt" "\<lambda>_ _. True" "\<lambda>s. service_ok (fst s)" for jwt
  by unfold_locales (rule service_step_ok)

section \<open>One stream against all other threads\<close>

lemma write_loop_other:
  assumes "k \<noteq> rid"
  shows "map_of (sv_queues (snd (write_loop rid ok ws sv))) k = map_of (sv_queues sv) k \<and>
    map_of (sv_writers (snd (write_loop rid ok ws sv))) k = map_of (sv_writers sv) k \<and>
    wire_of k (snd (write_loop rid ok ws sv)) = wire_of k sv"
  using assms by (induction rid ok ws sv rule: write_loop.induct) (simp_all add: Let_def)

lemma stream_state_cong:
  assumes "map_of (sv_queues sv') k = map_of (sv_queues sv) k" and "map_of (sv_writers sv') k = map_of (sv_writers sv) k"
    and "wire_of k sv' = wire_of k sv"
  shows "stream_state k ds sv' = stream_state k ds sv"
  unfolding stream_state_def assms ..

lemma stream_state_counter [simp]: "stream_state k ds (sv\<lparr>sv_counter := c\<rparr>) = stream_state k ds sv"
  by (rule stream_state_cong) simp_all

lemma stream_poll_other:
  assumes "k \<noteq> rid"
  shows "stream_state k ds (snd (stream_poll rid ok t sv)) = stream_state k ds sv"
proof (cases "map_of (sv_queues sv) rid")
  case (Some q)
  let ?sv = "sv\<lparr>sv_queues := AList.update rid (q\<lparr>buffer := []\<rparr>) (sv_queues sv)\<rparr>"
  obtain st sv' where loop: "write_loop rid ok (buffer q) ?sv = (st, sv')" by fastforce
  have "map_of (sv_queues sv') k = map_of (sv_queues sv) k \<and> map_of (sv_writers sv') k = map_of (sv_writers sv) k \<and>
      wire_of k sv' = wire_of k sv"
    using write_loop_other [OF assms, of ok "buffer q" ?sv] loop assms by (simp add: update_conv)
  then have "stream_state k ds sv' = stream_state k ds sv" and "stream_state k ds (unregister rid sv') = stream_state k ds sv"
    using assms by - (rule stream_state_cong; simp)+
  then show ?thesis using Some loop by (simp add: stream_poll_def swap_out_all_result split: option.split)
qed (simp add: stream_poll_def)

text \<open>The loop over the drained writes sends an initial part and goes on only if it sent everything and saw no final write.\<close>

lemma write_loop_self:
  assumes "write_loop rid ok ws sv = (st, sv')"
  shows "\<exists>us vs. ws = us @ vs \<and> wire_of rid sv' = wire_of rid sv @ map to_proto us \<and>
    list_all (\<lambda>w. \<not> wc_is_final w) (butlast us) \<and>
    (st = None \<longrightarrow> vs = [] \<and> list_all (\<lambda>w. \<not> wc_is_final w) us \<and> map_of (sv_queues sv') = map_of (sv_queues sv)) \<and>
    (st \<noteq> None \<longrightarrow> st = Some status_ok \<and> map_of (sv_queues sv') rid = None \<and> map_of (sv_writers sv') rid = None)"
  using assms
proof (induction rid ok ws sv rule: write_loop.induct)
  case (2 rid ok w ws sv)
  show ?case
  proof (cases "ok 0 \<and> \<not> wc_is_final w")
    case False
    with 2(2) have "st = Some status_ok" and "sv' = unregister rid (write_response rid w sv)"
      by (cases "ok 0"; simp add: Let_def)+
    then show ?thesis by (intro exI [of _ "[w]"] exI [of _ ws]) simp
  next
    case True
    with 2(2) have "write_loop rid (\<lambda>i. ok (Suc i)) ws (write_response rid w sv) = (st, sv')" by (simp add: Let_def)
    from 2(1) [OF refl _ _ this] True obtain us vs where
      "ws = us @ vs" and "wire_of rid sv' = wire_of rid (write_response rid w sv) @ map to_proto us"
      and "list_all (\<lambda>w. \<not> wc_is_final w) (butlast us)"
      and "st = None \<longrightarrow> vs = [] \<and> list_all (\<lambda>w. \<not> wc_is_final w) us \<and> map_of (sv_queues sv') = map_of (sv_queues sv)"
      and "st \<noteq> None \<longrightarrow> st = Some status_ok \<and> map_of (sv_queues sv') rid = None \<and> map_of (sv_writers sv') rid = None"
      by auto
    with True show ?thesis by (intro exI [of _ "w # us"] exI [of _ vs]) (simp add: butlast_append)
  qed
qed simp

lemma list_all_final_map: "list_all (\<lambda>r. \<not> so_is_final r) (map to_proto us) = list_all (\<lambda>w. \<not> wc_is_final w) us"
  by (simp add: list_all_length)

lemma stream_poll_self:
  assumes "stream_state rid ds sv"
  shows "stream_state rid ds (snd (stream_poll rid ok t sv))"
proof (cases "map_of (sv_queues sv) rid")
  case (Some q)
  let ?sv = "sv\<lparr>sv_queues := AList.update rid (q\<lparr>buffer := []\<rparr>) (sv_queues sv)\<rparr>"
  obtain st sv' where loop: "write_loop rid ok (buffer q) ?sv = (st, sv')" by fastforce
  from write_loop_self [OF loop] obtain us vs where q: "buffer q = us @ vs"
    and wire: "wire_of rid sv' = wire_of rid sv @ map to_proto us" and fin: "list_all (\<lambda>w. \<not> wc_is_final w) (butlast us)"
    and none: "st = None \<Longrightarrow> vs = [] \<and> list_all (\<lambda>w. \<not> wc_is_final w) us \<and> map_of (sv_queues sv') rid = Some (q\<lparr>buffer := []\<rparr>)"
    and some: "st \<noteq> None \<Longrightarrow> map_of (sv_queues sv') rid = None \<and> map_of (sv_writers sv') rid = None"
    by (auto simp: update_conv)
  from assms Some have ds: "map to_proto ds = wire_of rid sv @ map to_proto us @ map to_proto vs"
    and old: "list_all (\<lambda>r. \<not> so_is_final r) (wire_of rid sv)" by (simp_all add: stream_state_def q)
  have last: "list_all (\<lambda>r. \<not> so_is_final r) (butlast (wire_of rid sv'))"
  proof (cases "us = []")
    case True
    then show ?thesis using old wire by (auto simp: list_all_iff dest: in_set_butlastD)
  next
    case False
    then have "butlast (wire_of rid sv') = wire_of rid sv @ map to_proto (butlast us)"
      by (simp add: wire butlast_append map_butlast)
    then show ?thesis using old fin by (simp add: list_all_final_map)
  qed
  show ?thesis
    using Some loop last ds old none some
    by (cases st) (auto simp: stream_poll_def swap_out_all_result stream_state_def wire list_all_final_map)
qed (use assms in \<open>simp add: stream_poll_def\<close>)

lemma dispatch_write_state:
  assumes ok: "service_ok sv" and st: "stream_state rid ds sv" and d: "dispatch_write w sv = Inr sv'"
  shows "stream_state rid (ds @ writes_for rid [w]) sv'"
proof (cases "wc_request_id w = rid")
  case True
  show ?thesis
  proof (cases "map_of (sv_queues sv) rid")
    case None
    with st have "sv' = sv" and "prefix (wire_of rid sv) (map to_proto ds)"
      using d True by (simp_all add: dispatch_write_def stream_state_def)
    then show ?thesis using st None by (simp add: stream_state_def)
  next
    case (Some q)
    then have "\<not> closed q" using ok by (simp add: service_ok_def)
    with Some have "sv' = sv\<lparr>sv_queues := AList.update rid (q\<lparr>buffer := buffer q @ [w]\<rparr>) (sv_queues sv)\<rparr>"
      using d True by (simp add: dispatch_write_def send_def)
    then show ?thesis using st Some True by (simp add: stream_state_def writes_for_def update_conv)
  qed
next
  case False
  have "stream_state rid ds sv' = stream_state rid ds sv"
  proof (cases "map_of (sv_queues sv) (wc_request_id w)")
    case None
    then show ?thesis
    proof (cases "map_of (sv_writers sv) (wc_request_id w)")
      case (Some call)
      with ok have "call = wc_request_id w" by (simp add: service_ok_def)
      with Some None d False show ?thesis
        by (intro stream_state_cong) (auto simp: dispatch_write_def Let_def delete_conv)
    qed (use d in \<open>simp add: dispatch_write_def\<close>)
  next
    case (Some q)
    with d False show ?thesis
      by (intro stream_state_cong) (auto simp: dispatch_write_def update_conv split: sum.splits)
  qed
  then show ?thesis using st False by (simp add: writes_for_def)
qed

lemma dispatch_state:
  assumes "service_ok sv" and "stream_state rid ds sv" and "dispatch_to_writers ws sv = Inr sv'"
  shows "stream_state rid (ds @ writes_for rid ws) sv'"
  using assms
proof (induction ws arbitrary: sv ds)
  case Nil
  then show ?case by (simp add: writes_for_def)
next
  case (Cons w ws)
  obtain sv1 where w: "dispatch_write w sv = Inr sv1" and ok: "service_ok sv1"
    using Cons.prems(1) by (rule dispatch_write_ok)
  have "stream_state rid (ds @ writes_for rid [w]) sv1" by (rule dispatch_write_state [OF Cons.prems(1,2) w])
  from Cons.IH [OF ok this] w Cons.prems(3)
  have "stream_state rid ((ds @ writes_for rid [w]) @ writes_for rid ws) sv'" by simp
  then show ?case by (simp add: writes_for_def split: if_splits)
qed

lemma dispatch_unregistered_wire:
  assumes "service_ok sv" and "map_of (sv_queues sv) rid = None" and "map_of (sv_writers sv) rid = None"
    and "dispatch_to_writers ws sv = Inr sv'"
  shows "wire_of rid sv' = wire_of rid sv"
  using assms
proof (induction ws arbitrary: sv)
  case (Cons w ws)
  obtain sv1 where w: "dispatch_write w sv = Inr sv1" and ok: "service_ok sv1"
    using Cons.prems(1) by (rule dispatch_write_ok)
  have call: "map_of (sv_writers sv) k \<noteq> Some rid" for k
    using Cons.prems(1,3) unfolding service_ok_def by (metis option.distinct(1))
  have "wire_of rid sv1 = wire_of rid sv \<and> map_of (sv_queues sv1) rid = None \<and> map_of (sv_writers sv1) rid = None"
    using w Cons.prems(2,3) call
    by (auto simp: dispatch_write_def Let_def update_conv delete_conv split: option.splits sum.splits if_splits)
  with Cons.IH [OF ok] w Cons.prems(4) show ?case by simp
qed simp

text \<open>The ids of \<^verbatim>\<open>SynthesizeStream\<close> are not ids of \<^verbatim>\<open>SynthesizeClient\<close>.\<close>

definition stream_id :: "string \<Rightarrow> bool" where
  "stream_id rid \<longleftrightarrow> take 4 rid = ''strm''"

lemma client_ids_differ: "stream_id rid \<Longrightarrow> rid \<noteq> request_id ''cli'' n"
  by (auto simp: stream_id_def request_id_def)

lemma service_step_state:
  assumes "service_ok (fst s)" and st: "stream_state rid ds (fst s)" and "stream_id rid" and "op \<noteq> Register rid"
  shows "stream_state rid (ds @ op_writes rid op) (fst (service_step jwt op s))"
proof -
  obtain sv ch where s: "s = (sv, ch)" by fastforce
  with assms have ok: "service_ok sv" and st: "stream_state rid ds sv" by simp_all
  show ?thesis
  proof (cases op)
    case (Submit md proto)
    then show ?thesis
      using st by (auto simp: s stream_submit_def generate_request_id_def split: sum.split parse_error.split)
  next
    case (Register r)
    with assms(4) have "stream_state rid ds (stream_register r sv) = stream_state rid ds sv"
      by (intro stream_state_cong) (simp_all add: service_defs update_conv)
    with st Register show ?thesis by (simp add: s)
  next
    case (Poll r ok t)
    then show ?thesis using st stream_poll_self [OF st] stream_poll_other [of rid r ds ok t sv] by (cases "r = rid") (auto simp: s)
  next
    case (CallCancelled r)
    have "stream_state rid ds (unregister r sv)"
    proof (cases "r = rid")
      case True
      with st show ?thesis
        by (auto simp: stream_state_def list_all_iff split: option.splits dest: in_set_butlastD)
    next
      case False
      then show ?thesis using st stream_state_cong [of "unregister r sv" rid sv ds] by simp
    qed
    with CallCancelled show ?thesis by (simp add: s stream_cancelled_def)
  next
    case (ClientOpen md)
    have "stream_state rid ds (register_writer (request_id ''cli'' n) c (sv\<lparr>sv_counter := m\<rparr>)) = stream_state rid ds sv" for n c m
      using client_ids_differ [OF assms(3), of n]
      by (intro stream_state_cong) (simp_all add: register_writer_def update_conv)
    with ClientOpen st show ?thesis by (simp add: s client_open_def generate_request_id_def)
  next
    case (ClientChunk r first c)
    with st show ?thesis by (simp add: s)
  next
    case (Dispatch ws)
    from dispatch_ok [OF ok] obtain sv' where "dispatch_to_writers ws sv = Inr sv'" by blast
    with Dispatch dispatch_state [OF ok st this] show ?thesis by (simp add: s)
  qed
qed

lemma service_run_state:
  assumes "service_ok (fst s)" and "stream_state rid ds (fst s)" and "stream_id rid" and "Register rid \<notin> set ops"
  shows "stream_state rid (ds @ dispatched rid ops) (fst (service_run jwt ops s))"
  using assms
proof (induction ops arbitrary: s ds)
  case Nil
  then show ?case by (simp add: service_run_def dispatched_def)
next
  case (Cons op ops)
  then have "stream_state rid (ds @ op_writes rid op) (fst (service_step jwt op s))"
    by (intro service_step_state) auto
  from Cons.IH [OF service_step_ok [OF Cons.prems(1)] this Cons.prems(3)] Cons.prems(4)
  show ?case by (simp add: service_run_def dispatched_def)
qed

section \<open>Submission\<close>

lemma stream_submit_accepts:
  assumes "check_auth jwt md" and "acceptable_audio (sp_audio proto)" and "\<not> closed ch"
  shows "\<exists>r. stream_submit jwt md proto (sv, ch) =
      (Inr (request_id ''strm'' (sv_counter sv)), sv\<lparr>sv_counter := sv_counter sv + 1\<rparr>, ch\<lparr>buffer := buffer ch @ [ReqMsg r]\<rparr>) \<and>
    rq_request_id r = request_id ''strm'' (sv_counter sv) \<and> rq_kind r = OpenStream \<and> rq_text r = sp_text proto \<and>
    rq_backend r = to_backend (sp_backend proto) \<and> rq_voice r = apply_voice (sp_voice proto) default_voice_settings"
proof -
  have "enforce_audio_invariants (apply_audio (sp_audio proto) default_audio_settings) = Inr ()"
    using assms(2) by (simp add: enforce_applied)
  then show ?thesis
    using assms(1,3)
    by (simp add: stream_submit_def generate_request_id_def parse_unary_def Let_def default_request_audio send_def)
      (simp add: default_request_def, rule exI, rule conjI, rule refl, simp)
qed

section \<open>Ids\<close>

fun take_ids :: "string list \<Rightarrow> service \<Rightarrow> string list" where
  "take_ids [] sv = []"
| "take_ids (tag # tags) sv = (case generate_request_id tag sv of (rid, sv') \<Rightarrow> rid # take_ids tags sv')"

lemma request_id_number: "request_id tag n = request_id tag' m \<Longrightarrow> n = m"
proof -
  have suffix: "takeWhile (\<lambda>c. c \<noteq> CHR ''-'') (rev (request_id t k)) = rev (to_string_u64 k)" for t k
  proof -
    have "takeWhile (\<lambda>c. c \<noteq> CHR ''-'') (rev (to_string_u64 k) @ CHR ''-'' # rev t) = rev (to_string_u64 k)"
      using dec_no_dash [of "unat k"] by (subst takeWhile_append2) (auto simp: to_string_u64_def)
    then show ?thesis by (simp add: request_id_def)
  qed
  assume "request_id tag n = request_id tag' m"
  with suffix [of tag n] suffix [of tag' m] have "to_string_u64 n = to_string_u64 m" by simp
  then show "n = m" by (simp add: u64_text.enc_eq_iff)
qed

lemma take_ids_nth: "i < length tags \<Longrightarrow> take_ids tags sv ! i = request_id (tags ! i) (sv_counter sv + of_nat i)"
proof (induction tags arbitrary: sv i)
  case (Cons tag tags)
  show ?case
  proof (cases i)
    case (Suc j)
    with Cons.prems Cons.IH [of j "sv\<lparr>sv_counter := sv_counter sv + 1\<rparr>"]
    show ?thesis by (simp add: generate_request_id_def ac_simps)
  qed (simp add: generate_request_id_def)
qed simp

lemma take_ids_length [simp]: "length (take_ids tags sv) = length tags"
  by (induction tags arbitrary: sv) (simp_all add: generate_request_id_def)

section \<open>Properties\<close>

text \<open>
  C7. What a stream receives: whatever the other calls and the heartbeat do in between, a call of SynthesizeStream, from its
  registration on, sends its client exactly the responses for its own request, in the order of dispatch, without gap or
  repetition; nothing follows a final response; and while the call runs, what was dispatched and not yet sent is in its queue.
\<close>

theorem stream_receives_in_order:
  assumes "service_ok sv" and "wire_of rid sv = []" and "stream_id rid" and "Register rid \<notin> set ops"
  shows "let sv' = fst (service_run jwt ops (stream_register rid sv, ch)) in
    prefix (wire_of rid sv') (map to_proto (dispatched rid ops)) \<and>
    list_all (\<lambda>r. \<not> so_is_final r) (butlast (wire_of rid sv')) \<and>
    (case map_of (sv_queues sv') rid of
       Some q \<Rightarrow> wire_of rid sv' @ map to_proto (buffer q) = map to_proto (dispatched rid ops)
     | None \<Rightarrow> True)"
proof -
  let ?sv = "stream_register rid sv"
  have ok: "service_ok ?sv" using service_step_ok [of "(sv, ch)" jwt "Register rid"] assms(1) by simp
  have "wire_of rid ?sv = []" using assms(2) by (simp add: service_defs)
  then have "stream_state rid [] ?sv" by (simp add: stream_state_def) (simp add: service_defs update_conv new_channel_def)
  with ok service_run_state [of "(?sv, ch)" rid "[]" ops jwt] assms
  have "stream_state rid (dispatched rid ops) (fst (service_run jwt ops (?sv, ch)))" by simp
  then show ?thesis
    by (auto simp: Let_def stream_state_def list_all_iff split: option.splits dest: in_set_butlastD)
qed

theorem stream_receives_in_order_witness:
  "let sv' = fst (service_run None
      [Dispatch [default_write\<lparr>wc_request_id := ''strm-1''\<rparr>, default_write\<lparr>wc_request_id := ''strm-2''\<rparr>],
       Poll ''strm-1'' (\<lambda>_. True) False, Dispatch [default_write\<lparr>wc_request_id := ''strm-1'', wc_is_final := True\<rparr>]]
      (stream_register ''strm-1'' new_service, new_channel)) in
    prefix (wire_of ''strm-1'' sv') (map to_proto
      [default_write\<lparr>wc_request_id := ''strm-1''\<rparr>, default_write\<lparr>wc_request_id := ''strm-1'', wc_is_final := True\<rparr>]) \<and>
    list_all (\<lambda>r. \<not> so_is_final r) (butlast (wire_of ''strm-1'' sv'))"
  using stream_receives_in_order [of new_service "''strm-1''"
      "[Dispatch [default_write\<lparr>wc_request_id := ''strm-1''\<rparr>, default_write\<lparr>wc_request_id := ''strm-2''\<rparr>],
        Poll ''strm-1'' (\<lambda>_. True) False, Dispatch [default_write\<lparr>wc_request_id := ''strm-1'', wc_is_final := True\<rparr>]]"
      None new_channel]
  by (simp add: service_ok_def new_service_def wire_of_def stream_id_def dispatched_def writes_for_def Let_def)

text \<open>
  The service never throws out of the heartbeat thread: in every reachable state every dispatch returns, because no
  queue of a stream is ever closed, and each writer still writes to the stream of the call that registered it.
\<close>

theorem dispatch_never_throws:
  "service_ok (fst (service_run jwt ops (new_service, ch))) \<and>
   (\<exists>sv'. dispatch_to_writers ws (fst (service_run jwt ops (new_service, ch))) = Inr sv')"
proof -
  have "service_ok (fst (service_run jwt ops (new_service, ch)))"
    unfolding service_run_def
    by (rule service_run.run_good [of "(new_service, ch)" jwt ops]) (simp_all add: service_ok_def new_service_def all_guarded_True)
  with dispatch_ok [OF this, of ws] show ?thesis by blast
qed

text \<open>
  Request ids are unique: as long as fewer than 2 to the 64 are drawn, no two calls get the same id, whatever their tags.
\<close>

theorem request_ids_unique:
  assumes "length tags \<le> 2 ^ 64"
  shows "distinct (take_ids tags sv)"
proof (unfold distinct_conv_nth, intro allI impI)
  fix i j
  assume "i < length (take_ids tags sv)" and "j < length (take_ids tags sv)" and "i \<noteq> j"
  then have ij: "i < length tags" "j < length tags" "i \<noteq> j" by simp_all
  show "take_ids tags sv ! i \<noteq> take_ids tags sv ! j"
  proof
    assume "take_ids tags sv ! i = take_ids tags sv ! j"
    then have "sv_counter sv + of_nat i = sv_counter sv + of_nat j"
      using ij by (auto simp: take_ids_nth dest: request_id_number)
    then have "(of_nat i :: u64) = of_nat j" by simp
    moreover have "i < 2 ^ 64" "j < 2 ^ 64" using ij assms by simp_all
    moreover have "unat (of_nat n :: u64) = n mod 2 ^ 64" for n by (simp add: unat_of_nat)
    ultimately have "i = j" by (metis mod_less)
    with ij show False by simp
  qed
qed

theorem request_ids_unique_witness: "distinct (take_ids [''strm'', ''cli'', ''strm''] new_service)"
  by (rule request_ids_unique) simp

lemma check_auth_iff:
  "check_auth jwt md \<longleftrightarrow> jwt = None \<or> (\<exists>verify token. jwt = Some verify \<and>
      map_of md ''authorization'' = Some (''Bearer '' @ token) \<and> verify token ''tts-service'' = Jwt_Ok)"
proof -
  have split: "take 7 v = ''Bearer '' \<longleftrightarrow> (\<exists>token. v = ''Bearer '' @ token)" for v :: string
  proof
    assume "take 7 v = ''Bearer ''"
    then show "\<exists>token. v = ''Bearer '' @ token" using append_take_drop_id [of 7 v] by metis
  qed auto
  show ?thesis by (auto simp: check_auth_def split split: option.splits)
qed

text \<open>
  C29. Authentication guards every call: a call passes exactly when verification is switched off or the authorization
  header is "Bearer " followed by a token the verifier accepts for the issuer tts-service; a refused call returns
  UNAUTHENTICATED, sends no message, takes no id and registers nothing.
\<close>

theorem authentication_guards_calls:
  "(check_auth jwt md \<longleftrightarrow> jwt = None \<or> (\<exists>verify token. jwt = Some verify \<and>
      map_of md ''authorization'' = Some (''Bearer '' @ token) \<and> verify token ''tts-service'' = Jwt_Ok)) \<and>
   (if check_auth jwt md then fst (stream_submit jwt md proto s) \<noteq> Inl unauth \<and> get_metrics jwt md m \<noteq> Inl unauth
    else stream_submit jwt md proto s = (Inl unauth, s) \<and> synthesize_client jwt md chunks s = (unauth, s) \<and>
      get_metrics jwt md m = Inl unauth)"
proof (intro conjI)
  show "check_auth jwt md \<longleftrightarrow> jwt = None \<or> (\<exists>verify token. jwt = Some verify \<and>
      map_of md ''authorization'' = Some (''Bearer '' @ token) \<and> verify token ''tts-service'' = Jwt_Ok)"
    by (rule check_auth_iff)
  show "if check_auth jwt md then fst (stream_submit jwt md proto s) \<noteq> Inl unauth \<and> get_metrics jwt md m \<noteq> Inl unauth
    else stream_submit jwt md proto s = (Inl unauth, s) \<and> synthesize_client jwt md chunks s = (unauth, s) \<and>
      get_metrics jwt md m = Inl unauth"
    by (cases s) (auto simp: stream_submit_def synthesize_client_def client_open_def get_metrics_def unauth_def
        split: sum.split parse_error.split prod.split)
qed

text \<open>
  A response can be lost between submission and registration: SynthesizeStream sends its request before it
  registers its queue, and what the heartbeat dispatches for the request in between leaves no trace: the queue the call then registers is
  empty and nothing was sent.
\<close>

theorem response_lost_before_registration:
  assumes "stream_submit jwt md proto (sv, ch) = (Inr rid, sv1, ch1)"
    and "map_of (sv_queues sv) rid = None" and "map_of (sv_writers sv) rid = None"
    and "list_all (\<lambda>w. wc_request_id w = rid) ws"
  shows "service_run jwt [Submit md proto, Dispatch ws, Register rid] (sv, ch) = (stream_register rid sv1, ch1) \<and>
    map_of (sv_queues (stream_register rid sv1)) rid = Some new_channel \<and> sv_wire (stream_register rid sv1) = sv_wire sv"
proof -
  have sv1: "sv_queues sv1 = sv_queues sv" "sv_writers sv1 = sv_writers sv" "sv_wire sv1 = sv_wire sv"
    using assms(1) by (auto simp: stream_submit_def generate_request_id_def split: if_splits sum.splits parse_error.splits)
  have "dispatch_to_writers ws sv1 = Inr sv1"
    using assms(4) by (induction ws) (simp_all add: dispatch_write_def sv1 assms(2,3))
  then show ?thesis using assms(1) by (simp add: service_run_def service_defs update_conv sv1)
qed

theorem response_lost_before_registration_witness:
  "sv_wire (fst (service_run None [Submit [] empty_request, Dispatch [default_write\<lparr>wc_request_id := ''strm-1''\<rparr>], Register ''strm-1'']
     (new_service, new_channel))) = []"
proof -
  have d: "dec (Suc 0) = ''1''" by code_simp
  have rid: "request_id ''strm'' (sv_counter new_service) = ''strm-1''"
    by (simp add: new_service_def request_id_def to_string_u64_def d)
  have "acceptable_audio (sp_audio empty_request)" by (simp add: acceptable_audio_def empty_request_def)
  from stream_submit_accepts [of None "[]", OF _ this, of new_channel new_service]
  obtain sv1 ch1 where "stream_submit None [] empty_request (new_service, new_channel) = (Inr ''strm-1'', sv1, ch1)"
    by (auto simp: check_auth_def new_channel_def rid)
  from response_lost_before_registration [OF this, of "[default_write\<lparr>wc_request_id := ''strm-1''\<rparr>]"]
  show ?thesis by (simp add: new_service_def)
qed

text \<open>
  A client stream is answered once, on a stream that is gone: SynthesizeClient returns when the client has sent its last
  chunk and leaves its writer registered, so the next dispatch for its id is written to the stream of the finished
  call; the first final write removes the writer, and every later answer of the same call is dropped.
\<close>

theorem client_stream_answered_once:
  assumes "service_ok sv" and "client_open jwt md sv = (Inr rid, sv1)" and "map_of (sv_queues sv) rid = None"
    and "wc_request_id w = rid" and "wc_is_final w"
  shows "map_of (sv_writers (fst (snd (synthesize_client jwt md chunks (sv, ch))))) rid = Some rid \<and>
    (\<exists>sv'. dispatch_to_writers (w # ws) (fst (snd (synthesize_client jwt md chunks (sv, ch)))) = Inr sv' \<and>
      wire_of rid sv' = wire_of rid sv @ [to_proto w])"
proof -
  let ?sv = "fst (snd (synthesize_client jwt md chunks (sv, ch)))"
  have sv: "?sv = sv1" using assms(2) by (simp add: synthesize_client_def split: prod.split)
  have reg: "map_of (sv_writers sv1) rid = Some rid" "sv_queues sv1 = sv_queues sv" "wire_of rid sv1 = wire_of rid sv" "service_ok sv1"
    using assms(1,2) service_step_ok [of "(sv, ch)" jwt "ClientOpen md"]
    by (auto simp: client_open_def generate_request_id_def register_writer_def update_conv split: if_splits)
  define sv2 where "sv2 = (write_response rid w sv1)\<lparr>sv_writers := AList.delete rid (sv_writers (write_response rid w sv1))\<rparr>"
  have first: "dispatch_write w sv1 = Inr sv2"
    using assms(3-5) reg by (simp add: dispatch_write_def sv2_def Let_def)
  then have ok: "service_ok sv2" using dispatch_write_ok [OF reg(4), of w] by auto
  have "wire_of rid sv2 = wire_of rid sv @ [to_proto w]" by (simp add: sv2_def reg)
  moreover have "map_of (sv_queues sv2) rid = None" and "map_of (sv_writers sv2) rid = None"
    using assms(3) reg by (simp_all add: sv2_def delete_conv)
  moreover obtain sv3 where "dispatch_to_writers ws sv2 = Inr sv3" using dispatch_ok [OF ok] by blast
  ultimately have "dispatch_to_writers (w # ws) sv1 = Inr sv3" and "wire_of rid sv3 = wire_of rid sv @ [to_proto w]"
    using first dispatch_unregistered_wire [OF ok, of rid ws sv3] by simp_all
  with sv reg show ?thesis by simp
qed

theorem client_stream_answered_once_witness:
  "map_of (sv_writers (fst (snd (synthesize_client None [] [ChunkText ''a'', ChunkFinish] (new_service, new_channel))))) ''cli-1'' =
     Some ''cli-1''"
proof -
  have d: "dec (Suc 0) = ''1''" by code_simp
  have "service_ok new_service" by (simp add: service_ok_def new_service_def)
  moreover have "client_open None [] new_service = (Inr ''cli-1'', snd (client_open None [] new_service))"
    by (simp add: client_open_def check_auth_def generate_request_id_def request_id_def to_string_u64_def new_service_def d)
  ultimately show ?thesis
    by (rule client_stream_answered_once [where w = "default_write\<lparr>wc_request_id := ''cli-1'', wc_is_final := True\<rparr>",
          THEN conjunct1]) (simp_all add: new_service_def)
qed

end
