(* ===== verification/Floating.thy ===== *)
theory Floating
  imports Tts_Prelude "HOL-Library.Log_Nat"
begin

text \<open>
  IEEE binary floating point as far as the audio code needs it. A finite \<^verbatim>\<open>float\<close> or \<^verbatim>\<open>double\<close> is the rational number it
  stands for, and every arithmetic operation is the exact one followed by \<open>fl p\<close>, rounding to the nearest number of \<open>p\<close>
  significant bits (24 and 53), ties to even. Infinities, NaN, overflow and subnormal numbers are left out: the values of the audio
  code are far from both ends of the exponent range. \<^verbatim>\<open>lrint\<close> rounds to the nearest integer, ties to even, which is the default mode.
\<close>

section \<open>Rounding\<close>

definition round_even :: "rat \<Rightarrow> int" where
  "round_even x =
     (let f = \<lfloor>x\<rfloor>; d = x - of_int f in
      if d < 1 / 2 then f else if 1 / 2 < d then f + 1 else if even f then f else f + 1)"

text \<open>The power of two that scales a number to an integer part of \<open>p\<close> bits.\<close>

definition scale_exp :: "nat \<Rightarrow> rat \<Rightarrow> int" where
  "scale_exp p x =
     (case quotient_of x of (a, b) \<Rightarrow>
        let k = int p - bitlen \<bar>a\<bar> + bitlen b in if \<bar>x\<bar> * 2 powi k < 2 ^ p then k else k - 1)"

definition fl :: "nat \<Rightarrow> rat \<Rightarrow> rat" where
  "fl p x = (if x = 0 then 0 else of_int (round_even (x * 2 powi scale_exp p x)) / 2 powi scale_exp p x)"

abbreviation double :: "rat \<Rightarrow> rat" where
  "double \<equiv> fl 53"

abbreviation single :: "rat \<Rightarrow> rat" where
  "single \<equiv> fl 24"

section \<open>Rounding to integers\<close>

lemma round_even_bounds: "of_int (round_even x) - 1 / 2 \<le> x" "x \<le> of_int (round_even x) + 1 / 2"
proof -
  define f where "f = (of_int \<lfloor>x\<rfloor> :: rat)"
  have f: "f \<le> x" "x < f + 1" unfolding f_def by linarith+
  consider "x - f < 1 / 2" "of_int (round_even x) = f" | "1 / 2 < x - f" "of_int (round_even x) = f + 1"
    | "x - f = 1 / 2" "of_int (round_even x) = f \<or> of_int (round_even x) = f + 1"
    unfolding f_def round_even_def Let_def by (cases "x - of_int \<lfloor>x\<rfloor>" "1 / 2 :: rat" rule: linorder_cases) auto
  then show "of_int (round_even x) - 1 / 2 \<le> x" "x \<le> of_int (round_even x) + 1 / 2"
    using f by (cases; linarith)+
qed

lemma round_even_of_int [simp]: "round_even (of_int n) = n"
  by (simp add: round_even_def)

lemma round_even_power [simp]: "round_even (2 ^ n) = 2 ^ n"
  using round_even_of_int [of "2 ^ n"] by simp

lemma round_even_mono:
  assumes "x \<le> y"
  shows "round_even x \<le> round_even y"
proof (rule ccontr)
  assume "\<not> ?thesis"
  then have gt: "round_even y + 1 \<le> round_even x" by simp
  then have "of_int (round_even y) + 1 \<le> (of_int (round_even x) :: rat)" by (metis of_int_1 of_int_add of_int_le_iff)
  with round_even_bounds [of x] round_even_bounds [of y] assms
  have "x = y" by linarith
  with gt show False by simp
qed

lemma round_even_between: "of_int a \<le> x \<Longrightarrow> x \<le> of_int b \<Longrightarrow> a \<le> round_even x \<and> round_even x \<le> b"
  using round_even_mono [of "of_int a" x] round_even_mono [of x "of_int b"] by simp

lemma floor_minus_frac: "\<lfloor>- x\<rfloor> = (if x = of_int \<lfloor>x\<rfloor> then - \<lfloor>x\<rfloor> else - \<lfloor>x\<rfloor> - 1)" for x :: rat
  by (simp add: floor_eq_iff) linarith

lemma round_even_minus: "round_even (- x) = - round_even x"
proof (cases "x = of_int \<lfloor>x\<rfloor>")
  case True
  then show ?thesis by (metis of_int_minus round_even_of_int)
next
  case False
  then have "\<lfloor>- x\<rfloor> = - \<lfloor>x\<rfloor> - 1" by (simp add: floor_minus_frac)
  then show ?thesis by (auto simp: round_even_def Let_def)
qed

section \<open>Rounding to floating point\<close>

lemma pow2_pos [simp]: "(0 :: rat) < 2 powi k"
  by simp

lemma powi_le: "k \<le> l \<Longrightarrow> (2 :: rat) powi k \<le> 2 powi l"
  by (simp add: power_int_increasing)

lemma pow_pred: "0 < p \<Longrightarrow> (2 :: rat) ^ p = 2 * 2 ^ (p - 1)"
  by (cases p) simp_all

lemma bitlen_range:
  assumes "0 < (a :: int)"
  shows "(2 :: rat) powi (bitlen a - 1) \<le> of_int a" "of_int a < (2 :: rat) powi bitlen a"
proof -
  have "0 < bitlen a" using assms by (simp add: bitlen_eq_zero_iff bitlen_nonneg order_less_le)
  then have e: "(2 :: rat) powi (bitlen a - 1) = of_int (2 ^ nat (bitlen a - 1))" "(2 :: rat) powi bitlen a = of_int (2 ^ nat (bitlen a))"
    by (simp_all add: power_int_def)
  show "(2 :: rat) powi (bitlen a - 1) \<le> of_int a" "of_int a < (2 :: rat) powi bitlen a"
    unfolding e of_int_le_iff of_int_less_iff using bitlen_bounds [OF assms] by auto
qed

lemma scale_exp_range:
  assumes "x \<noteq> 0" and "0 < p"
  shows "2 ^ (p - 1) \<le> \<bar>x\<bar> * 2 powi scale_exp p x" "\<bar>x\<bar> * 2 powi scale_exp p x < 2 ^ p"
proof -
  obtain a b where q: "quotient_of x = (a, b)" by fastforce
  then have b: "0 < b" and x: "x = of_int a / of_int b"
    by (auto dest: quotient_of_denom_pos quotient_of_div)
  with assms(1) have a: "0 < \<bar>a\<bar>" by auto
  define la lb where "la = bitlen \<bar>a\<bar>" and "lb = bitlen b"
  define k where "k = int p - la + lb"
  have ax: "\<bar>x\<bar> = of_int \<bar>a\<bar> / of_int b" using b by (simp add: x)
  have A: "(2 :: rat) powi (la - 1) \<le> of_int \<bar>a\<bar>" "of_int \<bar>a\<bar> < (2 :: rat) powi la"
    using bitlen_range [OF a] by (simp_all add: la_def)
  have B: "(2 :: rat) powi (lb - 1) \<le> of_int b" "of_int b < (2 :: rat) powi lb"
    using bitlen_range [OF b] by (simp_all add: lb_def)
  have split: "(2 :: rat) powi k = 2 powi (int p - la) * 2 powi lb" by (simp add: k_def power_int_add [symmetric])
  have "(2 :: rat) powi (int p - 1) * of_int b \<le> 2 powi (int p - 1) * 2 powi lb"
    using B(2) by (intro mult_left_mono) simp_all
  also have "\<dots> = 2 powi (la - 1) * 2 powi k" by (simp add: k_def power_int_add [symmetric] algebra_simps)
  also have "\<dots> \<le> of_int \<bar>a\<bar> * 2 powi k" using A(1) by (intro mult_right_mono) simp_all
  finally have low: "2 powi (int p - 1) \<le> \<bar>x\<bar> * 2 powi k" using b by (simp add: ax field_simps)
  have "of_int \<bar>a\<bar> * (2 :: rat) powi k < 2 powi la * 2 powi k" using A(2) by (intro mult_strict_right_mono) simp_all
  also have "\<dots> = 2 powi (int p + 1) * 2 powi (lb - 1)" by (simp add: k_def power_int_add [symmetric] algebra_simps)
  also have "\<dots> \<le> 2 powi (int p + 1) * of_int b" using B(1) by (intro mult_left_mono) simp_all
  finally have high: "\<bar>x\<bar> * 2 powi k < 2 powi (int p + 1)" using b by (simp add: ax field_simps)
  have p: "(2 :: rat) powi (int p - 1) = 2 ^ (p - 1)" "(2 :: rat) powi (int p + 1) = 2 * 2 ^ p" "(2 :: rat) ^ p = 2 * 2 ^ (p - 1)"
    using assms(2) by (simp_all add: power_int_def nat_diff_distrib power_Suc [symmetric] del: power_Suc)
  have half: "\<bar>x\<bar> * 2 powi (k - 1) = \<bar>x\<bar> * 2 powi k / 2" by (simp add: power_int_diff)
  have "scale_exp p x = (if \<bar>x\<bar> * 2 powi k < 2 ^ p then k else k - 1)"
    by (simp add: scale_exp_def q k_def la_def lb_def Let_def)
  then show "2 ^ (p - 1) \<le> \<bar>x\<bar> * 2 powi scale_exp p x" "\<bar>x\<bar> * 2 powi scale_exp p x < 2 ^ p"
    using low high p half by (auto simp only: not_less split: if_splits)
qed

lemma scale_exp_minus [simp]: "scale_exp p (- x) = scale_exp p x"
  by (simp add: scale_exp_def rat_uminus_code split: prod.split)

lemma fl_zero [simp]: "fl p 0 = 0"
  by (simp add: fl_def)

lemma fl_minus [simp]: "fl p (- x) = - fl p x"
  by (simp add: fl_def round_even_minus)

lemma fl_error:
  assumes "0 < p"
  shows "\<bar>fl p x - x\<bar> \<le> \<bar>x\<bar> / 2 ^ p"
proof (cases "x = 0")
  case False
  let ?s = "2 powi scale_exp p x :: rat"
  have "\<bar>of_int (round_even (x * ?s)) - x * ?s\<bar> \<le> 1 / 2"
    using round_even_bounds [of "x * ?s"] by linarith
  also have "1 / 2 = 2 ^ (p - 1) / (2 ^ p :: rat)" using pow_pred [OF assms] by simp
  also have "\<dots> \<le> \<bar>x\<bar> * ?s / 2 ^ p"
    using scale_exp_range(1) [OF False assms] by (intro divide_right_mono) simp_all
  finally have "\<bar>of_int (round_even (x * ?s)) - x * ?s\<bar> / ?s \<le> \<bar>x\<bar> / 2 ^ p" by (simp add: field_simps)
  moreover have "\<bar>of_int (round_even (x * ?s)) - x * ?s\<bar> / ?s = \<bar>fl p x - x\<bar>"
  proof -
    have "fl p x - x = (of_int (round_even (x * ?s)) - x * ?s) / ?s" using False by (simp add: fl_def diff_divide_distrib)
    then show ?thesis by (simp add: abs_divide)
  qed
  ultimately show ?thesis by simp
qed simp

lemma fl_exact:
  assumes "x * 2 powi scale_exp p x = of_int n"
  shows "fl p x = x"
proof (cases "x = 0")
  case False
  have "fl p x = of_int n / 2 powi scale_exp p x" using False by (simp add: fl_def assms)
  then show ?thesis by (simp add: assms [symmetric])
qed simp

lemma fl_of_int:
  assumes "0 < p" and "\<bar>n\<bar> \<le> 2 ^ p"
  shows "fl p (of_int n) = of_int n"
proof (cases "n = 0")
  case False
  let ?k = "scale_exp p (of_int n)"
  note range = scale_exp_range [of "of_int n :: rat" p]
  show ?thesis
  proof (cases "0 \<le> ?k")
    case True
    then have "(of_int n :: rat) * 2 powi ?k = of_int (n * 2 ^ nat ?k)" by (simp add: power_int_def)
    then show ?thesis by (rule fl_exact)
  next
    case neg: False
    have n: "(\<bar>of_int n\<bar> :: rat) \<le> 2 ^ p" using assms(2) by (metis of_int_abs of_int_le_iff of_int_numeral of_int_power)
    have "?k = -1"
    proof (rule ccontr)
      assume "?k \<noteq> -1"
      with neg have "(2 :: rat) powi ?k \<le> 2 powi (-2)" by (intro powi_le) simp
      also have "(2 :: rat) powi (-2) = 1 / 4" by (simp add: power_int_minus)
      finally have "\<bar>of_int n :: rat\<bar> * 2 powi ?k \<le> 2 ^ p * (1 / 4)"
        using n by (intro mult_mono) simp_all
      also have "\<dots> < 2 ^ (p - 1)" using pow_pred [OF assms(1)] by simp
      finally show False using range(1) False assms(1) by simp
    qed
    then have "2 ^ (p - 1) \<le> \<bar>of_int n :: rat\<bar> / 2" using range(1) False assms(1) by (simp add: power_int_def)
    then have "\<bar>of_int n :: rat\<bar> = 2 * 2 ^ (p - 1)" using n pow_pred [OF assms(1)] by simp
    then have "(of_int n :: rat) * 2 powi ?k = of_int (2 ^ (p - 1)) \<or> (of_int n :: rat) * 2 powi ?k = of_int (- (2 ^ (p - 1)))"
      by (auto simp: \<open>?k = -1\<close> power_int_def abs_if split: if_splits)
    then show ?thesis using fl_exact by blast
  qed
qed simp

lemma fl_mono_pos:
  assumes "0 < x" and "x \<le> y" and "0 < p"
  shows "fl p x \<le> fl p y"
proof -
  let ?k = "scale_exp p x" and ?l = "scale_exp p y"
  have rx: "2 ^ (p - 1) \<le> x * 2 powi ?k" "x * 2 powi ?k < 2 ^ p"
    using scale_exp_range [of x p] assms by simp_all
  have ry: "2 ^ (p - 1) \<le> y * 2 powi ?l" "y * 2 powi ?l < 2 ^ p"
    using scale_exp_range [of y p] assms by simp_all
  have fx: "fl p x = of_int (round_even (x * 2 powi ?k)) / 2 powi ?k" and fy: "fl p y = of_int (round_even (y * 2 powi ?l)) / 2 powi ?l"
    using assms by (simp_all add: fl_def)
  have pp: "(2 :: rat) ^ p = 2 * 2 ^ (p - 1)" using assms(3) by (rule pow_pred)
  have "?l \<le> ?k"
  proof (rule ccontr)
    assume "\<not> ?thesis"
    then have "x * 2 powi ?k * 2 \<le> y * 2 powi ?l"
      using assms powi_le [of "?k + 1" ?l] by (simp add: power_int_add mult_mono' mult.assoc)
    with rx(1) ry(2) pp show False by linarith
  qed
  then consider "?l = ?k" | "?l + 1 \<le> ?k" by linarith
  then show ?thesis
  proof cases
    case 1
    have "round_even (x * 2 powi ?k) \<le> round_even (y * 2 powi ?k)"
      using assms by (intro round_even_mono mult_right_mono) simp_all
    then show ?thesis using 1 by (simp add: fx fy divide_right_mono)
  next
    case 2
    have "round_even (x * 2 powi ?k) \<le> 2 ^ p" using round_even_mono [of "x * 2 powi ?k" "of_int (2 ^ p)"] rx(2) by simp
    then have "of_int (round_even (x * 2 powi ?k)) \<le> (2 ^ p :: rat)" by (metis of_int_le_iff of_int_numeral of_int_power)
    then have "fl p x \<le> 2 ^ p / 2 powi ?k" by (simp add: fx divide_right_mono)
    also have "\<dots> \<le> 2 ^ p / 2 powi (?l + 1)" using 2 by (intro divide_left_mono powi_le) simp_all
    also have "\<dots> = 2 ^ (p - 1) / 2 powi ?l" by (simp add: pp power_int_add)
    also have "\<dots> \<le> fl p y"
    proof -
      have "2 ^ (p - 1) \<le> round_even (y * 2 powi ?l)"
        using round_even_mono [of "of_int (2 ^ (p - 1))" "y * 2 powi ?l"] ry(1) by simp
      then have "(2 ^ (p - 1) :: rat) \<le> of_int (round_even (y * 2 powi ?l))" by (metis of_int_le_iff of_int_numeral of_int_power)
      then show ?thesis by (simp add: fy divide_right_mono)
    qed
    finally show ?thesis .
  qed
qed

lemma fl_nonneg: "0 \<le> x \<Longrightarrow> 0 < p \<Longrightarrow> 0 \<le> fl p x"
  using round_even_mono [of 0 "x * 2 powi scale_exp p x"] round_even_of_int [of 0]
  by (cases "x = 0") (simp_all add: fl_def)

lemma fl_mono:
  assumes "x \<le> y" and "0 < p"
  shows "fl p x \<le> fl p y"
proof -
  consider "0 < x" | "x \<le> 0" "0 \<le> y" | "y < 0" by linarith
  then show ?thesis
  proof cases
    case 1
    then show ?thesis using fl_mono_pos assms by blast
  next
    case 2
    then have "0 \<le> fl p (- x)" "0 \<le> fl p y" using fl_nonneg assms(2) by (simp_all del: fl_minus)
    then show ?thesis by simp
  next
    case 3
    then have "fl p (- y) \<le> fl p (- x)" using assms by (intro fl_mono_pos) simp_all
    then show ?thesis by simp
  qed
qed

lemma fl_between:
  assumes "of_int a \<le> x" and "x \<le> of_int b" and "0 < p" and "\<bar>a\<bar> \<le> 2 ^ p" and "\<bar>b\<bar> \<le> 2 ^ p"
  shows "of_int a \<le> fl p x" and "fl p x \<le> of_int b"
  using fl_mono [OF assms(1,3)] fl_mono [OF assms(2,3)] by (simp_all add: fl_of_int assms(3-5))

lemma scale_exp_unique:
  assumes "2 ^ (p - 1) \<le> \<bar>x\<bar> * 2 powi k" and "\<bar>x\<bar> * 2 powi k < 2 ^ p" and "0 < p"
  shows "scale_exp p x = k"
proof -
  have "x \<noteq> 0"
  proof
    assume "x = 0"
    with assms(1) have "(2 :: rat) ^ (p - 1) \<le> 0" by simp
    moreover have "(0 :: rat) < 2 ^ (p - 1)" by simp
    ultimately show False by linarith
  qed
  note range = scale_exp_range [OF this assms(3)]
  have step: False if "2 ^ (p - 1) \<le> \<bar>x\<bar> * 2 powi a" "\<bar>x\<bar> * 2 powi b < 2 ^ p" "a < b" for a b
  proof -
    have "\<bar>x\<bar> * 2 powi (a + 1) \<le> \<bar>x\<bar> * 2 powi b" using that(3) by (intro mult_left_mono powi_le) simp_all
    moreover have "\<bar>x\<bar> * 2 powi (a + 1) = \<bar>x\<bar> * 2 powi a * 2" by (simp add: power_int_add)
    ultimately show False using that(1,2) pow_pred [OF assms(3)] by linarith
  qed
  show ?thesis using step range assms(1,2) by (metis linorder_neqE)
qed

text \<open>Scaling by a power of two is exact, so every number of at most \<open>p\<close> bits is, wherever its point is.\<close>

lemma fl_scale:
  assumes "0 < p"
  shows "fl p (x / 2 ^ j) = fl p x / 2 ^ j"
proof (cases "x = 0")
  case False
  let ?k = "scale_exp p x"
  have e: "\<bar>x / 2 ^ j\<bar> * 2 powi (?k + int j) = \<bar>x\<bar> * 2 powi ?k" by (simp add: power_int_add abs_divide)
  have "scale_exp p (x / 2 ^ j) = ?k + int j"
    by (rule scale_exp_unique) (simp_all only: e scale_exp_range [OF False assms] assms)
  then show ?thesis using False by (simp add: fl_def power_int_add)
qed simp

lemma fl_dyadic:
  assumes "0 < p" and "\<bar>n\<bar> \<le> 2 ^ p"
  shows "fl p (of_int n / 2 ^ j) = of_int n / 2 ^ j"
  using fl_of_int [OF assms] by (simp add: fl_scale [OF assms(1)])

end
