(* ===== verification/Resampler.thy ===== *)
theory Resampler
  imports Floating "HOL-Library.Signed_Division"
begin

text \<open>
  The conversion of engine output to 16 kHz mono 16-bit audio, \<^verbatim>\<open>src/local/audio_resampler.cpp\<close>. A sample is a \<open>16 word\<close>;
  \<^verbatim>\<open>float\<close> and \<^verbatim>\<open>double\<close> values are rationals with the rounding of every operation written out (\<open>single\<close>, \<open>double\<close>).
  A result is \<open>None\<close> where the C++ code has none: the mixing loop does not end, a sample is read past the end of the input, or a
  rate that is not positive makes the output length a negative or infinite value.
\<close>

type_synonym sample = "16 word"

section \<open>Samples\<close>

definition clamp :: "rat \<Rightarrow> rat \<Rightarrow> rat \<Rightarrow> rat" where
  "clamp x lo hi = (if x < lo then lo else if hi < x then hi else x)"

definition float_to_int16 :: "rat \<Rightarrow> sample" where
  "float_to_int16 x = word_of_int (round_even (single (clamp x (- 1) 1 * 32767)))"

definition int16_to_float :: "sample \<Rightarrow> rat" where
  "int16_to_float x = single (single (of_int (sint x)) / 32768)"

fun stereo_to_mono :: "sample list \<Rightarrow> sample list" where
  "stereo_to_mono (a # b # rest) = word_of_int ((sint a + sint b) sdiv 2) # stereo_to_mono rest"
| "stereo_to_mono _ = []"

section \<open>Linear resampling\<close>

definition resample_ratio :: "int \<Rightarrow> int \<Rightarrow> rat" where
  "resample_ratio input_rate output_rate = double (of_int output_rate / of_int input_rate)"

definition resample_length :: "nat \<Rightarrow> rat \<Rightarrow> nat" where
  "resample_length n ratio = nat \<lceil>double (of_nat n * ratio)\<rceil>"

definition resample_at :: "sample list \<Rightarrow> rat \<Rightarrow> nat \<Rightarrow> sample option" where
  "resample_at input ratio i =
     (let pos = double (of_nat i / ratio);
          i0 = nat \<lfloor>pos\<rfloor>;
          i1 = min (i0 + 1) (length input - 1);
          t = double (pos - of_nat i0)
      in if i0 < length input then
           (let v = double (double (double (1 - t) * of_int (sint (input ! i0))) + double (t * of_int (sint (input ! i1))));
                v = (if 32767 < v then 32767 else v);
                v = (if v < - 32768 then - 32768 else v)
            in Some (word_of_int (round_even v)))
         else None)"

definition resample_linear_int16 :: "sample list \<Rightarrow> int \<Rightarrow> int \<Rightarrow> sample list option" where
  "resample_linear_int16 input input_rate output_rate =
     (if input = [] \<or> input_rate = output_rate then Some input
      else if input_rate \<le> 0 \<or> output_rate < 0 then None
      else
        (let ratio = resample_ratio input_rate output_rate
         in those (map (resample_at input ratio) [0..<resample_length (length input) ratio])))"

section \<open>Mixing down\<close>

fun mix_stereo :: "rat list \<Rightarrow> sample list" where
  "mix_stereo (a # b # rest) = float_to_int16 (single (1 / 2 * single (a + b))) # mix_stereo rest"
| "mix_stereo _ = []"

definition frame_sum :: "rat list \<Rightarrow> nat \<Rightarrow> nat \<Rightarrow> rat" where
  "frame_sum input i channels =
     fold (\<lambda>c sum. if i + c < length input then single (sum + input ! (i + c)) else sum) [0..<channels] 0"

text \<open>The loop \<^verbatim>\<open>for (size_t i = 0; i < input.size(); i += input_channels)\<close>: the index is a 64-bit word and the step is converted to it.\<close>

partial_function (option) mix_loop :: "int \<Rightarrow> rat list \<Rightarrow> u64 \<Rightarrow> sample list \<Rightarrow> sample list option" where
  "mix_loop channels input i pcm =
     (if unat i < length input then
        mix_loop channels input (i + word_of_int channels)
          (pcm @ [float_to_int16 (single (frame_sum input (unat i) (nat channels) / of_int channels))])
      else Some pcm)"

definition mix_down :: "rat list \<Rightarrow> int \<Rightarrow> sample list option" where
  "mix_down input channels =
     (if channels = 1 then Some (map float_to_int16 input)
      else if channels = 2 then Some (mix_stereo input)
      else mix_loop channels input 0 [])"

definition to_16k_mono_int16 :: "rat list \<Rightarrow> int \<Rightarrow> int \<Rightarrow> sample list option" where
  "to_16k_mono_int16 input input_sample_rate input_channels =
     (if input = [] then Some []
      else case mix_down input input_channels of
             None \<Rightarrow> None
           | Some pcm \<Rightarrow>
               if input_sample_rate = 16000 then Some pcm
               else resample_linear_int16 pcm input_sample_rate 16000)"

section \<open>Range of samples\<close>

lemma sint_word_of_int_16:
  assumes "- 32768 \<le> n" and "n \<le> 32767"
  shows "sint (word_of_int n :: sample) = n"
  using assms by transfer (simp add: signed_take_bit_int_eq_self)

lemma clamp_bounds: "lo \<le> hi \<Longrightarrow> lo \<le> clamp x lo hi \<and> clamp x lo hi \<le> hi"
  by (auto simp: clamp_def)

lemma float_to_int16_value:
  "sint (float_to_int16 x) = round_even (single (clamp x (- 1) 1 * 32767)) \<and> \<bar>sint (float_to_int16 x)\<bar> \<le> 32767"
proof -
  let ?y = "clamp x (- 1) 1 * 32767"
  have "of_int (- 32767) \<le> ?y" "?y \<le> of_int 32767" using clamp_bounds [of "- 1" 1 x] by simp_all
  then have "of_int (- 32767) \<le> single ?y" "single ?y \<le> of_int 32767"
    by (rule fl_between; simp)+
  from round_even_between [OF this] have "- 32767 \<le> round_even (single ?y)" "round_even (single ?y) \<le> 32767" by simp_all
  then show ?thesis unfolding float_to_int16_def by (subst (1 2) sint_word_of_int_16) simp_all
qed

section \<open>Reading positions\<close>

text \<open>
  If the ratio is not rounded up, every position computed for an output sample lies before the end of the input: the
  distance to the end is at least the inverse of the output rate, far more than all rounding errors together.
\<close>

text \<open>The index of a sample stays below the exact length, by at least a fraction of the input rate.\<close>

lemma resample_index:
  fixes n i :: nat and inr outr :: int
  defines "R \<equiv> of_int outr / of_int inr :: rat" and "r \<equiv> resample_ratio inr outr"
  assumes "0 < inr" and "0 < outr" "outr \<le> 2 ^ 20" and down: "r \<le> R"
    and n: "n \<le> 2 ^ 30" and i: "i < resample_length n r"
  shows "of_nat i \<le> of_nat n * R - 1 / of_int inr"
proof -
  have R: "0 < R" "R * of_int inr = of_int outr" using assms(3,4) by (simp_all add: R_def)
  have "int i < \<lceil>double (of_nat n * r)\<rceil>" using i by (simp add: resample_length_def)
  then have "of_int (int i) < double (of_nat n * r)" by (simp add: less_ceiling_iff)
  also have "\<dots> \<le> double (of_nat n * R)" using down by (intro fl_mono mult_left_mono) simp_all
  finally have iR: "of_nat i < double (of_nat n * R)" by simp
  have n': "(of_nat n :: rat) \<le> 2 ^ 30" using n by (metis of_nat_le_iff of_nat_numeral of_nat_power)
  have "R \<le> of_int outr / 1" unfolding R_def using assms(3,4) by (intro divide_left_mono) simp_all
  also have "\<dots> \<le> of_int (2 ^ 20)" using assms(5) by (simp only: div_by_1 of_int_le_iff)
  finally have "of_nat n * R \<le> 2 ^ 30 * of_int (2 ^ 20)" using n' R(1) by (intro mult_mono) simp_all
  then have "double (of_nat n * R) \<le> of_int (2 ^ 50)" using R(1) by (intro fl_between(2) [of 0]) simp_all
  with iR have "(of_int (int i) :: rat) < of_int (2 ^ 50)" by simp
  then have "int i < 2 ^ 50" by (simp only: of_int_less_iff)
  then have i53: "int i \<le> 2 ^ 53" by simp
  have exact: "of_nat i < of_nat n * R"
  proof (rule ccontr)
    assume "\<not> ?thesis"
    then have "double (of_nat n * R) \<le> double (of_int (int i))" by (intro fl_mono) simp_all
    also have "\<dots> = of_int (int i)" using i53 by (intro fl_of_int) simp_all
    finally show False using iR by simp
  qed
  have "of_nat i * of_int inr < of_nat n * (R * of_int inr)" using exact assms(3) by (simp add: mult.assoc [symmetric])
  then have "(of_int (int i * inr) :: rat) < of_int (int n * outr)" by (simp add: R(2))
  then have "int i * inr + 1 \<le> int n * outr" by linarith
  then have "(of_int (int i * inr + 1) :: rat) \<le> of_int (int n * outr)" by (simp only: of_int_le_iff)
  then have "of_nat i * of_int inr + 1 \<le> of_nat n * (R * of_int inr)" by (simp add: R(2))
  then show ?thesis using assms(3) by (simp add: field_simps)
qed

lemma resample_position:
  fixes n i :: nat and inr outr :: int
  defines "R \<equiv> of_int outr / of_int inr :: rat" and "r \<equiv> resample_ratio inr outr"
  assumes "0 < inr" and "0 < outr" "outr \<le> 2 ^ 20" and down: "r \<le> R"
    and n: "0 < n" "n \<le> 2 ^ 30" and i: "i < resample_length n r"
  shows "nat \<lfloor>double (of_nat i / r)\<rfloor> < n"
proof -
  have R: "0 < R" "R * of_int inr = of_int outr" using assms(3,4) by (simp_all add: R_def)
  have "\<bar>r - R\<bar> \<le> R / 2 ^ 53" using fl_error [of 53 R] R(1) by (simp add: r_def resample_ratio_def R_def)
  then have low: "R - R / 2 ^ 53 \<le> r" by linarith
  moreover have "R / 2 ^ 53 < R" using R(1) by simp
  ultimately have r: "0 < r" by linarith
  have n': "(of_nat n :: rat) \<le> 2 ^ 30" using n(2) by (metis of_nat_le_iff of_nat_numeral of_nat_power)
  have i': "of_nat i \<le> of_nat n * R - 1 / of_int inr"
    using resample_index [OF assms(3-5), folded R_def r_def, OF down n(2) i] .
  define x where "x = of_nat i / r"
  have "x \<le> (of_nat n * R - 1 / of_int inr) / r" using i' r by (simp add: x_def divide_right_mono)
  also have "\<dots> = of_nat n * (R / r) - 1 / (of_int inr * r)" by (simp add: diff_divide_distrib)
  also have "\<dots> \<le> of_nat n * (1 + 1 / 2 ^ 52) - 1 / 2 ^ 20"
  proof -
    have "R \<le> r * (1 + 1 / 2 ^ 52)" using low r by (simp add: field_simps)
    then have a: "of_nat n * (R / r) \<le> of_nat n * (1 + 1 / 2 ^ 52)" using r by (intro mult_left_mono) (simp_all add: field_simps)
    have "of_int inr * r \<le> of_int inr * R" using down assms(3) by (intro mult_left_mono) simp_all
    also have "\<dots> \<le> of_int (2 ^ 20)" using R(2) assms(5) by (simp only: mult.commute [of _ R] of_int_le_iff)
    finally have b: "1 / 2 ^ 20 \<le> 1 / (of_int inr * r)" using r assms(3) by (intro divide_left_mono) simp_all
    from a b show ?thesis by linarith
  qed
  finally have x: "x \<le> of_nat n + of_nat n / 2 ^ 52 - 1 / 2 ^ 20" by (simp add: algebra_simps)
  have x0: "0 \<le> x" using r by (simp add: x_def)
  have "\<bar>double x - x\<bar> \<le> x / 2 ^ 53" using fl_error [of 53 x] x0 by simp
  then have "double x \<le> x + x / 2 ^ 53" by linarith
  then have "double x < of_int (int n)" using x n' by simp
  then have "\<lfloor>double x\<rfloor> < int n" by (simp add: floor_less_iff)
  then show ?thesis using n(1) unfolding x_def by (metis nat_int of_nat_0_less_iff zless_nat_conj)
qed

lemma those_map_some: "(\<And>x. x \<in> set xs \<Longrightarrow> f x \<noteq> None) \<Longrightarrow> \<exists>ys. those (map f xs) = Some ys \<and> length ys = length xs"
proof (induction xs)
  case (Cons x xs)
  then obtain y ys where "f x = Some y" and "those (map f xs) = Some ys" and "length ys = length xs" by fastforce
  then show ?case by simp
qed simp

lemma those_none: "None \<in> set xs \<Longrightarrow> those xs = None"
  by (induction xs) (auto split: option.splits)

section \<open>The mixing loop\<close>

definition mixed_frame :: "rat list \<Rightarrow> nat \<Rightarrow> nat \<Rightarrow> sample" where
  "mixed_frame input c i = float_to_int16 (single (frame_sum input i c / of_nat c))"

lemma mix_loop_steps:
  assumes "0 < c" and "length input + c < 2 ^ 64" and "i < 2 ^ 64"
  shows "mix_loop (int c) input (of_nat i) pcm =
    Some (pcm @ map (\<lambda>k. mixed_frame input c (i + k * c)) [0..<(length input - i + c - 1) div c])"
  using assms(3)
proof (induction "length input - i" arbitrary: i pcm rule: less_induct)
  case less
  have u: "unat (of_nat i :: u64) = i" using less.prems by (simp add: unat_of_nat)
  show ?case
  proof (cases "i < length input")
    case False
    with assms(1) have "(length input - i + c - 1) div c = 0" by simp
    with False show ?thesis by (subst mix_loop.simps) (simp add: u)
  next
    case True
    have next_i: "(of_nat i :: u64) + word_of_int (int c) = of_nat (i + c)" by simp
    define m where "m = (length input - (i + c) + c - 1) div c"
    have cnt: "(length input - i + c - 1) div c = Suc m"
    proof (cases "i + c \<le> length input")
      case True
      then have "length input - i + c - 1 = (length input - (i + c) + c - 1) + c" using assms(1) by simp
      then have "(length input - i + c - 1) div c = ((length input - (i + c) + c - 1) + c) div c" by (rule arg_cong)
      also have "\<dots> = Suc m" unfolding m_def using assms(1) by (simp only: div_add_self2)
      finally show ?thesis .
    next
      case False
      then have "(length input - i + c - 1) div c = 1"
        using True assms(1) by (intro div_nat_eqI) simp_all
      moreover have "m = 0" using False assms(1) by (simp add: m_def)
      ultimately show ?thesis by simp
    qed
    have "mix_loop (int c) input (of_nat i) pcm = mix_loop (int c) input (of_nat (i + c)) (pcm @ [mixed_frame input c i])"
      using True by (subst mix_loop.simps) (simp add: u mixed_frame_def next_i [symmetric])
    also have "\<dots> = Some ((pcm @ [mixed_frame input c i]) @ map (\<lambda>k. mixed_frame input c (i + c + k * c)) [0..<m])"
      unfolding m_def using True assms(1,2) by (intro less.hyps) simp_all
    also have "\<dots> = Some (pcm @ map (\<lambda>k. mixed_frame input c (i + k * c)) [0..<Suc m])"
      by (simp only: upt_rec [of 0 "Suc m"]) (simp add: map_Suc_upt [symmetric] add.assoc del: upt_Suc)
    finally show ?thesis unfolding cnt .
  qed
qed

lemma mix_loop_no_channels:
  assumes "mix_loop channels input i pcm = Some y"
  shows "channels = 0 \<longrightarrow> length input \<le> unat i"
proof (rule mix_loop.raw_induct [where P = "\<lambda>channels input i pcm y. channels = 0 \<longrightarrow> length input \<le> unat i", OF _ assms])
  fix rec and channels :: int and input :: "rat list" and i :: u64 and pcm y :: "sample list"
  assume IH: "\<And>channels input i pcm y. rec channels input i pcm = Some y \<Longrightarrow> channels = 0 \<longrightarrow> length input \<le> unat i"
    and step: "(if unat i < length input
      then rec channels input (i + word_of_int channels)
        (pcm @ [float_to_int16 (single (frame_sum input (unat i) (nat channels) / of_int channels))])
      else Some pcm) = Some y"
  show "channels = 0 \<longrightarrow> length input \<le> unat i"
    using step IH [of channels input "i + word_of_int channels"] by (auto split: if_splits)
qed

lemma mix_stereo_length: "length (mix_stereo xs) = length xs div 2"
  by (induction xs rule: mix_stereo.induct) simp_all

lemma stereo_to_mono_length: "length (stereo_to_mono xs) = length xs div 2"
  by (induction xs rule: stereo_to_mono.induct) simp_all

section \<open>Common rates\<close>

lemma resample_defined:
  assumes "input_rate \<in> {8000, 11025, 12000, 22050, 24000, 32000, 44100, 48000}" and "length input \<le> 2 ^ 30"
  shows "\<exists>ys. resample_linear_int16 input input_rate 16000 = Some ys \<and>
    length ys = resample_length (length input) (resample_ratio input_rate 16000)"
proof (cases "input = []")
  case True
  then show ?thesis by (simp add: resample_linear_int16_def resample_length_def)
next
  case False
  let ?r = "resample_ratio input_rate 16000"
  have down: "?r \<le> of_int 16000 / of_int input_rate"
  proof -
    have "list_all (\<lambda>q. resample_ratio q 16000 \<le> of_int 16000 / of_int q) [8000, 11025, 12000, 22050, 24000, 32000, 44100, 48000]"
      by code_simp
    then show ?thesis using assms(1) by auto
  qed
  have rate: "0 < input_rate" "input_rate \<noteq> 16000" using assms(1) by auto
  have "resample_at input ?r i \<noteq> None" if "i < resample_length (length input) ?r" for i
    using resample_position [OF rate(1) _ _ down _ assms(2) that] False by (simp add: resample_at_def Let_def)
  then obtain ys where "those (map (resample_at input ?r) [0..<resample_length (length input) ?r]) = Some ys"
    and "length ys = resample_length (length input) ?r"
    using those_map_some [of "[0..<resample_length (length input) ?r]" "resample_at input ?r"] by auto
  then show ?thesis using False rate by (simp add: resample_linear_int16_def Let_def)
qed

lemma to_16k_defined:
  assumes "input_rate \<in> {8000, 11025, 12000, 16000, 22050, 24000, 32000, 44100, 48000}" and "length input \<le> 2 ^ 30"
  shows "\<exists>ys. to_16k_mono_int16 input input_rate 1 = Some ys"
  using resample_defined [of input_rate "map float_to_int16 input"] assms
  by (auto simp: to_16k_mono_int16_def mix_down_def)

section \<open>Properties\<close>

text \<open>
  C37. Resampling to 16 kHz stays inside the input: from every common engine rate and for up to 2 to the 30 samples, with all
  rounding of double arithmetic taken into account, no sample is read past the end, and the result has the computed length.
\<close>

theorem resampling_reads_in_range:
  assumes "input_rate \<in> {8000, 11025, 12000, 22050, 24000, 32000, 44100, 48000}" and "length input \<le> 2 ^ 30"
  shows "\<exists>ys. resample_linear_int16 input input_rate 16000 = Some ys \<and>
    length ys = resample_length (length input) (resample_ratio input_rate 16000)"
  using assms by (rule resample_defined)

theorem resampling_reads_in_range_witness:
  "\<exists>ys. resample_linear_int16 [1, 2, 3] 24000 16000 = Some ys \<and> length ys = 2"
proof -
  have "resample_length (length [1 :: sample, 2, 3]) (resample_ratio 24000 16000) = 2" by code_simp
  moreover have "length [1 :: sample, 2, 3] \<le> 2 ^ 30" by simp
  ultimately show ?thesis using resampling_reads_in_range [of 24000 "[1, 2, 3]"] by (simp only: insert_iff simp_thms)
qed

text \<open>
  The guard on the reading position is incomplete: only the second of the two interpolated samples is kept inside the
  input. At a rate of 1360 Hz, 85 samples make the rounded length one too large, and the last output sample reads input sample 85.
\<close>

theorem resampling_can_read_past_end:
  "resample_length 85 (resample_ratio 1360 16000) = 1001 \<and>
   nat \<lfloor>double (1000 / resample_ratio 1360 16000)\<rfloor> = 85 \<and>
   resample_linear_int16 (replicate 85 s) 1360 16000 = None"
proof -
  have len: "resample_length 85 (resample_ratio 1360 16000) = 1001" by code_simp
  have pos: "nat \<lfloor>double (1000 / resample_ratio 1360 16000)\<rfloor> = 85" by code_simp
  then have "resample_at (replicate 85 s) (resample_ratio 1360 16000) 1000 = None"
    by (simp add: resample_at_def Let_def)
  moreover have "(1000 :: nat) \<in> set [0..<1001]" by simp
  ultimately have "None \<in> set (map (resample_at (replicate 85 s) (resample_ratio 1360 16000)) [0..<1001])"
    by (metis image_eqI set_map)
  then show ?thesis using len pos by (simp add: resample_linear_int16_def Let_def those_none del: upt_Suc)
qed

text \<open>
  Mixing down ends: for any positive number of channels (and an index that does not wrap) the loop returns one sample per
  frame, an incomplete last frame included except for two channels; with no channels and some input it never returns.
\<close>

theorem mixing_terminates:
  assumes "0 < channels" and "length input + nat channels < 2 ^ 64" and "rest \<noteq> []"
  shows "(\<exists>pcm. mix_down input channels = Some pcm \<and>
      length pcm = (if channels = 2 then length input div 2 else (length input + nat channels - 1) div nat channels)) \<and>
    mix_down rest 0 = None"
proof
  show "\<exists>pcm. mix_down input channels = Some pcm \<and>
      length pcm = (if channels = 2 then length input div 2 else (length input + nat channels - 1) div nat channels)"
    using mix_loop_steps [of "nat channels" input 0 "[]"] assms(1,2) by (auto simp: mix_down_def mix_stereo_length)
  have "mix_loop 0 rest 0 [] \<noteq> Some y" for y using mix_loop_no_channels [of 0 rest 0 "[]" y] assms(3) by auto
  then show "mix_down rest 0 = None" by (simp add: mix_down_def) (metis not_None_eq)
qed

theorem mixing_terminates_witness:
  "(\<exists>pcm. mix_down [1, 1 / 2, 0, 1] 3 = Some pcm \<and> length pcm = 2) \<and> mix_down [1] 0 = None"
  using mixing_terminates [of 3 "[1, 1 / 2, 0, 1]" "[1]"] by simp

text \<open>
  Converting a sample saturates instead of wrapping: for every finite input the result is the rounded, clamped value, lies
  within 32767 of zero, and grows with the input; averaging two channels never leaves the range of a sample.
\<close>

theorem sample_conversion_saturates:
  "sint (float_to_int16 x) = round_even (single (clamp x (- 1) 1 * 32767)) \<and> \<bar>sint (float_to_int16 x)\<bar> \<le> 32767 \<and>
   sint (float_to_int16 (min x y)) \<le> sint (float_to_int16 (max x y)) \<and>
   map sint (stereo_to_mono (a # b # rest)) = (sint a + sint b) sdiv 2 # map sint (stereo_to_mono rest)"
proof (intro conjI)
  show "sint (float_to_int16 x) = round_even (single (clamp x (- 1) 1 * 32767))" by (rule float_to_int16_value [THEN conjunct1])
  show "\<bar>sint (float_to_int16 x)\<bar> \<le> 32767" by (rule float_to_int16_value [THEN conjunct2])
  have "clamp (min x y) (- 1) 1 \<le> clamp (max x y) (- 1) 1" by (auto simp: clamp_def min_def max_def)
  then show "sint (float_to_int16 (min x y)) \<le> sint (float_to_int16 (max x y))"
    unfolding float_to_int16_value [THEN conjunct1] by (intro round_even_mono fl_mono) simp_all
  have "- 32768 \<le> (sint a + sint b) sdiv 2" "(sint a + sint b) sdiv 2 \<le> 32767"
    using sint_ge [of a] sint_lt [of a] sint_ge [of b] sint_lt [of b] by (auto simp: signed_divide_int_def sgn_if)
  then show "map sint (stereo_to_mono (a # b # rest)) = (sint a + sint b) sdiv 2 # map sint (stereo_to_mono rest)"
    by (simp add: sint_word_of_int_16)
qed

lemma int16_to_float_exact: "int16_to_float s = of_int (sint s) / 32768"
proof -
  have n: "\<bar>sint s\<bar> \<le> 2 ^ 24" using sint_range_size [of s] by (simp add: size_word_def abs_le_iff)
  have "single (of_int (sint s)) = of_int (sint s)" by (rule fl_of_int [OF _ n]) simp
  moreover have "single (of_int (sint s) / 2 ^ 15) = of_int (sint s) / 2 ^ 15" by (rule fl_dyadic [OF _ n]) simp
  moreover have "(2 :: rat) ^ 15 = 32768" by simp
  ultimately show ?thesis unfolding int16_to_float_def by (simp only:)
qed

lemma rescaled_sample:
  assumes "- 32768 \<le> n" and "n \<le> 32767"
  shows "\<bar>round_even (single (clamp (of_int n / 32768) (- 1) 1 * 32767)) - n\<bar> \<le> 1"
proof -
  have "of_int (- 32768) \<le> (of_int n :: rat)" "(of_int n :: rat) \<le> of_int 32767"
    using assms by (simp_all only: of_int_le_iff)
  then have r: "- 32768 \<le> (of_int n :: rat)" "(of_int n :: rat) \<le> 32767" by simp_all
  then have c: "clamp (of_int n / 32768) (- 1) 1 = (of_int n / 32768 :: rat)" by (simp add: clamp_def divide_simps)
  define lo hi where "lo = (if 0 \<le> n then n - 1 else n)" and "hi = (if 0 \<le> n then n else n + 1)"
  have "of_int lo \<le> (of_int n / 32768 * 32767 :: rat)" "of_int n / 32768 * 32767 \<le> (of_int hi :: rat)"
    using r by (auto simp: lo_def hi_def divide_simps)
  then have "of_int lo \<le> single (of_int n / 32768 * 32767)" "single (of_int n / 32768 * 32767) \<le> of_int hi"
    using assms fl_between [of lo _ hi 24] by (auto simp: lo_def hi_def)
  then have "lo \<le> round_even (single (of_int n / 32768 * 32767))" "round_even (single (of_int n / 32768 * 32767)) \<le> hi"
    using round_even_mono round_even_of_int by metis+
  then show ?thesis unfolding c by (auto simp: lo_def hi_def split: if_splits)
qed

text \<open>
  Going to floating point and back: the value of a sample is represented exactly, and since the two directions use different scales the
  sample comes back as it was or one closer to zero.
\<close>

theorem sample_float_roundtrip:
  "int16_to_float s = of_int (sint s) / 32768 \<and> \<bar>sint (float_to_int16 (int16_to_float s)) - sint s\<bar> \<le> 1"
proof -
  have "- 32768 \<le> sint s" "sint s \<le> 32767" using sint_range_size [of s] by (simp_all add: size_word_def)
  from rescaled_sample [OF this] show ?thesis
    unfolding float_to_int16_value [THEN conjunct1] int16_to_float_exact by blast
qed

end
