(* ===== verification/Local_Engine.thy ===== *)
theory Local_Engine
  imports Resampler Decimal Messages
begin

text \<open>
  The local engines: the interface and its configuration (\<^verbatim>\<open>src/local/local_tts_engine.h\<close>), the mock engine
  (\<^verbatim>\<open>src/local/mock_local_tts.cpp\<close>), the ONNX engine (\<^verbatim>\<open>src/local/sherpa_local_tts.cpp\<close>), the factory
  (\<^verbatim>\<open>src/local/local_tts_factory.cpp\<close>) and the mediator service on top of it (\<^verbatim>\<open>src/entry/mediator_tts_service_impl.h\<close>).

  The sherpa-onnx library is a parameter: what it generates for a text, a speaker and a speed (\<open>None\<close> for a null result). The values that
  \<^verbatim>\<open>exp\<close> and \<^verbatim>\<open>sin\<close> give the mock engine are the parameter \<open>tone\<close>, of the base frequency and the index of the sample. A conversion of a
  \<^verbatim>\<open>double\<close> to an integer type that cannot hold it, and an overflow of \<^verbatim>\<open>int\<close>, are undefined: the result is \<open>None\<close>. The build targets are little-endian.
\<close>

unbundle bit_operations_syntax

section \<open>Interface\<close>

datatype backend_kind = Onnx | Mock

record local_tts_config =
  lt_enabled :: bool
  lt_backend :: backend_kind
  lt_model_dir :: string
  lt_model_file :: string
  lt_detokenizer_file :: string
  lt_tokenizer_file :: string
  lt_target_sample_rate :: int
  lt_target_channels :: int
  lt_num_threads :: int
  lt_max_decode_steps :: int
  lt_eos_token_id :: int
  lt_audio_token_offset :: int
  lt_use_int8 :: bool

definition default_local_tts_config :: local_tts_config where
  "default_local_tts_config = \<lparr>lt_enabled = True, lt_backend = Onnx, lt_model_dir = [], lt_model_file = ''model.onnx'',
     lt_detokenizer_file = ''detokenizer.onnx'', lt_tokenizer_file = ''tokenizer.json'', lt_target_sample_rate = 16000,
     lt_target_channels = 1, lt_num_threads = 0, lt_max_decode_steps = 512, lt_eos_token_id = - 1, lt_audio_token_offset = 0,
     lt_use_int8 = False\<rparr>"

record local_tts_result =
  lr_samples :: "sample list"
  lr_sample_rate :: int
  lr_channels :: int
  lr_duration_ms :: int
  lr_usage_ms :: int
  lr_status_code :: int
  lr_status_msg :: string

definition default_result :: local_tts_result where
  "default_result = \<lparr>lr_samples = [], lr_sample_rate = 16000, lr_channels = 1, lr_duration_ms = 0, lr_usage_ms = 0,
     lr_status_code = 0, lr_status_msg = []\<rparr>"

record local_engine =
  en_ready :: bool
  en_synthesize :: "string \<Rightarrow> string \<Rightarrow> f32 \<Rightarrow> local_tts_result"

text \<open>An engine for the examples.\<close>

definition example_engine :: local_engine where
  "example_engine = \<lparr>en_ready = True, en_synthesize = (\<lambda>_ _ _. default_result\<lparr>lr_samples := [1, 2]\<rparr>)\<rparr>"

section \<open>Conversions\<close>

text \<open>The value of a finite \<^verbatim>\<open>float\<close>; the only infinity that reaches an engine is a positive speed, whose quotients are 0.\<close>

definition f32_value :: "f32 \<Rightarrow> rat" where
  "f32_value b =
     (let e = uint (take_bit 8 (drop_bit 23 b)); m = uint (take_bit 23 b);
          v = (if e = 0 then of_int m * 2 powi (- 149) else of_int (2 ^ 23 + m) * 2 powi (e - 150))
      in if bit b 31 then - v else v)"

definition f32_infinity :: f32 where
  "f32_infinity = 0x7F800000"

definition f32_not_positive :: "f32 \<Rightarrow> bool" where
  "f32_not_positive b \<longleftrightarrow> b = 0 \<or> 0x80000000 \<le> b \<and> b \<le> 0xFF800000"

definition divide_by_float :: "rat \<Rightarrow> f32 \<Rightarrow> rat" where
  "divide_by_float x b = (if b = f32_infinity then 0 else double (x / f32_value b))"

definition truncate_to :: "int \<Rightarrow> rat \<Rightarrow> int option" where
  "truncate_to bound x = (let n = (if 0 \<le> x then \<lfloor>x\<rfloor> else \<lceil>x\<rceil>) in if - bound \<le> n \<and> n < bound then Some n else None)"

definition to_size :: "rat \<Rightarrow> nat option" where
  "to_size x = (if 0 \<le> x \<and> \<lfloor>x\<rfloor> < 2 ^ 64 then Some (nat \<lfloor>x\<rfloor>) else None)"

section \<open>Mock engine\<close>

definition mock_config :: "local_tts_config \<Rightarrow> local_tts_config" where
  "mock_config cfg =
     (let cfg = (if lt_target_sample_rate cfg \<le> 0 then cfg\<lparr>lt_target_sample_rate := 16000\<rparr> else cfg)
      in if lt_target_channels cfg \<le> 0 then cfg\<lparr>lt_target_channels := 1\<rparr> else cfg)"

definition mock_duration :: "string \<Rightarrow> f32 \<Rightarrow> rat" where
  "mock_duration text speed =
     (let base = (if text \<noteq> [] then max (double (1 / 10)) (double (of_nat (length text) / 16)) else 1 / 2);
          speed = (if f32_not_positive speed then f32_one else speed)
      in divide_by_float base speed)"

definition mock_total :: "rat \<Rightarrow> int \<Rightarrow> nat option" where
  "mock_total duration rate =
     (if rate * 30 \<ge> 2 ^ 31 then None
      else case to_size (double (duration * of_int rate)) of
        None \<Rightarrow> None
      | Some n \<Rightarrow>
          (let n = (if n < nat (rate div 4) then nat (rate div 4) else n)
           in Some (if n > nat (rate * 30) then nat (rate * 30) else n)))"

definition schar :: "char \<Rightarrow> int" where
  "schar c = sint (of_char c :: 8 word)"

definition base_freq :: "string \<Rightarrow> string \<Rightarrow> int" where
  "base_freq voice_id text =
     180 + (sum_list (map schar voice_id) + sum_list (map of_char text)) smod 240"

definition mock_sample :: "rat \<Rightarrow> sample" where
  "mock_sample s = word_of_int (round_even (double (clamp s (- 1) 1 * 32767)))"

definition mock_synthesize ::
  "(int \<Rightarrow> nat \<Rightarrow> rat) \<Rightarrow> local_tts_config \<Rightarrow> string \<Rightarrow> string \<Rightarrow> f32 \<Rightarrow> local_tts_result option" where
  "mock_synthesize tone cfg text voice_id speed =
     (let rate = lt_target_sample_rate cfg; dur = mock_duration text speed in
      case (mock_total dur rate, truncate_to (2 ^ 31) (double (dur * 1000))) of
        (Some n, Some ms) \<Rightarrow>
          Some (default_result\<lparr>lr_sample_rate := rate, lr_channels := lt_target_channels cfg, lr_status_code := 0,
            lr_status_msg := ''ok_mock'', lr_samples := map (\<lambda>i. mock_sample (tone (base_freq voice_id text) i)) [0..<n],
            lr_duration_ms := ms\<rparr>)
      | _ \<Rightarrow> None)"

section \<open>ONNX engine\<close>

type_synonym generator = "string \<Rightarrow> int \<Rightarrow> f32 \<Rightarrow> rat list option"

definition speaker :: "string \<Rightarrow> int" where
  "speaker voice_id = (if voice_id \<noteq> [] then (case stoi voice_id of None \<Rightarrow> 0 | Some sid \<Rightarrow> sid) else 0)"

text \<open>
  The constructor, in a build with sherpa-onnx: the paths, the configuration handed to the library, and the engine it makes. \<open>load\<close>
  stands for the library: the native sample rate and the generator of the model it loads, or nothing. \<open>hw\<close> is \<^verbatim>\<open>hardware_concurrency()\<close>.
  \<^verbatim>\<open>operator/\<close> of two paths takes an absolute right one as it is and separates the two by a slash if the left one does not end in one.
\<close>

definition path_join :: "string \<Rightarrow> string \<Rightarrow> string" where
  "path_join a b =
     (if b \<noteq> [] \<and> hd b = CHR ''/'' then b
      else if a = [] \<or> last a = CHR ''/'' then a @ b else a @ ''/'' @ b)"

record sherpa_config =
  sc_model :: string
  sc_tokens :: string
  sc_data_dir :: "string option"
  sc_num_threads :: int
  sc_provider :: string
  sc_max_num_sentences :: int

record sherpa_tts =
  sh_ready :: bool
  sh_native_sr :: int
  sh_generate :: "generator option"

definition sherpa_threads :: "32 word \<Rightarrow> local_tts_config \<Rightarrow> int" where
  "sherpa_threads hw cfg = (if lt_num_threads cfg > 0 then lt_num_threads cfg else max 1 (uint (hw div 2)))"

definition new_sherpa ::
  "(string \<Rightarrow> bool) \<Rightarrow> (sherpa_config \<Rightarrow> (int \<times> generator) option) \<Rightarrow> 32 word \<Rightarrow> local_tts_config \<Rightarrow> sherpa_tts" where
  "new_sherpa path_exists load hw cfg =
     (let model = path_join (lt_model_dir cfg) (lt_model_file cfg); tokens = path_join (lt_model_dir cfg) ''tokens.txt'';
          data = path_join (lt_model_dir cfg) ''espeak-ng-data'';
          idle = \<lparr>sh_ready = False, sh_native_sr = 24000, sh_generate = None\<rparr>
      in if \<not> path_exists model \<or> \<not> path_exists tokens then idle
         else
           (case load \<lparr>sc_model = c_str model, sc_tokens = c_str tokens, sc_data_dir = (if path_exists data then Some (c_str data) else None),
                sc_num_threads = sherpa_threads hw cfg, sc_provider = ''cpu'', sc_max_num_sentences = 1\<rparr> of
              None \<Rightarrow> idle
            | Some (sr, generate) \<Rightarrow> \<lparr>sh_ready = True, sh_native_sr = sr, sh_generate = Some generate\<rparr>))"

text \<open>\<^verbatim>\<open>static_cast<int>\<close> of a 64-bit number.\<close>

definition to_int32 :: "int \<Rightarrow> int" where
  "to_int32 n = sint (word_of_int n :: 32 word)"

text \<open>\<open>usage\<close> is the time the call of the library took, in milliseconds.\<close>

definition onnx_synthesize ::
  "generator \<Rightarrow> int \<Rightarrow> int \<Rightarrow> bool \<Rightarrow> local_tts_config \<Rightarrow> string \<Rightarrow> string \<Rightarrow> f32 \<Rightarrow> local_tts_result option" where
  "onnx_synthesize generate native_sr usage ready cfg text voice_id speed =
     (let r = default_result\<lparr>lr_sample_rate := lt_target_sample_rate cfg, lr_channels := lt_target_channels cfg,
            lr_status_code := 0, lr_status_msg := ''ok_local''\<rparr>
      in if \<not> ready then Some (r\<lparr>lr_status_code := 1004, lr_status_msg := ''local_engine_not_ready''\<rparr>)
         else
           (case generate (c_str text) (speaker voice_id) (if f32_positive speed then speed else f32_one) of
              None \<Rightarrow> Some (r\<lparr>lr_status_code := 1000, lr_status_msg := ''local_generate_failed''\<rparr>)
            | Some audio \<Rightarrow>
                (case to_16k_mono_int16 audio native_sr 1 of
                   None \<Rightarrow> None
                 | Some samples \<Rightarrow>
                     if lt_target_sample_rate cfg = 0 then None
                     else Some (r\<lparr>lr_usage_ms := usage, lr_samples := samples,
                       lr_duration_ms := to_int32 ((int (length samples) * 1000) sdiv lt_target_sample_rate cfg)\<rparr>))))"

definition sherpa_synthesize ::
  "int \<Rightarrow> sherpa_tts \<Rightarrow> local_tts_config \<Rightarrow> string \<Rightarrow> string \<Rightarrow> f32 \<Rightarrow> local_tts_result option" where
  "sherpa_synthesize usage e cfg text voice_id speed =
     (case sh_generate e of
        None \<Rightarrow> onnx_synthesize (\<lambda>_ _ _. None) (sh_native_sr e) usage False cfg text voice_id speed
      | Some generate \<Rightarrow> onnx_synthesize generate (sh_native_sr e) usage (sh_ready e) cfg text voice_id speed)"

section \<open>Factory\<close>

text \<open>\<open>onnx\<close> is \<open>None\<close> in a build without sherpa-onnx.\<close>

definition create_local_tts ::
  "(local_tts_config \<Rightarrow> local_engine) \<Rightarrow> (local_tts_config \<Rightarrow> local_engine option) \<Rightarrow> local_tts_config \<Rightarrow> local_engine" where
  "create_local_tts mock onnx cfg =
     (if lt_backend cfg = Mock then mock cfg
      else
        (case onnx cfg of
           Some e \<Rightarrow> if en_ready e then e else mock (cfg\<lparr>lt_backend := Mock\<rparr>)
         | None \<Rightarrow> mock (cfg\<lparr>lt_backend := Mock\<rparr>)))"

section \<open>Audio bytes and the mediator service\<close>

definition sample_bytes :: "sample \<Rightarrow> bytes" where
  "sample_bytes s = [ucast s, ucast (drop_bit 8 s)]"

definition pcm_bytes :: "sample list \<Rightarrow> bytes" where
  "pcm_bytes ss = concat (map sample_bytes ss)"

text \<open>The messages of \<^verbatim>\<open>proto/mediator_tts.proto\<close>.\<close>

record mediator_request =
  mq_text :: string
  mq_session_id :: string
  mq_clip_id :: "32 word"

record mediator_response =
  mp_pcm :: bytes

datatype mediator_status = Med_Ok | Med_Unavailable string | Med_Internal string

definition mediator_synth :: "local_engine option \<Rightarrow> mediator_request \<Rightarrow> mediator_response \<Rightarrow> mediator_status \<times> mediator_response" where
  "mediator_synth engine request response =
     (case engine of
        None \<Rightarrow> (Med_Unavailable ''local tts engine not ready'', response)
      | Some e \<Rightarrow>
          if \<not> en_ready e then (Med_Unavailable ''local tts engine not ready'', response)
          else
            (let r = en_synthesize e (mq_text request) [] f32_one in
             if lr_status_code r \<noteq> 0 then (Med_Internal (''synthesis failed: '' @ lr_status_msg r), response)
             else (Med_Ok, response\<lparr>mp_pcm := pcm_bytes (lr_samples r)\<rparr>)))"

section \<open>Lemmas\<close>

fun samples_of :: "bytes \<Rightarrow> sample list" where
  "samples_of (a # b # rest) = (ucast a OR push_bit 8 (ucast b)) # samples_of rest"
| "samples_of _ = []"

lemma sample_roundtrip: "ucast (ucast s :: 8 word) OR push_bit 8 (ucast (ucast (drop_bit 8 s) :: 8 word)) = (s :: sample)"
  by (rule bit_word_eqI) (auto simp: bit_simps)

lemma samples_of_pcm: "samples_of (pcm_bytes ss) = ss"
  by (induction ss) (simp_all add: pcm_bytes_def sample_bytes_def sample_roundtrip)

interpretation pcm: text_codec pcm_bytes samples_of
  by unfold_locales (rule samples_of_pcm)

lemma pcm_length: "length (pcm_bytes ss) = 2 * length ss"
  by (induction ss) (simp_all add: pcm_bytes_def sample_bytes_def)

lemma f32_value_one: "f32_value f32_one = 1"
  by code_simp

lemma mock_duration_unit_speed:
  assumes "2 \<le> length text" and "length text \<le> 2 ^ 20"
  shows "mock_duration text f32_one = of_nat (length text) / 16"
proof -
  define q where "q = (of_nat (length text) / 16 :: rat)"
  have d: "double q = q" using assms fl_dyadic [of 53 "int (length text)" 4] by (simp add: q_def)
  have "double (1 / 10) \<le> 1 / 8" by code_simp
  also have "1 / 8 \<le> q" using assms(1) by (simp add: q_def)
  finally have m: "max (double (1 / 10)) q = q" by (rule max_absorb2)
  have p: "\<not> f32_not_positive f32_one" "f32_one \<noteq> f32_infinity" by code_simp+
  have "text \<noteq> []" using assms(1) by auto
  with d m p show ?thesis unfolding q_def [symmetric] by (simp add: mock_duration_def divide_by_float_def f32_value_one q_def [symmetric])
qed

lemma mock_total_unit_speed:
  assumes "length text \<le> 2 ^ 20"
  shows "mock_total (of_nat (length text) / 16) 16000 = Some (max 4000 (min (1000 * length text) 480000))"
proof -
  have "double (of_int (1000 * int (length text))) = of_int (1000 * int (length text))"
    using assms by (intro fl_of_int) simp_all
  then have "double (of_nat (length text) / 16 * of_int 16000) = of_int (1000 * int (length text))" by (simp add: mult.commute)
  moreover have "to_size (of_int (1000 * int (length text))) = Some (1000 * length text)"
    using assms unfolding to_size_def floor_of_int by (simp add: nat_mult_distrib)
  ultimately show ?thesis by (simp add: mock_total_def Let_def)
qed

lemma truncate_to_floor: "0 \<le> x \<Longrightarrow> \<lfloor>x\<rfloor> = n \<Longrightarrow> n < b \<Longrightarrow> truncate_to b x = Some n"
  by (auto simp: truncate_to_def Let_def) linarith+

lemma mock_ms_unit_speed:
  assumes "length text \<le> 2 ^ 20"
  shows "truncate_to (2 ^ 31) (double (of_nat (length text) / 16 * 1000)) = Some (int (length text) * 125 div 2)"
proof -
  have "double (of_int (int (length text) * 125) / 2 ^ 1) = of_int (int (length text) * 125) / 2 ^ 1"
    using assms by (intro fl_dyadic) simp_all
  then have "double (of_nat (length text) / 16 * 1000) = of_int (int (length text) * 125) / of_int 2" by (simp add: mult.commute)
  moreover have "\<lfloor>of_int (int (length text) * 125) / (of_int 2 :: rat)\<rfloor> = int (length text) * 125 div 2"
    by (rule floor_divide_of_int_eq)
  moreover have "int (length text) * 125 div 2 < 2 ^ 31" using assms by simp
  ultimately have "\<lfloor>double (of_nat (length text) / 16 * 1000)\<rfloor> = int (length text) * 125 div 2"
      and "int (length text) * 125 div 2 < 2 ^ 31" by (simp_all only:)
  then show ?thesis by (intro truncate_to_floor) (simp_all add: fl_nonneg)
qed

lemma mock_sample_range: "\<bar>sint (mock_sample s)\<bar> \<le> 32767"
proof -
  let ?y = "clamp s (- 1) 1 * 32767"
  have "of_int (- 32767) \<le> ?y" "?y \<le> of_int 32767" using clamp_bounds [of "- 1" 1 s] by simp_all
  then have "of_int (- 32767) \<le> double ?y" "double ?y \<le> of_int 32767" by (rule fl_between; simp)+
  from round_even_between [OF this] have "- 32767 \<le> round_even (double ?y)" "round_even (double ?y) \<le> 32767" by simp_all
  then show ?thesis unfolding mock_sample_def by (subst sint_word_of_int_16) simp_all
qed

section \<open>Properties\<close>

text \<open>
  What the mock engine produces at normal speed and 16 kHz for a text of \<open>n\<close> bytes: it succeeds with 1000 samples per byte, but at
  least a quarter of a second and at most thirty seconds of them, all in range. The duration it reports is that of the text,
  62.5 ms per byte, so beyond 480 bytes it exceeds the audio that is there.
\<close>

theorem mock_engine_output:
  assumes "2 \<le> length text" and "length text \<le> 2 ^ 20" and "lt_target_sample_rate cfg = 16000"
  shows "\<exists>r. mock_synthesize tone cfg text voice_id f32_one = Some r \<and> lr_status_code r = 0 \<and>
    length (lr_samples r) = max 4000 (min (1000 * length text) 480000) \<and>
    list_all (\<lambda>s. \<bar>sint s\<bar> \<le> 32767) (lr_samples r) \<and> lr_duration_ms r = int (length text) * 125 div 2"
proof -
  have "mock_synthesize tone cfg text voice_id f32_one =
      Some (default_result\<lparr>lr_sample_rate := 16000, lr_channels := lt_target_channels cfg, lr_status_code := 0,
        lr_status_msg := ''ok_mock'', lr_duration_ms := int (length text) * 125 div 2,
        lr_samples := map (\<lambda>i. mock_sample (tone (base_freq voice_id text) i)) [0..<max 4000 (min (1000 * length text) 480000)]\<rparr>)"
    unfolding mock_synthesize_def Let_def assms(3) mock_duration_unit_speed [OF assms(1,2)] mock_total_unit_speed [OF assms(2)]
      mock_ms_unit_speed [OF assms(2)] by simp
  then show ?thesis by (auto simp: list_all_iff mock_sample_range)
qed

theorem mock_engine_output_witness:
  "\<exists>r. mock_synthesize (\<lambda>_ _. 1 / 2) default_local_tts_config (replicate 1000 (CHR ''a'')) [] f32_one = Some r \<and>
     length (lr_samples r) = 480000 \<and> lr_duration_ms r = 62500"
  using mock_engine_output [of "replicate 1000 (CHR ''a'')" default_local_tts_config "\<lambda>_ _. 1 / 2" "[]"]
  by (auto simp: default_local_tts_config_def)



text \<open>
  The ONNX engine is ready exactly if the model and its tokens exist and the library loads them; an engine that is not ready answers
  every request with the code 1004 and no samples.
\<close>

theorem sherpa_ready_iff:
  "sh_ready (new_sherpa path_exists load hw cfg) \<longleftrightarrow>
     path_exists (path_join (lt_model_dir cfg) (lt_model_file cfg)) \<and> path_exists (path_join (lt_model_dir cfg) ''tokens.txt'') \<and>
     (\<exists>sc. load sc \<noteq> None \<and> sc_model sc = c_str (path_join (lt_model_dir cfg) (lt_model_file cfg)) \<and>
        sc_tokens sc = c_str (path_join (lt_model_dir cfg) ''tokens.txt'') \<and>
        sc_data_dir sc = (let d = path_join (lt_model_dir cfg) ''espeak-ng-data'' in if path_exists d then Some (c_str d) else None) \<and>
        sc_num_threads sc = sherpa_threads hw cfg \<and> sc_provider sc = ''cpu'' \<and> sc_max_num_sentences sc = 1)"
  (is "?r = (?a \<and> ?b \<and> (\<exists>sc. load sc \<noteq> None \<and> ?q sc))")
proof -
  define sc where "sc = \<lparr>sc_model = c_str (path_join (lt_model_dir cfg) (lt_model_file cfg)),
    sc_tokens = c_str (path_join (lt_model_dir cfg) ''tokens.txt''),
    sc_data_dir = (let d = path_join (lt_model_dir cfg) ''espeak-ng-data'' in if path_exists d then Some (c_str d) else None),
    sc_num_threads = sherpa_threads hw cfg, sc_provider = ''cpu'', sc_max_num_sentences = 1\<rparr>"
  have q: "?q x \<longleftrightarrow> x = sc" for x :: sherpa_config by (cases x) (simp add: sc_def)
  have "?r \<longleftrightarrow> ?a \<and> ?b \<and> load sc \<noteq> None" by (auto simp: new_sherpa_def sc_def Let_def split: option.splits)
  then show ?thesis unfolding q by blast
qed

lemma sherpa_generate: "(sh_generate (new_sherpa path_exists load hw cfg) = None) = (\<not> sh_ready (new_sherpa path_exists load hw cfg))"
  by (auto simp: new_sherpa_def Let_def split: option.splits)

lemma sherpa_not_ready:
  assumes "\<not> sh_ready (new_sherpa path_exists load hw cfg)"
  shows "\<exists>r. sherpa_synthesize usage (new_sherpa path_exists load hw cfg) cfg text voice_id speed = Some r \<and>
    lr_status_code r = 1004 \<and> lr_samples r = []"
  using assms sherpa_generate [of path_exists load hw cfg]
  by (simp add: sherpa_synthesize_def onnx_synthesize_def Let_def default_result_def)

lemma sherpa_threads_positive: "1 \<le> sherpa_threads hw cfg"
  by (simp add: sherpa_threads_def)

text \<open>
  The factory always yields an engine: the ONNX engine exactly when it is asked for, built in and ready, and otherwise the mock
  engine. Whether the local engine is enabled plays no role, so a server whose model fails to load, or whose local engine is switched
  off, answers with the mock's tones.
\<close>

theorem factory_falls_back_to_mock:
  "create_local_tts mock onnx cfg =
     (if lt_backend cfg = Onnx \<and> (\<exists>e. onnx cfg = Some e \<and> en_ready e) then the (onnx cfg) else mock (cfg\<lparr>lt_backend := Mock\<rparr>)) \<and>
   create_local_tts mock (\<lambda>_. None) (cfg\<lparr>lt_enabled := False\<rparr>) = mock (cfg\<lparr>lt_enabled := False, lt_backend := Mock\<rparr>)"
proof -
  show ?thesis
  proof (cases "lt_backend cfg")
    case Mock
    then have "cfg\<lparr>lt_backend := Mock\<rparr> = cfg" and e: "cfg\<lparr>lt_enabled := False, lt_backend := Mock\<rparr> = cfg\<lparr>lt_enabled := False\<rparr>"
      by (cases cfg; simp)+
    then have "mock (cfg\<lparr>lt_backend := Mock\<rparr>) = mock cfg" by (simp only:)
    moreover have "mock (cfg\<lparr>lt_enabled := False, lt_backend := Mock\<rparr>) = mock (cfg\<lparr>lt_enabled := False\<rparr>)"
      using e by (simp only:)
    moreover note Mock
    ultimately show ?thesis by (simp add: create_local_tts_def)
  qed (simp add: create_local_tts_def split: option.split)
qed

text \<open>
  The mediator service hands over exactly the engine's audio: the call succeeds exactly when there is a ready engine that
  reports no error, the bytes then decode to the engine's samples for the text, whatever the session and the clip are, and the
  response is left as it was otherwise.
\<close>

theorem mediator_returns_engine_audio:
  "case mediator_synth engine request response of (status, response') \<Rightarrow>
     (status = Med_Ok \<longleftrightarrow> (\<exists>e. engine = Some e \<and> en_ready e \<and> lr_status_code (en_synthesize e (mq_text request) [] f32_one) = 0)) \<and>
     (if status = Med_Ok then samples_of (mp_pcm response') = lr_samples (en_synthesize (the engine) (mq_text request) [] f32_one) \<and>
        even (length (mp_pcm response')) else response' = response)"
  by (auto simp: mediator_synth_def Let_def pcm.dec_enc pcm_length split: option.split)

end
