(* ===== verification/Tts_System.thy ===== *)
theory Tts_System
  imports Heartbeat_Properties Tts_Service Local_Engine
begin

text \<open>
  The running server: the heartbeat thread of \<^verbatim>\<open>src/main.cpp\<close> together with the gRPC service and the local engine. The heartbeat
  thread repeats four things: a tick, the dispatch of the tick's writes one by one, the synthesis of the tick's jobs one by one with the
  result sent back through the request channel, and a pause. It is cut at the points where other threads may run in between, so its
  state includes where it is (\<open>hb_pc\<close>). The other threads are the calls of the service and the workers of the event bus. Nothing in
  the program sends to the channel for upstream events, and the frames and closed sessions of a change set are dropped.

  The fields \<open>sy_issued\<close>, \<open>sy_writes\<close> and \<open>sy_dispatched\<close> record the jobs and writes of all ticks and the writes dispatched, for the statements
  below; no operation reads them. An exception that leaves the heartbeat thread ends the process: the left value.
\<close>

section \<open>State and steps\<close>

datatype hb_pc =
    AtTick
  | AtDispatch "write_to_client list" "local_synth_job list"
  | AtJobs "local_synth_job list"

record system =
  sy_server :: server
  sy_service :: service
  sy_pc :: hb_pc
  sy_issued :: "local_synth_job list"
  sy_writes :: "write_to_client list"
  sy_dispatched :: "write_to_client list"

definition new_system :: system where
  "new_system = \<lparr>sy_server = new_server, sy_service = new_service, sy_pc = AtTick, sy_issued = [], sy_writes = [],
     sy_dispatched = []\<rparr>"

definition job_message :: "local_engine \<Rightarrow> local_synth_job \<Rightarrow> message" where
  "job_message engine job =
     (let r = en_synthesize engine (lj_text job) (lj_voice_id job) (lj_speed job) in
      if lr_status_code r \<noteq> 0 then
        FailedMsg (default_failed\<lparr>lf_request_id := lj_request_id job, lf_status_code := lr_status_code r,
          lf_status_msg := lr_status_msg r\<rparr>)
      else
        CompleteMsg (default_complete\<lparr>lc_request_id := lj_request_id job, lc_audio := pcm_bytes (lr_samples r),
          lc_sample_rate := lr_sample_rate r, lc_channels := lr_channels r, lc_format := Pcm, lc_usage_ms := lr_duration_ms r,
          lc_status_code := lr_status_code r, lc_status_msg := lr_status_msg r\<rparr>))"

definition heartbeat_step :: "environment \<Rightarrow> local_engine \<Rightarrow> system \<Rightarrow> channel_error + system" where
  "heartbeat_step env engine s =
     (case sy_pc s of
        AtTick \<Rightarrow>
          (let (cs, st) = tick env (sy_server s) in
           Inr (s\<lparr>sy_server := st, sy_pc := AtDispatch (client_writes cs) (local_jobs cs),
             sy_issued := sy_issued s @ local_jobs cs, sy_writes := sy_writes s @ client_writes cs\<rparr>))
      | AtDispatch [] jobs \<Rightarrow> Inr (s\<lparr>sy_pc := AtJobs jobs\<rparr>)
      | AtDispatch (w # ws) jobs \<Rightarrow>
          (case dispatch_write w (sy_service s) of
             Inl e \<Rightarrow> Inl e
           | Inr sv \<Rightarrow> Inr (s\<lparr>sy_service := sv, sy_pc := AtDispatch ws jobs, sy_dispatched := sy_dispatched s @ [w]\<rparr>))
      | AtJobs [] \<Rightarrow> Inr (s\<lparr>sy_pc := AtTick\<rparr>)
      | AtJobs (job # jobs) \<Rightarrow>
          (case send (job_message engine job) (hb_request_channel (sy_server s)) of
             Inl e \<Rightarrow> Inl e
           | Inr ch \<Rightarrow> Inr (s\<lparr>sy_server := (sy_server s)\<lparr>hb_request_channel := ch\<rparr>, sy_pc := AtJobs jobs\<rparr>)))"

text \<open>A call of the service; dispatching is the heartbeat thread's business.\<close>

definition call_step :: "jwt_verifier option \<Rightarrow> service_op \<Rightarrow> system \<Rightarrow> system" where
  "call_step jwt op s =
     (case service_step jwt op (sy_service s, hb_request_channel (sy_server s)) of (sv, ch) \<Rightarrow>
        s\<lparr>sy_service := sv, sy_server := (sy_server s)\<lparr>hb_request_channel := ch\<rparr>\<rparr>)"

datatype system_op = HeartbeatStep | Call service_op | BusWorker

fun system_step :: "environment \<Rightarrow> local_engine \<Rightarrow> jwt_verifier option \<Rightarrow> system_op \<Rightarrow> system \<Rightarrow> channel_error + system" where
  "system_step env engine jwt HeartbeatStep s = heartbeat_step env engine s"
| "system_step env engine jwt (Call op) s = Inr (call_step jwt op s)"
| "system_step env engine jwt BusWorker s = Inr (s\<lparr>sy_server := bus_work (sy_server s)\<rparr>)"

fun system_run :: "environment \<Rightarrow> local_engine \<Rightarrow> jwt_verifier option \<Rightarrow> system_op list \<Rightarrow> system \<Rightarrow> channel_error + system" where
  "system_run env engine jwt [] s = Inr s"
| "system_run env engine jwt (op # ops) s =
     (case system_step env engine jwt op s of Inl e \<Rightarrow> Inl e | Inr s' \<Rightarrow> system_run env engine jwt ops s')"

fun is_call :: "system_op \<Rightarrow> bool" where
  "is_call (Call (Dispatch _)) = False"
| "is_call _ = True"

section \<open>No upstream audio\<close>

text \<open>Without events from upstream no request ever gets its final audio, so a tick emits nothing but the engine's results.\<close>

definition no_final :: "pending_store \<Rightarrow> bool" where
  "no_final s \<longleftrightarrow> (\<forall>i p. pending_get s i = Some p \<longrightarrow> \<not> pr_final_received p)"

definition quiet :: "server \<Rightarrow> bool" where
  "quiet st \<longleftrightarrow> server_ok st \<and> no_final (pending_of st)"

fun not_upstream :: "message \<Rightarrow> bool" where
  "not_upstream (RspMsg _) = False"
| "not_upstream _ = True"

lemma no_final_ops:
  assumes "no_final s"
  shows "\<not> pr_final_received p \<Longrightarrow> no_final (pending_add p t s)" and "no_final (pending_remove i s)"
    and "no_final (set_state i x s)" and "no_final (reopen_local i a s)"
  using assms by (auto simp: no_final_def store_laws split: option.splits if_splits)

lemma no_final_handle_message:
  "no_final (pending_of st) \<Longrightarrow> not_upstream m \<Longrightarrow> no_final (pending_of (handle_message env m st))"
  by (cases m) (auto simp: handle_request_def handle_request_local_def handle_request_upstream_def bind_request_def
      open_local_pending_def handle_local_complete_def handle_local_failed_def handle_cancel_def split_beta Let_def no_final_ops
      local_pending_def default_pending_def split: option.splits)

lemma no_final_emit: "no_final (pending_of st) \<Longrightarrow> no_final (pending_of (emit_completed i st))"
  by (simp add: emit_completed_def Let_def no_final_ops split: option.splits)

interpretation quiet: heartbeat_invariant env not_upstream quiet for env
proof
  fix st st' :: server
  assume i: "quiet st"
  then have ok: "server_ok st" by (simp add: quiet_def)
  show "quiet (handle_message env m st)" if "not_upstream m" for m
    using i that by (simp add: quiet_def ok_handle_message no_final_handle_message)
  show "quiet (emit_completed i st)" for i
    using i by (simp add: quiet_def ok_emit_completed no_final_emit)
  show "quiet (run_evolution env st)"
    using i ok by (auto simp: quiet_def ok_run_evolution no_final_def evolution_pending_get)
  show "quiet st'" if "same_data st st'"
    using i that ok_same [OF ok that] by (simp add: quiet_def same_data_def)
qed

lemma quiet_not_ready:
  assumes "quiet st" and "channels_guarded not_upstream st"
  shows "find_ready_to_emit (pending_of (after_batch env st)) = []"
proof -
  have "quiet (after_batch env st)" by (rule quiet.inv_phases(2) [OF assms])
  then have "set (find_ready_to_emit (pending_of (after_batch env st))) = {}"
    by (subst find_ready_to_emit_set) (auto simp: quiet_def server_ok_def no_final_def)
  then show ?thesis by simp
qed

lemma quiet_tick_writes:
  assumes "quiet st" and "channels_guarded not_upstream st" and "hb_changeset st = empty_change_set"
  shows "client_writes (fst (tick env st)) = concat (map answers (tick_batch st))"
  using assms quiet_not_ready [OF assms(1,2), of env] by (simp add: tick_writes quiet_def)

section \<open>The invariant of the system\<close>

text \<open>
  The answer the client of a job will get; the jobs still to be run and the writes still to be dispatched in the current round;
  and the account of all jobs: those answered, those whose result is in the channel, and those still to be run are all
  the jobs issued, in order.
\<close>

definition job_answer :: "local_engine \<Rightarrow> local_synth_job \<Rightarrow> write_to_client" where
  "job_answer engine job = hd (answers (job_message engine job))"

fun outstanding :: "hb_pc \<Rightarrow> local_synth_job list" where
  "outstanding AtTick = []"
| "outstanding (AtDispatch ws jobs) = jobs"
| "outstanding (AtJobs jobs) = jobs"

fun undispatched :: "hb_pc \<Rightarrow> write_to_client list" where
  "undispatched (AtDispatch ws jobs) = ws"
| "undispatched _ = []"

definition accounted :: "local_engine \<Rightarrow> system \<Rightarrow> bool" where
  "accounted engine s \<longleftrightarrow>
     sy_writes s @ concat (map answers (buffer (hb_request_channel (sy_server s)))) @
       map (job_answer engine) (outstanding (sy_pc s)) = map (job_answer engine) (sy_issued s) \<and>
     sy_dispatched s @ undispatched (sy_pc s) = sy_writes s"

definition system_ok :: "local_engine \<Rightarrow> system \<Rightarrow> bool" where
  "system_ok engine s \<longleftrightarrow> quiet (sy_server s) \<and> channels_guarded not_upstream (sy_server s) \<and>
     hb_changeset (sy_server s) = empty_change_set \<and> service_ok (sy_service s) \<and>
     \<not> is_closed (hb_request_channel (sy_server s)) \<and> buffer (hb_ws_channel (sy_server s)) = [] \<and> accounted engine s"

lemma job_message_answers [simp]: "answers (job_message engine job) = [job_answer engine job]"
  by (simp add: job_answer_def job_message_def Let_def)

lemma job_message_not_upstream [simp]: "not_upstream (job_message engine job)"
  by (simp add: job_message_def Let_def)

lemma job_answer_fields:
  "wc_request_id (job_answer engine job) = lj_request_id job" "wc_is_final (job_answer engine job)"
  "wc_audio (job_answer engine job) =
     (let r = en_synthesize engine (lj_text job) (lj_voice_id job) (lj_speed job)
      in if lr_status_code r = 0 then pcm_bytes (lr_samples r) else [])"
  by (simp_all add: job_answer_def job_message_def Let_def complete_write_def failed_write_def default_complete_def
      default_failed_def default_write_def)

lemma quiet_channel: "quiet (st\<lparr>hb_request_channel := ch\<rparr>) = quiet st"
  by (simp add: quiet_def server_ok_def)

lemma system_ok_new: "system_ok engine new_system"
  using ok_new_server
  by (simp add: system_ok_def new_system_def quiet_def accounted_def service_ok_def new_service_def is_closed_def)
    (simp add: new_server_def new_board_def no_final_def pending_get_def new_channel_def channels_guarded_def tick_batch_def)

lemma system_ok_tick:
  assumes "system_ok engine s" and "sy_pc s = AtTick"
  shows "\<exists>s'. heartbeat_step env engine s = Inr s' \<and> system_ok engine s' \<and> sy_writes s' = map (job_answer engine) (sy_issued s)"
proof -
  let ?st = "sy_server s"
  obtain cs st where t: "tick env ?st = (cs, st)" by fastforce
  from assms(1) have q: "quiet ?st" "channels_guarded not_upstream ?st" "hb_changeset ?st = empty_change_set"
    "buffer (hb_ws_channel ?st) = []" "\<not> is_closed (hb_request_channel ?st)" and a: "accounted engine s"
    by (simp_all add: system_ok_def)
  have w: "client_writes cs = concat (map answers (buffer (hb_request_channel ?st)))"
    using quiet_tick_writes [OF q(1-3), of env] q(4) by (simp add: t tick_batch_def)
  have ch: "hb_request_channel st = (hb_request_channel ?st)\<lparr>buffer := []\<rparr>" "hb_ws_channel st = (hb_ws_channel ?st)\<lparr>buffer := []\<rparr>"
    using chans_tick [of env ?st] by (simp_all add: t chans_def)
  have "quiet st" using quiet.inv_tick [OF q(1,2), of env] by (simp add: t)
  moreover have "hb_changeset st = empty_change_set" using tick_changeset [of env ?st] by (simp add: t)
  ultimately show ?thesis
    using assms a w ch q by (simp add: heartbeat_step_def t system_ok_def accounted_def is_closed_def channels_guarded_def tick_batch_def)
qed

lemma system_ok_dispatch:
  assumes "system_ok engine s" and "sy_pc s = AtDispatch ws jobs"
  shows "\<exists>s'. heartbeat_step env engine s = Inr s' \<and> system_ok engine s'"
proof (cases ws)
  case Nil
  then show ?thesis using assms by (simp add: heartbeat_step_def system_ok_def accounted_def)
next
  case (Cons w rest)
  obtain sv where "dispatch_write w (sy_service s) = Inr sv" and "service_ok sv"
    using dispatch_write_ok [of "sy_service s" w] assms(1) by (auto simp: system_ok_def)
  then show ?thesis using assms Cons by (simp add: heartbeat_step_def system_ok_def accounted_def)
qed

lemma system_ok_jobs:
  assumes "system_ok engine s" and "sy_pc s = AtJobs jobs"
  shows "\<exists>s'. heartbeat_step env engine s = Inr s' \<and> system_ok engine s'"
proof (cases jobs)
  case Nil
  then show ?thesis using assms by (simp add: heartbeat_step_def system_ok_def accounted_def)
next
  case (Cons job rest)
  then show ?thesis using assms
    by (simp add: heartbeat_step_def system_ok_def accounted_def send_def is_closed_def quiet_channel channels_guarded_def tick_batch_def)
qed

lemma system_ok_heartbeat:
  assumes "system_ok engine s"
  shows "\<exists>s'. heartbeat_step env engine s = Inr s' \<and> system_ok engine s'"
  using assms system_ok_tick [OF assms] system_ok_dispatch [OF assms] system_ok_jobs [OF assms] by (cases "sy_pc s") blast+

lemma concat_answers_requests: "concat (map (answers \<circ> ReqMsg) rs) = []"
  by (induction rs) simp_all

lemma system_ok_call:
  assumes "system_ok engine s"
  shows "system_ok engine (call_step jwt op s)"
proof -
  obtain sv ch where c: "service_step jwt op (sy_service s, hb_request_channel (sy_server s)) = (sv, ch)" by fastforce
  obtain rs where ch: "buffer ch = buffer (hb_request_channel (sy_server s)) @ map ReqMsg rs"
      "is_closed ch = is_closed (hb_request_channel (sy_server s))"
    using service_step_channel [of jwt op "(sy_service s, hb_request_channel (sy_server s))"] by (auto simp: c is_closed_def)
  have sv: "service_ok sv"
    using service_step_ok [of "(sy_service s, hb_request_channel (sy_server s))" jwt op] assms by (simp add: c system_ok_def)
  have "not_upstream m" if "m \<in> set (map ReqMsg rs)" for m using that by auto
  with assms ch sv show ?thesis
    by (auto simp: call_step_def c system_ok_def accounted_def quiet_channel channels_guarded_def tick_batch_def
        concat_answers_requests)
qed

lemma system_ok_bus:
  assumes "system_ok engine s"
  shows "system_ok engine (s\<lparr>sy_server := bus_work (sy_server s)\<rparr>)"
proof -
  let ?st = "sy_server s"
  have q: "quiet ?st" "channels_guarded not_upstream ?st" using assms by (simp_all add: system_ok_def)
  have "quiet (bus_work ?st)" using quiet.inv_step [OF q, of undefined BusWork] by simp
  moreover have "chans (bus_work ?st) = chans ?st" by simp
  moreover have "hb_changeset (bus_work ?st) = hb_changeset ?st" using q(1) by (intro bus_work_frame) (simp add: quiet_def server_ok_def)
  ultimately show ?thesis
    using assms by (simp add: system_ok_def accounted_def chans_def channels_guarded_def channels_bus_work)
qed

lemma system_ok_step:
  assumes "system_ok engine s"
  shows "\<exists>s'. system_step env engine jwt op s = Inr s' \<and> system_ok engine s'"
  using system_ok_heartbeat [OF assms] system_ok_call [OF assms] system_ok_bus [OF assms] by (cases op) simp_all

lemma system_ok_run:
  assumes "system_ok engine s"
  shows "\<exists>s'. system_run env engine jwt ops s = Inr s' \<and> system_ok engine s'"
  using assms
proof (induction ops arbitrary: s)
  case (Cons op ops)
  obtain s1 where "system_step env engine jwt op s = Inr s1" and "system_ok engine s1" using system_ok_step [OF Cons.prems] by blast
  with Cons.IH [of s1] show ?case by simp
qed simp

section \<open>Progress\<close>

text \<open>The steps of the heartbeat thread up to and including its next tick.\<close>

fun steps_to_tick :: "hb_pc \<Rightarrow> nat" where
  "steps_to_tick AtTick = 1"
| "steps_to_tick (AtDispatch ws jobs) = length ws + length jobs + 3"
| "steps_to_tick (AtJobs jobs) = length jobs + 2"

lemma heartbeat_step_progress:
  assumes "heartbeat_step env engine s = Inr s'" and "sy_pc s \<noteq> AtTick"
  shows "Suc (steps_to_tick (sy_pc s')) = steps_to_tick (sy_pc s)" and "sy_issued s' = sy_issued s"
    and "sy_writes s' = sy_writes s"
  using assms by (auto simp: heartbeat_step_def split: hb_pc.splits list.splits sum.splits)

lemma call_step_frame [simp]:
  "sy_pc (call_step jwt op s) = sy_pc s" "sy_issued (call_step jwt op s) = sy_issued s" "sy_writes (call_step jwt op s) = sy_writes s"
  "sy_dispatched (call_step jwt op s) = sy_dispatched s"
  by (simp_all add: call_step_def split: prod.split)

lemma system_step_writes:
  assumes "system_step env engine jwt op s = Inr s'"
  shows "\<exists>more. sy_writes s' = sy_writes s @ more"
  using assms
  by (cases op) (auto simp: heartbeat_step_def split_beta Let_def split: hb_pc.splits list.splits sum.splits)

lemma system_run_writes:
  "system_run env engine jwt ops s = Inr s' \<Longrightarrow> \<exists>more. sy_writes s' = sy_writes s @ more"
proof (induction ops arbitrary: s)
  case (Cons op ops)
  then obtain s1 where s1: "system_step env engine jwt op s = Inr s1" "system_run env engine jwt ops s1 = Inr s'"
    by (auto split: sum.splits)
  from Cons.IH [OF s1(2)] system_step_writes [OF s1(1)] show ?case by auto
qed simp

lemma answered_after_next_tick:
  assumes "system_ok engine s" and "system_run env engine jwt ops s = Inr s'"
    and "steps_to_tick (sy_pc s) \<le> count_list ops HeartbeatStep"
  shows "\<exists>more. sy_writes s' = map (job_answer engine) (sy_issued s) @ more"
  using assms
proof (induction ops arbitrary: s)
  case Nil
  then show ?case by (cases "sy_pc s") simp_all
next
  case (Cons op ops)
  obtain s1 where s1: "system_step env engine jwt op s = Inr s1" and ok: "system_ok engine s1"
    using system_ok_step [OF Cons.prems(1)] by blast
  with Cons.prems(2) have run: "system_run env engine jwt ops s1 = Inr s'" by simp
  show ?case
  proof (cases "op = HeartbeatStep")
    case False
    then have "sy_pc s1 = sy_pc s" and "sy_issued s1 = sy_issued s" using s1 by (cases op; auto)+
    then show ?thesis using Cons.IH [OF ok run] Cons.prems(3) False by simp
  next
    case True
    then have step: "heartbeat_step env engine s = Inr s1" using s1 by simp
    show ?thesis
    proof (cases "sy_pc s = AtTick")
      case True
      from system_ok_tick [OF Cons.prems(1) True, of env] step
      have "sy_writes s1 = map (job_answer engine) (sy_issued s)" by simp
      with system_run_writes [OF run] show ?thesis by simp
    next
      case False
      from heartbeat_step_progress [OF step False] Cons.IH [OF ok run] Cons.prems(3) \<open>op = HeartbeatStep\<close>
      show ?thesis by simp
    qed
  qed
qed

section \<open>One stream in the running system\<close>

lemma system_step_stream:
  assumes "system_ok engine s" and "system_step env engine jwt op s = Inr s'" and "is_call op" and "op \<noteq> Call (Register rid)"
    and "stream_id rid" and "stream_state rid (writes_for rid (drop k (sy_dispatched s))) (sy_service s)" and "k \<le> length (sy_dispatched s)"
  shows "stream_state rid (writes_for rid (drop k (sy_dispatched s'))) (sy_service s') \<and> k \<le> length (sy_dispatched s')"
proof -
  have sok: "service_ok (sy_service s)" using assms(1) by (simp add: system_ok_def)
  show ?thesis
  proof (cases op)
    case HeartbeatStep
    with assms(2) have step: "heartbeat_step env engine s = Inr s'" by simp
    show ?thesis
    proof (cases "\<exists>w ws jobs. sy_pc s = AtDispatch (w # ws) jobs")
      case True
      then obtain w ws jobs where "sy_pc s = AtDispatch (w # ws) jobs" by blast
      with step obtain sv where d: "dispatch_write w (sy_service s) = Inr sv" and s': "sy_service s' = sv"
        "sy_dispatched s' = sy_dispatched s @ [w]"
        by (auto simp: heartbeat_step_def split: sum.splits)
      from dispatch_write_state [OF sok assms(6) d] s' assms(7) show ?thesis by (simp add: writes_for_def)
    next
      case False
      then have "sy_service s' = sy_service s" "sy_dispatched s' = sy_dispatched s"
        using step by (auto simp: heartbeat_step_def split_beta Let_def split: hb_pc.splits list.splits sum.splits)
      then show ?thesis using assms(6,7) by simp
    qed
  next
    case (Call c)
    with assms(3,4) have c: "op_writes rid c = []" "c \<noteq> Register rid" by (cases c; simp)+
    have "sy_service s' = fst (service_step jwt c (sy_service s, hb_request_channel (sy_server s)))"
      using assms(2) Call by (auto simp: call_step_def split: prod.split)
    moreover have "sy_dispatched s' = sy_dispatched s" using assms(2) Call by auto
    ultimately show ?thesis
      using service_step_state [of "(sy_service s, hb_request_channel (sy_server s))" rid _ c jwt] sok assms(5-7) c by simp
  qed (use assms in auto)
qed

lemma system_run_stream:
  assumes "system_ok engine s" and "system_run env engine jwt ops s = Inr s'" and "list_all is_call ops" and "Call (Register rid) \<notin> set ops"
    and "stream_id rid" and "stream_state rid (writes_for rid (drop k (sy_dispatched s))) (sy_service s)" and "k \<le> length (sy_dispatched s)"
  shows "stream_state rid (writes_for rid (drop k (sy_dispatched s'))) (sy_service s') \<and> system_ok engine s' \<and> k \<le> length (sy_dispatched s')"
  using assms
proof (induction ops arbitrary: s)
  case (Cons op ops)
  obtain s1 where s1: "system_step env engine jwt op s = Inr s1" and ok: "system_ok engine s1"
    using system_ok_step [OF Cons.prems(1)] by blast
  with Cons.prems(2) have run: "system_run env engine jwt ops s1 = Inr s'" by simp
  have "stream_state rid (writes_for rid (drop k (sy_dispatched s1))) (sy_service s1)" "k \<le> length (sy_dispatched s1)"
    using system_step_stream [OF Cons.prems(1) s1 _ _ Cons.prems(5,6,7)] Cons.prems(3,4) by auto
  with Cons.IH [OF ok run] Cons.prems(3-5) show ?case by simp
qed simp

lemma writes_for_jobs:
  "writes_for rid (map (job_answer engine) jobs) = map (job_answer engine) (filter (\<lambda>j. lj_request_id j = rid) jobs)"
  by (simp add: writes_for_def filter_map o_def job_answer_fields)

lemma dispatched_are_answers:
  assumes "system_ok engine s"
  shows "prefix (sy_dispatched s) (map (job_answer engine) (sy_issued s))"
proof -
  have "sy_dispatched s @ undispatched (sy_pc s) @ concat (map answers (buffer (hb_request_channel (sy_server s)))) @
      map (job_answer engine) (outstanding (sy_pc s)) = map (job_answer engine) (sy_issued s)"
    using assms by (metis accounted_def append.assoc system_ok_def)
  then show ?thesis by (metis prefixI)
qed

lemma prefix_writes_for: "prefix xs ys \<Longrightarrow> k \<le> length xs \<Longrightarrow> prefix (writes_for rid (drop k xs)) (writes_for rid (drop k ys))"
  by (auto simp: prefix_def writes_for_def)

section \<open>A request on an idle server\<close>

lemma tick_issues_job:
  assumes "quiet st" and "tick_batch st = [ReqMsg r]" and "hb_changeset st = empty_change_set"
    and "admit (fst (bp_evaluate (env_backpressure env) (metrics_of st)))" and "should_use_local env r"
  shows "local_jobs (fst (tick env st)) = [local_job r]"
proof -
  have g: "channels_guarded not_upstream st" using assms(2) by (simp add: channels_guarded_def)
  have m: "metrics_of (tick_start env st) = metrics_of st" by simp
  have "local_jobs (hb_changeset (after_batch env st)) = [local_job r]"
    using assms by (simp add: after_batch_def handle_request_def handle_request_local_def split_beta Let_def)
  then show ?thesis by (simp add: tick_phases(1) after_emit_def quiet_not_ready [OF assms(1) g])
qed

text \<open>The state after a submission and a registration on a fresh server.\<close>

lemma submit_and_register:
  assumes "check_auth jwt md" and "acceptable_audio (sp_audio proto)"
  obtains r s where "system_run env engine jwt [Call (Submit md proto), Call (Register (request_id ''strm'' 1))] new_system = Inr s"
    and "tick_batch (sy_server s) = [ReqMsg r]" and "metrics_of (sy_server s) = new_metrics" and "sy_pc s = AtTick"
    and "sy_issued s = []" and "map_of (sv_queues (sy_service s)) (request_id ''strm'' 1) = Some new_channel"
    and "wire_of (request_id ''strm'' 1) (sy_service s) = []"
    and "rq_request_id r = request_id ''strm'' 1" and "rq_text r = sp_text proto" and "rq_backend r = to_backend (sp_backend proto)"
    and "rq_voice r = apply_voice (sp_voice proto) default_voice_settings"
proof -
  have c: "sv_counter new_service = 1" by (simp add: new_service_def)
  obtain r where sub: "stream_submit jwt md proto (new_service, new_channel) =
      (Inr (request_id ''strm'' 1), new_service\<lparr>sv_counter := 2\<rparr>, new_channel\<lparr>buffer := [ReqMsg r]\<rparr>)"
    and r: "rq_request_id r = request_id ''strm'' 1" "rq_text r = sp_text proto" "rq_backend r = to_backend (sp_backend proto)"
      "rq_voice r = apply_voice (sp_voice proto) default_voice_settings"
    using stream_submit_accepts [OF assms, of new_channel new_service] by (auto simp: c new_channel_def)
  show thesis
    by (rule that [OF _ _ _ _ _ _ _ r])
      (simp_all add: call_step_def new_system_def new_server_def sub tick_batch_def new_board_def service_defs,
       simp_all add: new_channel_def update_conv new_service_def wire_of_def)
qed

section \<open>Properties\<close>

lemma run_append:
  "system_run env engine jwt (xs @ ys) s = (case system_run env engine jwt xs s of Inl e \<Rightarrow> Inl e | Inr s' \<Rightarrow> system_run env engine jwt ys s')"
  by (induction xs arbitrary: s) (simp_all split: sum.split)

text \<open>From a tick that issues one job to the dispatch of its answer: six steps of the heartbeat thread.\<close>

lemma six_steps:
  assumes ok: "system_ok engine s" and pc: "sy_pc s = AtTick" and issued: "sy_issued s = []"
    and jobs: "local_jobs (fst (tick env (sy_server s))) = [job]" and w: "client_writes (fst (tick env (sy_server s))) = []"
    and q: "map_of (sv_queues (sy_service s)) (lj_request_id job) = Some new_channel"
  shows "\<exists>s'. system_run env engine jwt (replicate 6 HeartbeatStep) s = Inr s' \<and>
    sy_service s' = (sy_service s)\<lparr>sv_queues := AList.update (lj_request_id job) \<lparr>buffer = [job_answer engine job], closed = False\<rparr> (sv_queues (sy_service s))\<rparr>"
proof -
  have "sy_writes s = []" using ok issued by (simp add: system_ok_def accounted_def)
  then obtain s1 where s1: "heartbeat_step env engine s = Inr s1" "system_ok engine s1" and pc1: "sy_pc s1 = AtDispatch [] [job]"
    and i1: "sy_issued s1 = [job]" "sy_service s1 = sy_service s" "sy_writes s1 = []"
    using system_ok_tick [OF ok pc, of env] pc jobs w issued by (auto simp: heartbeat_step_def split_beta Let_def)
  obtain s2 where s2: "heartbeat_step env engine s1 = Inr s2" "system_ok engine s2" and pc2: "sy_pc s2 = AtJobs [job]"
    and i2: "sy_issued s2 = [job]" "sy_service s2 = sy_service s" "sy_writes s2 = []"
    using system_ok_dispatch [OF s1(2) pc1, of env] pc1 i1 by (auto simp: heartbeat_step_def)
  obtain s3 where s3: "heartbeat_step env engine s2 = Inr s3" "system_ok engine s3" and pc3: "sy_pc s3 = AtJobs []"
    and i3: "sy_issued s3 = [job]" "sy_service s3 = sy_service s" "sy_writes s3 = []"
    using system_ok_jobs [OF s2(2) pc2, of env] pc2 i2 by (auto simp: heartbeat_step_def split: sum.splits)
  obtain s4 where s4: "heartbeat_step env engine s3 = Inr s4" "system_ok engine s4" and pc4: "sy_pc s4 = AtTick"
    and i4: "sy_issued s4 = [job]" "sy_service s4 = sy_service s" "sy_writes s4 = []"
    using system_ok_jobs [OF s3(2) pc3, of env] pc3 i3 by (auto simp: heartbeat_step_def)
  obtain s5 js where s5: "heartbeat_step env engine s4 = Inr s5" and pc5: "sy_pc s5 = AtDispatch [job_answer engine job] js"
    and i5: "sy_service s5 = sy_service s"
    using system_ok_tick [OF s4(2) pc4, of env] pc4 i4 by (auto simp: heartbeat_step_def split_beta Let_def)
  obtain s6 where s6: "heartbeat_step env engine s5 = Inr s6" and i6: "sy_service s6 = (sy_service s)\<lparr>sv_queues :=
      AList.update (lj_request_id job) \<lparr>buffer = [job_answer engine job], closed = False\<rparr> (sv_queues (sy_service s))\<rparr>"
    using q by (simp add: heartbeat_step_def pc5 i5 dispatch_write_def job_answer_fields send_def new_channel_def)
  have "system_run env engine jwt (replicate 6 HeartbeatStep) s = Inr s6"
    by (simp add: numeral_eq_Suc s1(1) s2(1) s3(1) s4(1) s5 s6)
  with i6 show ?thesis by blast
qed

lemma poll_final:
  assumes "map_of (sv_queues sv) rid = Some \<lparr>buffer = [w], closed = False\<rparr>" and "wc_is_final w"
  shows "fst (stream_poll rid (\<lambda>_. True) timed_out sv) = Some status_ok \<and>
    wire_of rid (snd (stream_poll rid (\<lambda>_. True) timed_out sv)) = wire_of rid sv @ [to_proto w]"
  using assms by (simp add: stream_poll_def swap_out_all_result Let_def)


text \<open>
  C2. Every job is accounted for: at any time the writes of all ticks so far, followed by the answers of the results waiting in the
  request channel and of the jobs still to be run, are the engine's answers for all jobs ever issued, in order, each exactly once; and the
  writes dispatched so far followed by those still to be dispatched are the writes of all ticks.
\<close>

theorem jobs_accounted_for:
  assumes "system_run env engine jwt ops new_system = Inr s"
  shows "sy_writes s @ concat (map answers (buffer (hb_request_channel (sy_server s)))) @
      map (job_answer engine) (outstanding (sy_pc s)) = map (job_answer engine) (sy_issued s) \<and>
    sy_dispatched s @ undispatched (sy_pc s) = sy_writes s"
  using system_ok_run [OF system_ok_new, of env engine jwt ops] assms by (auto simp: system_ok_def accounted_def)

theorem jobs_accounted_for_witness:
  "\<exists>s. system_run (example_env\<lparr>env_engine_ready := True\<rparr>) example_engine None
      [Call (Submit [] empty_request), HeartbeatStep, HeartbeatStep, HeartbeatStep] new_system = Inr s \<and>
    sy_writes s @ concat (map answers (buffer (hb_request_channel (sy_server s)))) @
      map (job_answer example_engine) (outstanding (sy_pc s)) = map (job_answer example_engine) (sy_issued s)"
  using system_ok_run [OF system_ok_new [of example_engine], of "example_env\<lparr>env_engine_ready := True\<rparr>" None
      "[Call (Submit [] empty_request), HeartbeatStep, HeartbeatStep, HeartbeatStep]"]
    jobs_accounted_for [of "example_env\<lparr>env_engine_ready := True\<rparr>" example_engine None
      "[Call (Submit [] empty_request), HeartbeatStep, HeartbeatStep, HeartbeatStep]"]
  by blast

text \<open>
  C6. Every job is answered by the next tick: from any reachable state, under any interleaving with the other threads, once the heartbeat
  thread has taken the steps up to its next tick, every job issued before has been answered with the engine's result for it.
\<close>

theorem jobs_answered_by_next_tick:
  assumes "system_run env engine jwt ops new_system = Inr s" and "system_run env engine jwt later s = Inr s'"
    and "steps_to_tick (sy_pc s) \<le> count_list later HeartbeatStep"
  shows "prefix (map (job_answer engine) (sy_issued s)) (sy_writes s')"
proof -
  have "system_ok engine s" using system_ok_run [OF system_ok_new, of env engine jwt ops] assms(1) by auto
  from answered_after_next_tick [OF this assms(2,3)] show ?thesis by (auto simp: prefix_def)
qed

theorem jobs_answered_by_next_tick_witness:
  "\<exists>s s'. system_run (example_env\<lparr>env_engine_ready := True\<rparr>) example_engine None
      [Call (Submit [] empty_request), Call (Register (request_id ''strm'' 1))] new_system = Inr s \<and>
    system_run (example_env\<lparr>env_engine_ready := True\<rparr>) example_engine None [HeartbeatStep, BusWorker, HeartbeatStep] s = Inr s' \<and>
    prefix (map (job_answer example_engine) (sy_issued s)) (sy_writes s')"
proof -
  let ?env = "example_env\<lparr>env_engine_ready := True\<rparr>"
  have "check_auth None []" "acceptable_audio (sp_audio empty_request)"
    by (simp_all add: check_auth_def acceptable_audio_def empty_request_def)
  from submit_and_register [OF this, of ?env example_engine] obtain s where
    s: "system_run ?env example_engine None [Call (Submit [] empty_request), Call (Register (request_id ''strm'' 1))] new_system = Inr s"
    and pc: "sy_pc s = AtTick" by metis
  have "system_ok example_engine s" using system_ok_run [OF system_ok_new, of ?env example_engine None] s by (metis sum.inject(2))
  then obtain s' where "system_run ?env example_engine None [HeartbeatStep, BusWorker, HeartbeatStep] s = Inr s'"
    using system_ok_run by metis
  with jobs_answered_by_next_tick [OF s this] s pc show ?thesis by auto
qed

text \<open>
  C5. A client receives only its own audio, and once: a SynthesizeStream call that has registered is sent at most one response,
  and that response is the engine's answer to a job of its own request, under every interleaving of calls, bus workers and heartbeat.
\<close>

theorem client_receives_own_audio_once:
  assumes "system_run env engine jwt before new_system = Inr s" and "wire_of rid (sy_service s) = []" and "stream_id rid"
    and "system_run env engine jwt after (call_step jwt (Register rid) s) = Inr s'"
    and "list_all is_call after" and "Call (Register rid) \<notin> set after"
  shows "length (wire_of rid (sy_service s')) \<le> 1 \<and>
    set (wire_of rid (sy_service s')) \<subseteq> {to_proto (job_answer engine j) | j. j \<in> set (sy_issued s') \<and> lj_request_id j = rid}"
proof -
  have ok: "system_ok engine s" using system_ok_run [OF system_ok_new, of env engine jwt before] assms(1) by auto
  let ?s = "call_step jwt (Register rid) s" and ?k = "length (sy_dispatched s)"
  have reg: "sy_service ?s = stream_register rid (sy_service s)" by (simp add: call_step_def)
  have "stream_state rid [] (stream_register rid (sy_service s))"
    using assms(2) by (simp add: stream_state_def) (simp add: service_defs update_conv new_channel_def)
  then have st: "stream_state rid (writes_for rid (drop ?k (sy_dispatched ?s))) (sy_service ?s)" by (simp add: reg writes_for_def)
  let ?ds = "writes_for rid (drop ?k (sy_dispatched s'))"
  have run: "stream_state rid ?ds (sy_service s')" "system_ok engine s'" "?k \<le> length (sy_dispatched s')"
    using system_run_stream [OF system_ok_call [OF ok] assms(4-6,3) st] by simp_all
  let ?wire = "wire_of rid (sy_service s')"
  have pre: "prefix ?wire (map to_proto ?ds)" and last: "list_all (\<lambda>r. \<not> so_is_final r) (butlast ?wire)"
    using run(1) by (auto simp: stream_state_def list_all_iff split: option.splits dest: in_set_butlastD)
  have "prefix ?ds (writes_for rid (drop ?k (map (job_answer engine) (sy_issued s'))))"
    by (rule prefix_writes_for [OF dispatched_are_answers [OF run(2)] run(3)])
  then have "set ?ds \<subseteq> set (writes_for rid (drop ?k (map (job_answer engine) (sy_issued s'))))" by (rule set_mono_prefix)
  also have "\<dots> \<subseteq> set (writes_for rid (map (job_answer engine) (sy_issued s')))" by (auto simp: writes_for_def dest: in_set_dropD)
  finally have sub: "set ?ds \<subseteq> set (writes_for rid (map (job_answer engine) (sy_issued s')))" .
  have own: "set ?wire \<subseteq> {to_proto (job_answer engine j) | j. j \<in> set (sy_issued s') \<and> lj_request_id j = rid}"
  proof
    fix x
    assume "x \<in> set ?wire"
    then obtain w where "w \<in> set ?ds" and x: "x = to_proto w" using set_mono_prefix [OF pre] by auto
    with sub obtain j where "w = job_answer engine j" "j \<in> set (sy_issued s')" "lj_request_id j = rid"
      by (auto simp: writes_for_jobs)
    with x show "x \<in> {to_proto (job_answer engine j) | j. j \<in> set (sy_issued s') \<and> lj_request_id j = rid}" by blast
  qed
  then have "list_all so_is_final ?wire" by (auto simp: list_all_iff job_answer_fields)
  then have "butlast ?wire = []" using last by (auto simp: list_all_iff dest: in_set_butlastD) (metis hd_in_set in_set_butlastD)
  then show ?thesis using own by (auto simp: butlast_conv_take)
qed

theorem client_receives_own_audio_once_witness:
  "\<exists>s'. system_run (example_env\<lparr>env_engine_ready := True\<rparr>) example_engine None
      [Call (Submit [] empty_request), HeartbeatStep, Call (Poll ''strm-1'' (\<lambda>_. True) False)]
      (call_step None (Register ''strm-1'') new_system) = Inr s' \<and>
    length (wire_of ''strm-1'' (sy_service s')) \<le> 1"
proof -
  let ?env = "example_env\<lparr>env_engine_ready := True\<rparr>"
  let ?after = "[Call (Submit [] empty_request), HeartbeatStep, Call (Poll ''strm-1'' (\<lambda>_. True) False)]"
  obtain s' where s': "system_run ?env example_engine None ?after (call_step None (Register ''strm-1'') new_system) = Inr s'"
    using system_ok_run [OF system_ok_call [OF system_ok_new]] by metis
  have "wire_of ''strm-1'' (sy_service new_system) = []" "stream_id ''strm-1''"
    by (simp_all add: new_system_def new_service_def wire_of_def stream_id_def)
  from client_receives_own_audio_once [of ?env example_engine None "[]" new_system, OF _ this s'] s' show ?thesis by simp
qed

text \<open>
  An idle server whose engine is ready answers a request for the local engine: the client's stream gets exactly one response, the
  engine's result for the text and the voice of the request, and ends normally.
\<close>

lemma idle_server_answers:
  fixes env engine jwt md proto
  defines "rid \<equiv> request_id ''strm'' 1"
  assumes "check_auth jwt md" and "acceptable_audio (sp_audio proto)" and "env_engine_ready env"
    and "to_backend (sp_backend proto) = Backend_Local \<or> to_backend (sp_backend proto) = Backend_Auto \<and> env_prefer_local env"
    and "0 < high_watermark (env_backpressure env)" and "0 < queue_high_watermark (env_backpressure env)"
  shows "\<exists>s job. system_run env engine jwt ([Call (Submit md proto), Call (Register rid)] @ replicate 6 HeartbeatStep) new_system = Inr s \<and>
    fst (stream_poll rid (\<lambda>_. True) False (sy_service s)) = Some status_ok \<and>
    wire_of rid (snd (stream_poll rid (\<lambda>_. True) False (sy_service s))) = [to_proto (job_answer engine job)] \<and>
    lj_request_id job = rid \<and> lj_text job = sp_text proto \<and>
    lj_voice_id job = vs_voice_id (apply_voice (sp_voice proto) default_voice_settings)"
proof -
  obtain r s where run: "system_run env engine jwt [Call (Submit md proto), Call (Register rid)] new_system = Inr s"
    and batch: "tick_batch (sy_server s) = [ReqMsg r]" and m: "metrics_of (sy_server s) = new_metrics" and pc: "sy_pc s = AtTick"
    and issued: "sy_issued s = []" and q: "map_of (sv_queues (sy_service s)) rid = Some new_channel" and wire: "wire_of rid (sy_service s) = []"
    and r: "rq_request_id r = rid" "rq_text r = sp_text proto" "rq_backend r = to_backend (sp_backend proto)"
      "rq_voice r = apply_voice (sp_voice proto) default_voice_settings"
    unfolding rid_def using submit_and_register [OF assms(2,3)] by metis
  have ok: "system_ok engine s" using system_ok_run [OF system_ok_new, of env engine jwt] run by (metis sum.inject(2))
  then have st: "quiet (sy_server s)" "hb_changeset (sy_server s) = empty_change_set" "channels_guarded not_upstream (sy_server s)"
    by (simp_all add: system_ok_def)
  have "admit (fst (bp_evaluate (env_backpressure env) (metrics_of (sy_server s))))"
    using assms(6,7) by (simp add: bp_evaluate_admit m new_metrics_def)
  moreover have "should_use_local env r" using assms(4,5) by (auto simp: should_use_local_def r)
  ultimately have jobs: "local_jobs (fst (tick env (sy_server s))) = [local_job r]" by (rule tick_issues_job [OF st(1) batch st(2)])
  have w: "client_writes (fst (tick env (sy_server s))) = []" using quiet_tick_writes [OF st(1,3,2)] by (simp add: batch)
  have job: "lj_request_id (local_job r) = rid" "lj_text (local_job r) = sp_text proto"
    "lj_voice_id (local_job r) = vs_voice_id (apply_voice (sp_voice proto) default_voice_settings)"
    by (simp_all add: local_job_def default_job_def r)
  obtain s' where run': "system_run env engine jwt (replicate 6 HeartbeatStep) s = Inr s'"
    and sv: "sy_service s' = (sy_service s)\<lparr>sv_queues := AList.update rid \<lparr>buffer = [job_answer engine (local_job r)], closed = False\<rparr>
      (sv_queues (sy_service s))\<rparr>"
    using six_steps [OF ok pc issued jobs w] q by (auto simp: job)
  have "map_of (sv_queues (sy_service s')) rid = Some \<lparr>buffer = [job_answer engine (local_job r)], closed = False\<rparr>"
    by (simp add: sv update_conv)
  note poll = poll_final [OF this job_answer_fields(2)]
  have "system_run env engine jwt ([Call (Submit md proto), Call (Register rid)] @ replicate 6 HeartbeatStep) new_system = Inr s'"
    using run_append [of env engine jwt "[Call (Submit md proto), Call (Register rid)]"] run run' by (simp only: sum.case)
  with poll [of False] job wire show ?thesis by (intro exI [of _ s'] exI [of _ "local_job r"]) (simp add: sv)
qed

end
