(* ===== verification/Stream_Call.thy ===== *)
theory Stream_Call
  imports Tts_Service
begin

text \<open>
  One call of \<^verbatim>\<open>SynthesizeStream\<close> of \<^verbatim>\<open>src/entry/tts_service_impl.h\<close> from beginning to end. The handler's thread is alone with what happens around
  it: a \<open>round\<close> is what one turn of the polling loop meets, namely the operations of other threads since the turn before, whether the client
  has cancelled, the results of the writes and the clock reading at the deadline test. The loop may run forever if the clock stands still, so it
  is a partial function; \<open>paced\<close> is what the clock and \<^verbatim>\<open>sleep_for\<close> guarantee, and under it the loop returns.
\<close>

section \<open>The handler\<close>

record round =
  rd_others :: "service_op list"
  rd_cancelled :: bool
  rd_write_ok :: "nat \<Rightarrow> bool"
  rd_now :: int

definition stream_timeout :: int where
  "stream_timeout = secs 60"

definition poll_pause :: int where
  "poll_pause = 20 * 10 ^ 6"

partial_function (option) stream_loop ::
  "jwt_verifier option \<Rightarrow> string \<Rightarrow> int \<Rightarrow> (nat \<Rightarrow> round) \<Rightarrow> nat \<Rightarrow> service \<times> request_channel \<Rightarrow>
   (rpc_outcome \<times> nat \<times> service \<times> request_channel) option" where
  "stream_loop jwt rid deadline rounds i s =
     (case service_run jwt (rd_others (rounds i)) s of (sv, ch) \<Rightarrow>
        if rd_cancelled (rounds i) then (case stream_cancelled rid sv of (st, sv) \<Rightarrow> Some (st, i, sv, ch))
        else
          (case stream_poll rid (rd_write_ok (rounds i)) (rd_now (rounds i) > deadline) sv of
             (Some st, sv) \<Rightarrow> Some (st, i, sv, ch)
           | (None, sv) \<Rightarrow> stream_loop jwt rid deadline rounds (Suc i) (sv, ch)))"

text \<open>\<open>before\<close> is what other threads do between the submission and the registration, \<open>start\<close> the clock when the loop begins.\<close>

definition synthesize_stream ::
  "jwt_verifier option \<Rightarrow> metadata \<Rightarrow> synthesize_request \<Rightarrow> service_op list \<Rightarrow> int \<Rightarrow> (nat \<Rightarrow> round) \<Rightarrow>
   service \<times> request_channel \<Rightarrow> (rpc_outcome \<times> nat \<times> service \<times> request_channel) option" where
  "synthesize_stream jwt md proto before start rounds s =
     (case stream_submit jwt md proto s of
        (Inl st, sv, ch) \<Rightarrow> Some (st, 0, sv, ch)
      | (Inr rid, sv, ch) \<Rightarrow>
          (case service_run jwt before (sv, ch) of (sv, ch) \<Rightarrow>
             stream_loop jwt rid (start + stream_timeout) rounds 0 (stream_register rid sv, ch)))"

section \<open>What surrounds a call\<close>

text \<open>The clock does not run backwards and every turn but the first comes after a pause of at least 20 ms.\<close>

definition paced :: "int \<Rightarrow> (nat \<Rightarrow> round) \<Rightarrow> bool" where
  "paced start rounds \<longleftrightarrow> (\<forall>i. start + int i * poll_pause \<le> rd_now (rounds i))"

text \<open>Operations of other calls: the queue of \<open>rid\<close> is registered, polled and removed by its own call only.\<close>

fun other_call :: "string \<Rightarrow> service_op \<Rightarrow> bool" where
  "other_call rid (Register r) = (r \<noteq> rid)"
| "other_call rid (Poll r _ _) = (r \<noteq> rid)"
| "other_call rid (CallCancelled r) = (r \<noteq> rid)"
| "other_call rid _ = True"

definition surrounded :: "string \<Rightarrow> (nat \<Rightarrow> round) \<Rightarrow> bool" where
  "surrounded rid rounds \<longleftrightarrow> (\<forall>i. list_all (other_call rid) (rd_others (rounds i)))"

text \<open>What the other threads did in the turns before turn \<open>i\<close>.\<close>

definition before_turn :: "(nat \<Rightarrow> round) \<Rightarrow> nat \<Rightarrow> service_op list" where
  "before_turn rounds i = concat (map (\<lambda>j. rd_others (rounds j)) [0..<i])"

lemma before_turn_simps [simp]:
  "before_turn rounds 0 = []" "before_turn rounds (Suc i) = before_turn rounds i @ rd_others (rounds i)"
  by (simp_all add: before_turn_def)

lemma dispatched_append [simp]: "dispatched rid (a @ b) = dispatched rid a @ dispatched rid b" "dispatched rid [] = []"
  by (simp_all add: dispatched_def)

lemma before_turn_mono: "i \<le> k \<Longrightarrow> set (dispatched rid (before_turn rounds i)) \<subseteq> set (dispatched rid (before_turn rounds k))"
  by (induction k) (auto simp: le_Suc_eq)

section \<open>The queue stays while the call runs\<close>

definition has_queue :: "string \<Rightarrow> service \<Rightarrow> bool" where
  "has_queue rid sv \<longleftrightarrow> map_of (sv_queues sv) rid \<noteq> None"

lemma dispatch_write_queue: "dispatch_write w sv = Inr sv' \<Longrightarrow> has_queue rid sv' = has_queue rid sv"
  by (auto simp: dispatch_write_def has_queue_def update_conv Let_def split: option.splits sum.splits if_splits)

lemma dispatch_queue: "dispatch_to_writers ws sv = Inr sv' \<Longrightarrow> has_queue rid sv' = has_queue rid sv"
  by (induction ws arbitrary: sv) (auto simp: dispatch_write_queue split: sum.splits)

lemma write_loop_queue: "k \<noteq> rid \<Longrightarrow> has_queue k (snd (write_loop rid ok ws sv)) = has_queue k sv"
  by (simp add: has_queue_def write_loop_other)

lemma other_call_queue:
  assumes "other_call rid op"
  shows "has_queue rid (fst (service_step jwt op s)) = has_queue rid (fst s)"
proof (cases s)
  case (Pair sv ch)
  show ?thesis
  proof (cases op)
    case (Poll r ok t)
    then have "r \<noteq> rid" using assms by simp
    show ?thesis
    proof (cases "map_of (sv_queues sv) r")
      case (Some q)
      let ?sv = "sv\<lparr>sv_queues := AList.update r (q\<lparr>buffer := []\<rparr>) (sv_queues sv)\<rparr>"
      have "has_queue rid (snd (write_loop r ok (buffer q) ?sv)) = has_queue rid sv"
        using \<open>r \<noteq> rid\<close> by (simp add: write_loop_queue) (simp add: has_queue_def update_conv)
      then show ?thesis using Some \<open>r \<noteq> rid\<close>
        by (auto simp: Poll Pair stream_poll_def swap_out_all_result has_queue_def split: prod.splits option.splits)
    qed (simp add: Poll Pair stream_poll_def)
  next
    case (Dispatch ws)
    then show ?thesis using dispatch_queue [of ws sv] by (auto simp: Pair split: sum.split)
  qed (use assms in \<open>auto simp: Pair stream_submit_def service_defs client_open_def has_queue_def update_conv
      split: sum.split parse_error.split\<close>)
qed

lemma other_calls_queue:
  "list_all (other_call rid) ops \<Longrightarrow> has_queue rid (fst (service_run jwt ops s)) = has_queue rid (fst s)"
  by (induction ops arbitrary: s) (simp_all add: service_run_def other_call_queue)

lemma service_run_ok: "service_ok (fst s) \<Longrightarrow> service_ok (fst (service_run jwt ops s))"
  unfolding service_run_def by (rule service_run.run_good) (simp_all add: all_guarded_True)

lemma other_calls_register: "list_all (other_call rid) ops \<Longrightarrow> Register rid \<notin> set ops"
  by (auto simp: list_all_iff)

section \<open>The loop returns\<close>

text \<open>At the head of turn \<open>i\<close>: the call has its queue, has sent everything dispatched in the turns before, and none of it was final.\<close>

definition turn_ok :: "string \<Rightarrow> (nat \<Rightarrow> round) \<Rightarrow> nat \<Rightarrow> service \<Rightarrow> bool" where
  "turn_ok rid rounds i sv \<longleftrightarrow> service_ok sv \<and> has_queue rid sv \<and> stream_state rid (dispatched rid (before_turn rounds i)) sv \<and>
     list_all (\<lambda>w. \<not> wc_is_final w) (dispatched rid (before_turn rounds i))"

text \<open>A poll that does not return has emptied the queue; one that returns has removed it.\<close>

lemma stream_poll_result:
  assumes "stream_state rid ds sv" and "has_queue rid sv" and "stream_poll rid ok late sv = (st, sv')"
  shows "st = None \<Longrightarrow> \<not> late \<and> has_queue rid sv' \<and> list_all (\<lambda>w. \<not> wc_is_final w) ds"
    and "st \<noteq> None \<Longrightarrow> st = Some status_ok \<and> \<not> has_queue rid sv'"
proof -
  obtain q where q: "map_of (sv_queues sv) rid = Some q" using assms(2) by (auto simp: has_queue_def)
  let ?sv = "sv\<lparr>sv_queues := AList.update rid (q\<lparr>buffer := []\<rparr>) (sv_queues sv)\<rparr>"
  obtain r sv1 where loop: "write_loop rid ok (buffer q) ?sv = (r, sv1)" by fastforce
  have poll: "(st, sv') = (case r of Some st \<Rightarrow> (Some st, sv1) | None \<Rightarrow> if late then (Some status_ok, unregister rid sv1) else (None, sv1))"
    using assms(3) q loop by (simp add: stream_poll_def swap_out_all_result split: option.splits)
  from write_loop_self [OF loop] obtain us vs where b: "buffer q = us @ vs" and n: "r = None \<Longrightarrow> vs = [] \<and> list_all (\<lambda>w. \<not> wc_is_final w) us \<and>
      map_of (sv_queues sv1) rid = Some (q\<lparr>buffer := []\<rparr>)" and s: "r \<noteq> None \<Longrightarrow> r = Some status_ok \<and> map_of (sv_queues sv1) rid = None"
    by (auto simp: update_conv)
  have ds: "map to_proto ds = wire_of rid sv @ map to_proto (buffer q)" "list_all (\<lambda>r. \<not> so_is_final r) (wire_of rid sv)"
    using assms(1) q by (simp_all add: stream_state_def)
  show "\<not> late \<and> has_queue rid sv' \<and> list_all (\<lambda>w. \<not> wc_is_final w) ds" if "st = None"
  proof -
    from that poll have r: "r = None" "\<not> late" "sv' = sv1" by (auto split: option.splits if_splits)
    have "list_all (\<lambda>r. \<not> so_is_final r) (map to_proto ds)" using n [OF r(1)] b ds by (simp add: list_all_final_map)
    then have "list_all (\<lambda>w. \<not> wc_is_final w) ds" by (simp only: list_all_final_map)
    with r n [OF r(1)] show ?thesis by (simp add: has_queue_def)
  qed
  show "st = Some status_ok \<and> \<not> has_queue rid sv'" if "st \<noteq> None"
    using that poll s by (cases r) (auto simp: has_queue_def split: if_splits)
qed

definition call_ended :: "string \<Rightarrow> (nat \<Rightarrow> round) \<Rightarrow> (rpc_outcome \<times> nat \<times> service \<times> request_channel) option \<Rightarrow> bool" where
  "call_ended rid rounds res \<longleftrightarrow> (\<exists>n sv ch. res = Some (status_ok, n, sv, ch) \<and> n \<le> 3001 \<and> \<not> has_queue rid sv \<and>
     stream_state rid (dispatched rid (before_turn rounds (Suc n))) sv \<and>
     list_all (\<lambda>w. \<not> wc_is_final w) (dispatched rid (before_turn rounds n)))"

lemma stream_turn:
  assumes turn: "turn_ok rid rounds i (fst s)" and "i \<le> 3001" and sur: "surrounded rid rounds" and rid: "stream_id rid"
  shows "call_ended rid rounds (stream_loop jwt rid deadline rounds i s) \<or>
    rd_now (rounds i) \<le> deadline \<and>
    (\<exists>s'. stream_loop jwt rid deadline rounds i s = stream_loop jwt rid deadline rounds (Suc i) s' \<and> turn_ok rid rounds (Suc i) (fst s'))"
proof -
  let ?ds = "dispatched rid (before_turn rounds (Suc i))"
  obtain sv ch where run: "service_run jwt (rd_others (rounds i)) s = (sv, ch)" by fastforce
  have others: "list_all (other_call rid) (rd_others (rounds i))" using sur by (simp add: surrounded_def)
  have st: "stream_state rid ?ds sv"
    using service_run_state [of s rid _ "rd_others (rounds i)" jwt] turn rid other_calls_register [OF others] by (simp add: turn_ok_def run)
  have ok: "service_ok sv" using service_run_ok [of s jwt "rd_others (rounds i)"] turn by (simp add: turn_ok_def run)
  have q: "has_queue rid sv" using other_calls_queue [OF others, of jwt s] turn by (simp add: turn_ok_def run)
  note unfold = stream_loop.simps [of jwt rid deadline rounds i s]
  show ?thesis
  proof (cases "rd_cancelled (rounds i)")
    case True
    have "stream_state rid ?ds (unregister rid sv)"
      using service_step_state [of "(sv, ch)" rid ?ds "CallCancelled rid"] ok st rid by (simp add: stream_cancelled_def)
    then show ?thesis
      using True turn assms(2) by (simp add: unfold run call_ended_def stream_cancelled_def turn_ok_def) (simp add: has_queue_def)
  next
    case False
    obtain r sv' where poll: "stream_poll rid (rd_write_ok (rounds i)) (rd_now (rounds i) > deadline) sv = (r, sv')" by fastforce
    have st': "stream_state rid ?ds sv'" and ok': "service_ok sv'"
      using stream_poll_self [OF st] stream_poll_ok [OF ok] poll by (metis snd_conv)+
    show ?thesis
    proof (cases r)
      case None
      with stream_poll_result(1) [OF st q poll] have "rd_now (rounds i) \<le> deadline" and "turn_ok rid rounds (Suc i) sv'"
        using st' ok' by (simp_all add: turn_ok_def)
      moreover have "stream_loop jwt rid deadline rounds i s = stream_loop jwt rid deadline rounds (Suc i) (sv', ch)"
        using False None poll by (subst unfold) (simp add: run)
      ultimately show ?thesis by fastforce
    next
      case (Some x)
      with stream_poll_result(2) [OF st q poll] show ?thesis
        using False poll st' turn assms(2) by (simp add: unfold run call_ended_def turn_ok_def)
    qed
  qed
qed

lemma stream_loop_returns:
  assumes "turn_ok rid rounds i (fst s)" and "i \<le> 3001" and paced: "paced start rounds" and "surrounded rid rounds" and "stream_id rid"
  shows "call_ended rid rounds (stream_loop jwt rid (start + stream_timeout) rounds i s)"
  using assms(1,2)
proof (induction "3001 - i" arbitrary: i s)
  case 0
  have "start + int i * poll_pause \<le> rd_now (rounds i)" using paced by (simp add: paced_def)
  moreover have "i = 3001" using 0 by simp
  ultimately have "\<not> rd_now (rounds i) \<le> start + stream_timeout" by (simp add: poll_pause_def stream_timeout_def secs_def)
  then show ?case using stream_turn [OF 0(2,3) assms(4,5)] by blast
next
  case (Suc k)
  then show ?case using stream_turn [OF Suc.prems assms(4,5), of jwt "start + stream_timeout"] by force
qed

section \<open>A call before its registration\<close>

definition unregistered :: "string \<Rightarrow> service \<Rightarrow> bool" where
  "unregistered rid sv \<longleftrightarrow> map_of (sv_queues sv) rid = None \<and> map_of (sv_writers sv) rid = None \<and> wire_of rid sv = []"

lemma unregistered_state: "unregistered rid sv \<longleftrightarrow> stream_state rid [] sv \<and> \<not> has_queue rid sv"
  by (auto simp: unregistered_def stream_state_def has_queue_def split: option.splits)

lemma register_turn: "service_ok sv \<Longrightarrow> unregistered rid sv \<Longrightarrow> turn_ok rid rounds 0 (stream_register rid sv)"
  using service_step_ok [of "(sv, undefined)" None "Register rid"]
  by (simp add: turn_ok_def unregistered_def stream_state_def has_queue_def)
    (simp add: service_defs update_conv new_channel_def)

lemma unregistered_cong:
  "map_of (sv_queues sv') k = map_of (sv_queues sv) k \<Longrightarrow> map_of (sv_writers sv') k = map_of (sv_writers sv) k \<Longrightarrow>
   wire_of k sv' = wire_of k sv \<Longrightarrow> unregistered k sv' = unregistered k sv"
  by (simp add: unregistered_def)

lemma unregistered_poll:
  assumes "k \<noteq> rid"
  shows "unregistered k (snd (stream_poll rid ok late sv)) = unregistered k sv"
proof (cases "map_of (sv_queues sv) rid")
  case (Some q)
  let ?sv = "sv\<lparr>sv_queues := AList.update rid (q\<lparr>buffer := []\<rparr>) (sv_queues sv)\<rparr>"
  obtain st sv' where loop: "write_loop rid ok (buffer q) ?sv = (st, sv')" by fastforce
  with write_loop_other [OF assms, of ok "buffer q" ?sv] assms
  have "unregistered k sv' = unregistered k sv" and "unregistered k (unregister rid sv') = unregistered k sv"
    by - (rule unregistered_cong; simp add: update_conv)+
  then show ?thesis using Some loop by (simp add: stream_poll_def swap_out_all_result split: option.split)
qed (simp add: stream_poll_def)

lemma unregistered_step:
  assumes "service_ok (fst s)" and un: "unregistered rid (fst s)" and "stream_id rid" and "other_call rid op"
  shows "unregistered rid (fst (service_step jwt op s))"
proof -
  obtain sv ch where s: "s = (sv, ch)" by fastforce
  with assms have ok: "service_ok sv" and un: "unregistered rid sv" by simp_all
  have st: "stream_state rid [] sv" "\<not> has_queue rid sv" using un by (simp_all add: unregistered_state)
  show ?thesis
  proof (cases op)
    case (Dispatch ws)
    from dispatch_ok [OF ok] obtain sv' where d: "dispatch_to_writers ws sv = Inr sv'" by blast
    have "wire_of rid sv' = []" using dispatch_unregistered_wire [OF ok _ _ d] un by (simp add: unregistered_def)
    moreover have "\<not> has_queue rid sv'" using dispatch_queue [OF d] st(2) by simp
    ultimately show ?thesis using dispatch_state [OF ok st(1) d] d
      by (auto simp: s Dispatch unregistered_def stream_state_def has_queue_def)
  next
    case (Poll r ok t)
    then show ?thesis using assms(4) un unregistered_poll [of rid r ok t sv] by (simp add: s)
  next
    case (ClientOpen md)
    then show ?thesis using un client_ids_differ [OF assms(3)]
      by (auto simp: s client_open_def generate_request_id_def register_writer_def update_conv unregistered_def wire_of_def)
  qed (use assms(4) un in \<open>auto simp: s stream_submit_def service_defs unregistered_def update_conv delete_conv wire_of_def
      split: sum.split parse_error.split\<close>)
qed

lemma unregistered_run:
  "service_ok (fst s) \<Longrightarrow> unregistered rid (fst s) \<Longrightarrow> stream_id rid \<Longrightarrow> list_all (other_call rid) ops \<Longrightarrow>
   unregistered rid (fst (service_run jwt ops s))"
proof (induction ops arbitrary: s)
  case (Cons op ops)
  then show ?case using Cons.IH [of "service_step jwt op s"] unregistered_step [of s rid op jwt] service_step_ok [of s jwt op]
    by (simp add: service_run_def)
qed (simp add: service_run_def)

lemma stream_id_request: "stream_id (request_id ''strm'' n)"
  by (simp add: stream_id_def request_id_def)

lemma stream_submit_unregistered:
  assumes "stream_submit jwt md proto (sv, ch) = (res, sv', ch')" and "unregistered rid sv" and "service_ok sv"
  shows "unregistered rid sv' \<and> service_ok sv' \<and> (\<forall>r. res = Inr r \<longrightarrow> r = request_id ''strm'' (sv_counter sv))"
  using assms by (auto simp: stream_submit_def generate_request_id_def unregistered_def split: if_splits sum.splits parse_error.splits)

text \<open>A call whose request was accepted ends as its loop does.\<close>

lemma accepted_call_ended:
  assumes "service_ok sv" and "unregistered rid sv" and rid: "rid = request_id ''strm'' (sv_counter sv)"
    and "list_all (other_call rid) before" and "paced start rounds" and "surrounded rid rounds"
    and sub: "stream_submit jwt md proto (sv, ch) = (Inr r, sv1, ch1)"
  shows "call_ended rid rounds (synthesize_stream jwt md proto before start rounds (sv, ch))"
proof -
  have sv1: "unregistered rid sv1" "service_ok sv1" "r = rid"
    using stream_submit_unregistered [OF sub assms(2,1)] rid by simp_all
  have id: "stream_id rid" by (simp add: rid stream_id_request)
  obtain sv2 ch2 where run: "service_run jwt before (sv1, ch1) = (sv2, ch2)" by fastforce
  have "unregistered rid sv2" "service_ok sv2"
    using unregistered_run [of "(sv1, ch1)" rid before jwt] service_run_ok [of "(sv1, ch1)" jwt before] sv1 id assms(4) run by simp_all
  then have "turn_ok rid rounds 0 (fst (stream_register rid sv2, ch2))" by (simp add: register_turn)
  from stream_loop_returns [OF this _ assms(5,6) id] show ?thesis by (simp add: synthesize_stream_def sub sv1(3) run)
qed

section \<open>Properties\<close>

text \<open>
  C8. Every call of SynthesizeStream returns: whatever the other threads do, however the writes and the client behave, if the clock
  advances by the pause of 20 ms from turn to turn, the call returns after at most 3002 turns of its loop, it leaves neither queue nor writer
  behind, what it sent is an initial part of what was dispatched for it, and it ends no later than the turn in which a final response reaches it.
\<close>

theorem stream_call_returns:
  assumes "service_ok sv" and "unregistered rid sv" and "rid = request_id ''strm'' (sv_counter sv)"
    and "list_all (other_call rid) before" and "paced start rounds" and "surrounded rid rounds"
  shows "\<exists>st n sv' ch'. synthesize_stream jwt md proto before start rounds (sv, ch) = Some (st, n, sv', ch') \<and> n \<le> 3001 \<and>
    map_of (sv_queues sv') rid = None \<and> map_of (sv_writers sv') rid = None \<and>
    prefix (wire_of rid sv') (map to_proto (dispatched rid (before_turn rounds (Suc n)))) \<and>
    (\<forall>k. list_ex wc_is_final (dispatched rid (before_turn rounds (Suc k))) \<longrightarrow> n \<le> k)"
proof -
  obtain res sv1 ch1 where sub: "stream_submit jwt md proto (sv, ch) = (res, sv1, ch1)" by (cases "stream_submit jwt md proto (sv, ch)")
  show ?thesis
  proof (cases res)
    case (Inl st)
    then show ?thesis using sub stream_submit_unregistered [OF sub assms(2,1)] by (simp add: synthesize_stream_def unregistered_def)
  next
    case (Inr r)
    from accepted_call_ended [OF assms sub [unfolded Inr]] obtain n sv' ch' where
      res: "synthesize_stream jwt md proto before start rounds (sv, ch) = Some (status_ok, n, sv', ch')" "n \<le> 3001"
      and q: "map_of (sv_queues sv') rid = None" and st: "stream_state rid (dispatched rid (before_turn rounds (Suc n))) sv'"
      and nofinal: "list_all (\<lambda>w. \<not> wc_is_final w) (dispatched rid (before_turn rounds n))"
      by (auto simp: call_ended_def has_queue_def)
    have "n \<le> k" if "list_ex wc_is_final (dispatched rid (before_turn rounds (Suc k)))" for k
    proof (rule ccontr)
      assume "\<not> n \<le> k"
      then have "set (dispatched rid (before_turn rounds (Suc k))) \<subseteq> set (dispatched rid (before_turn rounds n))"
        by (intro before_turn_mono) simp
      then show False using that nofinal by (auto simp: list_ex_iff list_all_iff)
    qed
    then show ?thesis using res q st by (auto simp: stream_state_def)
  qed
qed

definition answered_in_turn_one :: "nat \<Rightarrow> round" where
  "answered_in_turn_one i = \<lparr>rd_others = (if i = 1 then [Dispatch [default_write\<lparr>wc_request_id := ''strm-1'', wc_is_final := True\<rparr>]] else []),
     rd_cancelled = False, rd_write_ok = \<lambda>_. True, rd_now = int i * poll_pause\<rparr>"

theorem stream_call_returns_witness:
  "\<exists>st n sv' ch'. synthesize_stream None [] empty_request [] 0 answered_in_turn_one (new_service, new_channel) = Some (st, n, sv', ch') \<and>
     n \<le> 1 \<and> map_of (sv_queues sv') ''strm-1'' = None"
proof -
  have d: "dec (Suc 0) = ''1''" by code_simp
  have 1: "service_ok new_service" and 2: "unregistered ''strm-1'' new_service"
    by (simp_all add: service_ok_def new_service_def unregistered_def wire_of_def)
  have 3: "''strm-1'' = request_id ''strm'' (sv_counter new_service)"
    by (simp add: new_service_def request_id_def to_string_u64_def d)
  have 4: "list_all (other_call ''strm-1'') []" "paced 0 answered_in_turn_one" "surrounded ''strm-1'' answered_in_turn_one"
    by (simp_all add: paced_def surrounded_def answered_in_turn_one_def)
  have f: "list_ex wc_is_final (dispatched ''strm-1'' (before_turn answered_in_turn_one (Suc 1)))"
    by (simp add: answered_in_turn_one_def dispatched_def writes_for_def)
  show ?thesis using stream_call_returns [OF 1 2 3 4, of None "[]" empty_request new_channel] f by blast
qed

text \<open>
  A call that gets no response ends at its deadline, and its client is not told: the status is OK and nothing was sent.
\<close>

theorem deadline_is_silent:
  assumes "service_ok sv" and "unregistered rid sv" and "rid = request_id ''strm'' (sv_counter sv)"
    and "list_all (other_call rid) before" and "paced start rounds" and "surrounded rid rounds"
    and "stream_submit jwt md proto (sv, ch) = (Inr r, sv1, ch1)" and "\<forall>i. dispatched rid (rd_others (rounds i)) = []"
  shows "\<exists>n sv' ch'. synthesize_stream jwt md proto before start rounds (sv, ch) = Some (status_ok, n, sv', ch') \<and> wire_of rid sv' = []"
proof -
  have "dispatched rid (before_turn rounds i) = []" for i using assms(8) by (induction i) simp_all
  with accepted_call_ended [OF assms(1-7)] show ?thesis
    using assms(8) by (auto simp: call_ended_def has_queue_def stream_state_def)
qed

end
