(* ===== verification/Thread_Pool.thy ===== *)
theory Thread_Pool
  imports Tts_Prelude
begin

text \<open>
  The thread pool, \<^verbatim>\<open>src/framework/thread_pool.h\<close>, with its mutex and its condition variable. A step is what one thread does between two
  points where another one can interfere: a push under the mutex, a notification, the store to \<open>stop_\<close> (which is made without the
  mutex), a worker's test of the loop condition, its entry into the critical section, the moment it falls asleep, and the end of a
  task. A worker that found the predicate of \<^verbatim>\<open>cv_.wait\<close> false holds the mutex until it sleeps: it is \<open>Deciding\<close>. A task is a value
  of any type; \<open>tp_started\<close> records, for the properties, which tasks were started and in which order. Tasks are assumed to return.
\<close>

section \<open>States and steps\<close>

datatype 'f worker = AtLoop | Locking | Deciding | Asleep | Busy 'f | Exited

record 'f thread_pool =
  tp_queue :: "'f list"
  tp_stop :: bool
  tp_workers :: "'f worker list"
  tp_notify :: nat
  tp_notify_all :: bool
  tp_started :: "'f list"

definition new_thread_pool :: "nat \<Rightarrow> 'f thread_pool" where
  "new_thread_pool n = \<lparr>tp_queue = [], tp_stop = False, tp_workers = replicate (if n = 0 then 1 else n) AtLoop, tp_notify = 0,
     tp_notify_all = False, tp_started = []\<rparr>"

definition locked :: "'f thread_pool \<Rightarrow> bool" where
  "locked p \<longleftrightarrow> Deciding \<in> set (tp_workers p)"

definition pool_pending :: "'f thread_pool \<Rightarrow> nat" where
  "pool_pending p = length (tp_queue p)"

definition pool_submit :: "'f \<Rightarrow> 'f thread_pool \<Rightarrow> 'f thread_pool" where
  "pool_submit f p = p\<lparr>tp_queue := tp_queue p @ [f], tp_notify := tp_notify p + 1\<rparr>"

definition request_stop :: "'f thread_pool \<Rightarrow> 'f thread_pool" where
  "request_stop p = (if tp_stop p then p else p\<lparr>tp_stop := True, tp_notify_all := True\<rparr>)"

text \<open>The destructor shuts the pool down, which does nothing to one that was shut down before.\<close>

definition destroy_pool :: "'f thread_pool \<Rightarrow> 'f thread_pool" where
  "destroy_pool p = request_stop p"

definition wake_all :: "'f thread_pool \<Rightarrow> 'f thread_pool" where
  "wake_all p = p\<lparr>tp_notify_all := False, tp_workers := map (\<lambda>w. case w of Asleep \<Rightarrow> Locking | _ \<Rightarrow> w) (tp_workers p)\<rparr>"

definition set_worker :: "nat \<Rightarrow> 'f worker \<Rightarrow> 'f thread_pool \<Rightarrow> 'f thread_pool" where
  "set_worker i w p = p\<lparr>tp_workers := (tp_workers p)[i := w]\<rparr>"

abbreviation worker_is :: "'f thread_pool \<Rightarrow> nat \<Rightarrow> 'f worker \<Rightarrow> bool" where
  "worker_is p i w \<equiv> i < length (tp_workers p) \<and> tp_workers p ! i = w"

text \<open>Who makes a step: a caller of \<^verbatim>\<open>submit\<close> or \<^verbatim>\<open>shutdown\<close>, one of their notifications, a worker, or a spurious wake-up.\<close>

datatype 'f pool_event = Push 'f | Shutdown | Notify | Worker | Spurious

inductive pool_step :: "'f thread_pool \<Rightarrow> 'f pool_event \<Rightarrow> 'f thread_pool \<Rightarrow> bool" where
  push: "\<not> locked p \<Longrightarrow> pool_step p (Push f) (pool_submit f p)"
| wake: "0 < tp_notify p \<Longrightarrow> worker_is p i Asleep \<Longrightarrow> pool_step p Notify (set_worker i Locking (p\<lparr>tp_notify := tp_notify p - 1\<rparr>))"
| wake_none: "0 < tp_notify p \<Longrightarrow> Asleep \<notin> set (tp_workers p) \<Longrightarrow> pool_step p Notify (p\<lparr>tp_notify := tp_notify p - 1\<rparr>)"
| stop: "pool_step p Shutdown (request_stop p)"
| wake_all: "tp_notify_all p \<Longrightarrow> pool_step p Notify (wake_all p)"
| check: "worker_is p i AtLoop \<Longrightarrow> pool_step p Worker (set_worker i (if tp_stop p then Exited else Locking) p)"
| take: "worker_is p i Locking \<Longrightarrow> \<not> locked p \<Longrightarrow> tp_queue p = f # fs \<Longrightarrow>
    pool_step p Worker (set_worker i (Busy f) (p\<lparr>tp_queue := fs, tp_started := tp_started p @ [f]\<rparr>))"
| leave: "worker_is p i Locking \<Longrightarrow> \<not> locked p \<Longrightarrow> tp_queue p = [] \<Longrightarrow> tp_stop p \<Longrightarrow> pool_step p Worker (set_worker i Exited p)"
| decide: "worker_is p i Locking \<Longrightarrow> \<not> locked p \<Longrightarrow> tp_queue p = [] \<Longrightarrow> \<not> tp_stop p \<Longrightarrow> pool_step p Worker (set_worker i Deciding p)"
| sleep: "worker_is p i Deciding \<Longrightarrow> pool_step p Worker (set_worker i Asleep p)"
| finish: "worker_is p i (Busy f) \<Longrightarrow> pool_step p Worker (set_worker i AtLoop p)"
| spurious: "worker_is p i Asleep \<Longrightarrow> pool_step p Spurious (set_worker i Locking p)"

inductive_cases pool_step_cases: "pool_step p ev p'"

abbreviation pool_run :: "'f thread_pool \<Rightarrow> 'f pool_event list \<Rightarrow> 'f thread_pool \<Rightarrow> bool" where
  "pool_run \<equiv> runs pool_step"

fun pushed :: "'f pool_event list \<Rightarrow> 'f list" where
  "pushed [] = []"
| "pushed (Push f # evs) = f # pushed evs"
| "pushed (_ # evs) = pushed evs"

definition progress :: "'f pool_event \<Rightarrow> bool" where
  "progress ev \<longleftrightarrow> ev = Notify \<or> ev = Worker"

section \<open>Order of the tasks\<close>

lemmas pool_defs = set_worker_def pool_submit_def request_stop_def wake_all_def

lemma pool_step_fifo:
  "pool_step p ev p' \<Longrightarrow> tp_started p' @ tp_queue p' = tp_started p @ tp_queue p @ pushed [ev]"
  by (cases rule: pool_step.cases) (auto simp: pool_defs)

lemma pushed_Cons: "pushed (ev # evs) = pushed [ev] @ pushed evs"
  by (cases ev) auto

lemma pool_run_fifo:
  "pool_run p evs p' \<Longrightarrow> tp_started p' @ tp_queue p' = tp_started p @ tp_queue p @ pushed evs"
proof (induction rule: runs.induct)
  case (Cons p ev p' evs p'')
  then show ?case using pool_step_fifo [OF Cons.hyps(1)] by (subst pushed_Cons) (metis append.assoc)
qed simp

section \<open>No task is left behind\<close>

definition awake :: "'f worker \<Rightarrow> bool" where
  "awake w = (case w of AtLoop \<Rightarrow> True | Locking \<Rightarrow> True | Busy _ \<Rightarrow> True | _ \<Rightarrow> False)"

text \<open>
  A worker holds the mutex between its test and its sleep only while the queue is empty; a worker only leaves after a stop; and as long
  as there is work and no stop, a notification is under way or a worker is awake.
\<close>

definition workers_ok :: "'f thread_pool \<Rightarrow> bool" where
  "workers_ok p \<longleftrightarrow> tp_workers p \<noteq> [] \<and> (locked p \<longrightarrow> tp_queue p = []) \<and> (Exited \<in> set (tp_workers p) \<longrightarrow> tp_stop p) \<and>
     (tp_stop p \<or> tp_queue p = [] \<or> 0 < tp_notify p \<or> list_ex awake (tp_workers p)) \<and> (tp_notify_all p \<longrightarrow> tp_stop p)"

lemma set_worker_simps [simp]:
  "tp_queue (set_worker i w p) = tp_queue p" "tp_stop (set_worker i w p) = tp_stop p" "tp_notify (set_worker i w p) = tp_notify p"
  "tp_notify_all (set_worker i w p) = tp_notify_all p" "tp_started (set_worker i w p) = tp_started p"
  "tp_workers (set_worker i w p) = (tp_workers p)[i := w]"
  by (simp_all add: set_worker_def)

lemma awake_update: "i < length ws \<Longrightarrow> awake w \<Longrightarrow> list_ex awake (ws[i := w])"
  unfolding list_ex_iff by (metis set_update_memI)

lemma someone_awake:
  assumes "workers_ok p" and "\<not> tp_stop p" and "tp_queue p \<noteq> []" and "Asleep \<notin> set (tp_workers p)"
  shows "list_ex awake (tp_workers p)"
proof -
  obtain w where w: "w \<in> set (tp_workers p)" using assms(1) hd_in_set unfolding workers_ok_def by blast
  then have "w \<noteq> Deciding" "w \<noteq> Exited" "w \<noteq> Asleep" using assms by (auto simp: workers_ok_def locked_def)
  then have "awake w" by (cases w) (auto simp: awake_def)
  then show ?thesis using w by (auto simp: list_ex_iff)
qed

lemma new_thread_pool_ok: "workers_ok (new_thread_pool n)"
  by (auto simp: workers_ok_def new_thread_pool_def locked_def)


lemma pool_step_ok:
  assumes "pool_step p ev p'" and "workers_ok p"
  shows "workers_ok p'"
  using assms(1)
proof cases
  case (push f)
  then show ?thesis using assms(2) by (auto simp: workers_ok_def pool_submit_def locked_def)
next
  case (wake i)
  then show ?thesis using assms(2) by (auto simp: workers_ok_def locked_def awake_def awake_update dest: in_list_update)
next
  case wake_none
  then show ?thesis using assms(2) someone_awake [of p] by (auto simp: workers_ok_def locked_def)
next
  case stop
  then show ?thesis using assms(2) by (auto simp: workers_ok_def request_stop_def locked_def)
next
  case wake_all
  then show ?thesis using assms(2) by (auto simp: workers_ok_def wake_all_def locked_def split: worker.splits)
next
  case (check i)
  then show ?thesis using assms(2) by (auto simp: workers_ok_def locked_def awake_def awake_update dest: in_list_update)
next
  case (take i f fs)
  then show ?thesis using assms(2) by (auto simp: workers_ok_def locked_def awake_def awake_update dest: in_list_update)
next
  case (leave i)
  then show ?thesis using assms(2) by (auto simp: workers_ok_def locked_def dest: in_list_update)
next
  case (decide i)
  then show ?thesis using assms(2) by (auto simp: workers_ok_def locked_def dest: in_list_update)
next
  case (sleep i)
  then have "tp_queue p = []" using assms(2) by (auto simp: workers_ok_def locked_def in_set_conv_nth)
  then show ?thesis using sleep assms(2) by (auto simp: workers_ok_def locked_def dest: in_list_update)
next
  case (finish i f)
  then show ?thesis using assms(2) by (auto simp: workers_ok_def locked_def awake_def awake_update dest: in_list_update)
next
  case (spurious i)
  then show ?thesis using assms(2) by (auto simp: workers_ok_def locked_def awake_def awake_update dest: in_list_update)
qed

lemma pool_run_ok: "pool_run p evs p' \<Longrightarrow> workers_ok p \<Longrightarrow> workers_ok p'"
  by (erule runs_invariant [where P = workers_ok]) (auto intro: pool_step_ok)

text \<open>An awake worker can always go on while there is work.\<close>

lemma awake_can_step:
  assumes "awake (tp_workers p ! i)" and "i < length (tp_workers p)" and "\<not> locked p"
  shows "\<exists>p'. pool_step p Worker p'"
proof (cases "tp_workers p ! i")
  case AtLoop
  then show ?thesis using assms(2) by (blast intro: check)
next
  case Locking
  then show ?thesis using assms(2,3) by (cases "tp_queue p"; cases "tp_stop p") (blast intro: take leave decide)+
next
  case (Busy f)
  then show ?thesis using assms(2) by (blast intro: finish)
qed (use assms(1) in \<open>auto simp: awake_def\<close>)

abbreviation settled :: "'f thread_pool \<Rightarrow> bool" where
  "settled \<equiv> at_rest pool_step progress"

lemma settled_notify:
  assumes "settled p"
  shows "tp_notify p = 0 \<and> \<not> tp_notify_all p"
proof -
  have "\<exists>p'. pool_step p Notify p'" if "0 < tp_notify p"
  proof (cases "Asleep \<in> set (tp_workers p)")
    case True
    then obtain i where "i < length (tp_workers p)" "tp_workers p ! i = Asleep" by (auto simp: in_set_conv_nth)
    then show ?thesis using that by (blast intro: wake)
  qed (use that in \<open>blast intro: wake_none\<close>)
  then show ?thesis using assms by (auto simp: at_rest_def progress_def intro: wake_all)
qed

lemma settled_workers:
  assumes "settled p" and "w \<in> set (tp_workers p)"
  shows "w = Asleep \<or> w = Exited"
proof -
  obtain i where i: "i < length (tp_workers p)" "tp_workers p ! i = w" using assms(2) by (auto simp: in_set_conv_nth)
  have d: "\<not> locked p"
  proof
    assume "locked p"
    then obtain j where "j < length (tp_workers p)" "tp_workers p ! j = Deciding" by (auto simp: locked_def in_set_conv_nth)
    then show False using assms(1) by (auto simp: at_rest_def progress_def intro: sleep)
  qed
  then have "\<not> awake w" using awake_can_step [of p i] i assms(1) by (auto simp: at_rest_def progress_def)
  moreover have "w \<noteq> Deciding" using d assms(2) by (auto simp: locked_def)
  ultimately show ?thesis by (cases w) (auto simp: awake_def)
qed

section \<open>Every run comes to rest\<close>

fun rank :: "'f worker \<Rightarrow> nat" where
  "rank AtLoop = 3"
| "rank Locking = 2"
| "rank Deciding = 1"
| "rank Asleep = 0"
| "rank (Busy f) = 4"
| "rank Exited = 0"

definition work_left :: "'f thread_pool \<Rightarrow> nat" where
  "work_left p = 3 * length (tp_queue p) + 3 * tp_notify p + (if tp_notify_all p then 2 * length (tp_workers p) + 1 else 0) +
     sum_list (map rank (tp_workers p))"

lemma rank_wake_all:
  "sum_list (map rank (map (\<lambda>w. case w of Asleep \<Rightarrow> Locking | _ \<Rightarrow> w) ws)) \<le> sum_list (map rank ws) + 2 * length ws"
  by (induction ws) (auto split: worker.splits)

text \<open>What moving one worker does to the count.\<close>

lemma work_left_less:
  assumes "i < length (tp_workers c)" and "work_left c + rank w < work_left p + rank (tp_workers c ! i)"
  shows "work_left (set_worker i w c) < work_left p"
proof -
  have "work_left (set_worker i w c) + rank (tp_workers c ! i) = work_left c + rank w"
    using assms(1) sum_list_replace [of i "tp_workers c" "tp_workers c ! i" rank w] by (simp add: work_left_def)
  then show ?thesis using assms(2) by linarith
qed

lemma progress_decreases:
  assumes "pool_step p ev p'" and "progress ev"
  shows "work_left p' < work_left p"
  using assms
proof (induction rule: pool_step.induct)
  case (wake_all p)
  then show ?case using rank_wake_all [of "tp_workers p"] by (simp add: work_left_def wake_all_def)
qed ((rule work_left_less; simp add: work_left_def) | simp add: work_left_def progress_def)+

interpretation pool_steps: measured_system pool_step progress work_left
  by unfold_locales (rule progress_decreases)

lemma progress_pushes_nothing: "list_all progress evs \<Longrightarrow> pushed evs = []"
  by (induction evs rule: pushed.induct) (auto simp: progress_def)

lemma progress_step_stop: "pool_step p ev p' \<Longrightarrow> progress ev \<Longrightarrow> tp_stop p' = tp_stop p"
  by (cases rule: pool_step.cases) (auto simp: pool_defs progress_def)

lemma progress_keeps_stop: "pool_run p evs p' \<Longrightarrow> list_all progress evs \<Longrightarrow> tp_stop p' = tp_stop p"
  by (erule runs_invariant_kind [where kind = progress and P = "\<lambda>q. tp_stop q = tp_stop p"]) (auto dest: progress_step_stop)

lemma settled_queue_empty:
  assumes "workers_ok p" and "\<not> tp_stop p" and "settled p"
  shows "tp_queue p = []"
proof -
  have "\<not> list_ex awake (tp_workers p)" using settled_workers [OF assms(3)] by (fastforce simp: list_ex_iff awake_def)
  then show ?thesis using assms(1,2) settled_notify [OF assms(3)] by (auto simp: workers_ok_def)
qed

text \<open>
  C17. Every submitted task is run. From any reachable state of a pool that is not stopped, whatever the order in which its
  threads were and are scheduled, the threads come to rest after a bounded number of steps, they can always go on until then, and at rest
  every task that was ever submitted has been started, exactly once and in the order of submission.
\<close>

theorem submitted_tasks_all_run:
  assumes "pool_run (new_thread_pool n) evs p" and "\<not> tp_stop p"
  shows "(\<exists>evs' p'. pool_run p evs' p' \<and> list_all progress evs' \<and> settled p') \<and>
    (\<forall>evs' p'. pool_run p evs' p' \<and> list_all progress evs' \<longrightarrow>
       length evs' \<le> work_left p \<and> (settled p' \<longrightarrow> tp_started p' = pushed evs))"
proof (intro conjI allI impI pool_steps.comes_to_rest)
  fix evs' p'
  assume r: "pool_run p evs' p' \<and> list_all progress evs'"
  then show "length evs' \<le> work_left p" using pool_steps.run_bounded by fastforce
  assume "settled p'"
  moreover have "workers_ok p'" using r assms(1) new_thread_pool_ok pool_run_ok by blast
  ultimately have "tp_queue p' = []" using settled_queue_empty progress_keeps_stop r assms(2) by blast
  then show "tp_started p' = pushed evs"
    using pool_run_fifo [OF assms(1)] pool_run_fifo [of p evs' p'] r progress_pushes_nothing [of evs'] by (simp add: new_thread_pool_def)
qed

theorem submitted_tasks_all_run_witness:
  "\<exists>p evs p'. pool_run (new_thread_pool 2) [Push ''a'', Push ''b''] p \<and> pool_run p evs p' \<and> settled p' \<and> tp_started p' = [''a'', ''b'']"
proof -
  have "pool_run (new_thread_pool 2) [Push ''a'', Push ''b''] (pool_submit ''b'' (pool_submit ''a'' (new_thread_pool 2)))"
    by (auto intro!: runs.intros push simp: locked_def new_thread_pool_def pool_submit_def)
  from this submitted_tasks_all_run [OF this] show ?thesis
    by (simp add: pool_submit_def new_thread_pool_def) blast
qed

section \<open>Shutdown\<close>

definition leaving :: "'f thread_pool \<Rightarrow> bool" where
  "leaving p \<longleftrightarrow> tp_stop p \<and> \<not> locked p \<and> (Asleep \<in> set (tp_workers p) \<longrightarrow> tp_notify_all p)"

lemma leaving_step:
  assumes "pool_step p ev p'" and "leaving p"
  shows "leaving p'"
  using assms(1)
proof cases
  case (sleep i)
  then show ?thesis using assms(2) by (auto simp: leaving_def locked_def in_set_conv_nth)
qed (use assms(2) in \<open>auto simp: leaving_def locked_def wake_all_def pool_submit_def request_stop_def dest: in_list_update split: worker.splits\<close>)

lemma leaving_run: "pool_run p evs p' \<Longrightarrow> leaving p \<Longrightarrow> leaving p'"
  by (erule runs_invariant [where P = leaving]) (auto intro: leaving_step)

text \<open>The joins of \<^verbatim>\<open>shutdown\<close> return when all workers have left; they stay so.\<close>

definition all_exited :: "'f thread_pool \<Rightarrow> bool" where
  "all_exited p \<longleftrightarrow> list_all (\<lambda>w. w = Exited) (tp_workers p)"

lemma exited_is: "all_exited p \<Longrightarrow> worker_is p i w \<Longrightarrow> w = Exited"
  by (auto simp: all_exited_def list_all_length)

lemma all_exited_step:
  assumes "pool_step p ev p'" and "all_exited p"
  shows "all_exited p'"
  using assms(1)
proof cases
  case wake_all
  have "map (\<lambda>w. case w of Asleep \<Rightarrow> Locking | _ \<Rightarrow> w) (tp_workers p) = tp_workers p"
    using assms(2) by (auto simp: all_exited_def list_all_iff intro!: map_idI)
  then show ?thesis using assms(2) wake_all by (simp add: all_exited_def wake_all_def)
qed (use assms(2) exited_is [OF assms(2)] in \<open>auto simp: all_exited_def pool_submit_def request_stop_def\<close>)

lemma leaving_settled: "leaving p \<Longrightarrow> settled p \<Longrightarrow> all_exited p"
  using settled_workers settled_notify by (auto simp: leaving_def all_exited_def list_all_iff)

lemma leaving_stop: "\<not> tp_stop p \<Longrightarrow> \<not> locked p \<Longrightarrow> leaving (request_stop p)"
  by (auto simp: leaving_def request_stop_def locked_def)

text \<open>
  Shutdown ends when it does not hit the critical section: if no worker is between its test of the wait predicate and its sleep when
  the stop flag is set, then all workers leave after a bounded number of steps and the joins of \<^verbatim>\<open>shutdown\<close> return.
\<close>

theorem shutdown_terminates:
  assumes "pool_run (new_thread_pool n) evs p" and "\<not> tp_stop p" and "\<not> locked p"
  shows "(\<exists>evs' p'. pool_run (request_stop p) evs' p' \<and> list_all progress evs' \<and> settled p') \<and>
    (\<forall>evs' p'. pool_run (request_stop p) evs' p' \<and> list_all progress evs' \<longrightarrow>
       length evs' \<le> work_left (request_stop p) \<and> (settled p' \<longrightarrow> all_exited p'))"
proof (intro conjI allI impI pool_steps.comes_to_rest)
  fix evs' p'
  assume r: "pool_run (request_stop p) evs' p' \<and> list_all progress evs'"
  then show "length evs' \<le> work_left (request_stop p)" using pool_steps.run_bounded by fastforce
  assume s: "settled p'"
  have "leaving p'" using leaving_run [OF _ leaving_stop [OF assms(2,3)]] r by blast
  then show "all_exited p'" using leaving_settled s by blast
qed

theorem shutdown_terminates_witness:
  "\<exists>evs p'. pool_run (request_stop (new_thread_pool 3 :: string thread_pool)) evs p' \<and> settled p' \<and> all_exited p'"
proof -
  have "\<not> tp_stop (new_thread_pool 3 :: string thread_pool)" "\<not> locked (new_thread_pool 3 :: string thread_pool)"
    by (simp_all add: new_thread_pool_def locked_def)
  from shutdown_terminates [OF runs.Nil this] show ?thesis by blast
qed

lemma settledI:
  assumes "tp_notify p = 0" and "\<not> tp_notify_all p" and "list_all (\<lambda>w. w = Asleep \<or> w = Exited) (tp_workers p)"
  shows "settled p"
proof -
  have "\<not> pool_step p ev p'" if "progress ev" for ev p'
    using assms that by (auto elim!: pool_step_cases simp: progress_def list_all_iff) (metis nth_mem worker.distinct)+
  then show ?thesis by (simp add: at_rest_def)
qed

text \<open>
  Shutdown can hang: the stop flag is set and signalled without the mutex, so a worker that has just found the predicate false goes
  to sleep after the signal. The pool is then at rest with a sleeping worker, and \<^verbatim>\<open>shutdown\<close> waits for it without end unless the
  condition variable happens to wake up spuriously.
\<close>

theorem shutdown_can_hang:
  "\<exists>evs p. pool_run (new_thread_pool 1 :: string thread_pool) evs p \<and> tp_stop p \<and> settled p \<and> tp_workers p = [Asleep]"
proof -
  let ?p0 = "new_thread_pool 1 :: string thread_pool"
  let ?p1 = "set_worker 0 Deciding (set_worker 0 Locking ?p0)"
  let ?p2 = "set_worker 0 Asleep (wake_all (request_stop ?p1))"
  have "pool_step ?p0 Worker (set_worker 0 Locking ?p0)" using check [of 0 ?p0] by (simp add: new_thread_pool_def)
  moreover have "pool_step (set_worker 0 Locking ?p0) Worker ?p1"
    by (rule decide) (simp_all add: new_thread_pool_def locked_def)
  moreover have "pool_step (request_stop ?p1) Notify (wake_all (request_stop ?p1))"
    by (rule wake_all) (simp add: new_thread_pool_def request_stop_def)
  moreover have "pool_step (wake_all (request_stop ?p1)) Worker ?p2"
    by (rule sleep) (simp add: new_thread_pool_def request_stop_def wake_all_def)
  ultimately have "pool_run ?p0 [Worker, Worker, Shutdown, Notify, Worker] ?p2"
    using stop [of ?p1] by (blast intro: runs.intros)
  moreover have "settled ?p2" by (rule settledI) (simp_all add: new_thread_pool_def request_stop_def wake_all_def)
  ultimately show ?thesis
    by (intro exI [of _ "[Worker, Worker, Shutdown, Notify, Worker]"] exI [of _ ?p2])
      (simp add: new_thread_pool_def request_stop_def wake_all_def)
qed

end
