(* ===== verification/Priority_Timer.thy ===== *)
theory Priority_Timer
  imports Tts_Prelude "HOL-Library.Multiset" "HOL-Library.While_Combinator"
begin

text \<open>
  The timer of the reactor, \<^verbatim>\<open>src/framework/priority_timer.h\<close>: entries ordered by their deadline and, for equal deadlines, by the number
  they got when they were scheduled. The \<^verbatim>\<open>std::priority_queue\<close> is the list of its elements in the order of \<^verbatim>\<open>operator>\<close>. The lemmas on the
  loop of \<^verbatim>\<open>pop_expired\<close> are proved once, from the laws of a priority queue.
\<close>

section \<open>Entries\<close>

text \<open>What \<^verbatim>\<open>TimerEntry::operator>\<close> compares.\<close>

datatype timer_key = TimerKey (tk_deadline: time_point) (tk_seq: u64)

instantiation timer_key :: linorder
begin

definition less_eq_timer_key :: "timer_key \<Rightarrow> timer_key \<Rightarrow> bool" where
  "less_eq_timer_key a b \<longleftrightarrow>
     (if tk_deadline a \<noteq> tk_deadline b then tk_deadline a < tk_deadline b else tk_seq a \<le> tk_seq b)"

definition less_timer_key :: "timer_key \<Rightarrow> timer_key \<Rightarrow> bool" where
  "less_timer_key a b \<longleftrightarrow>
     (if tk_deadline a \<noteq> tk_deadline b then tk_deadline a < tk_deadline b else tk_seq a < tk_seq b)"

instance
proof
  fix a b c :: timer_key
  show "(a < b) = (a \<le> b \<and> \<not> b \<le> a)" by (auto simp: less_eq_timer_key_def less_timer_key_def)
  show "a \<le> a" by (simp add: less_eq_timer_key_def)
  show "a \<le> b \<Longrightarrow> b \<le> c \<Longrightarrow> a \<le> c" by (auto simp: less_eq_timer_key_def split: if_splits)
  show "a \<le> b \<Longrightarrow> b \<le> a \<Longrightarrow> a = b"
    by (cases a, cases b) (auto simp: less_eq_timer_key_def split: if_splits)
  show "a \<le> b \<or> b \<le> a" by (auto simp: less_eq_timer_key_def)
qed

end

record 'f timer_entry =
  te_deadline :: time_point
  te_skippable :: bool
  te_fn :: 'f
  te_seq :: u64

definition entry_key :: "'f timer_entry \<Rightarrow> timer_key" where
  "entry_key e = TimerKey (te_deadline e) (te_seq e)"

section \<open>The timer\<close>

record 'f priority_timer =
  tm_heap :: "'f timer_entry list"
  tm_next_seq :: u64

definition new_timer :: "'f priority_timer" where
  "new_timer = \<lparr>tm_heap = [], tm_next_seq = 0\<rparr>"

definition heap_push :: "'f timer_entry \<Rightarrow> 'f timer_entry list \<Rightarrow> 'f timer_entry list" where
  "heap_push e h = insort_key entry_key e h"

fun heap_top :: "'f timer_entry list \<Rightarrow> 'f timer_entry option" where
  "heap_top [] = None"
| "heap_top (e # h) = Some e"

definition heap_pop :: "'f timer_entry list \<Rightarrow> 'f timer_entry list" where
  "heap_pop h = tl h"

definition schedule_at :: "time_point \<Rightarrow> bool \<Rightarrow> 'f \<Rightarrow> 'f priority_timer \<Rightarrow> 'f priority_timer" where
  "schedule_at tp skippable fn t = t\<lparr>
     tm_heap := heap_push \<lparr>te_deadline = tp, te_skippable = skippable, te_fn = fn, te_seq = tm_next_seq t\<rparr> (tm_heap t),
     tm_next_seq := tm_next_seq t + 1\<rparr>"

definition schedule_in :: "time_point \<Rightarrow> int \<Rightarrow> bool \<Rightarrow> 'f \<Rightarrow> 'f priority_timer \<Rightarrow> 'f priority_timer" where
  "schedule_in steady_now d skippable fn t = schedule_at (steady_now + d) skippable fn t"

text \<open>\<^verbatim>\<open>duration_cast\<close> to whole seconds of a difference that is not negative.\<close>

definition lag_seconds :: "time_point \<Rightarrow> 'f timer_entry \<Rightarrow> int" where
  "lag_seconds now e = (now - te_deadline e) div secs 1"

definition due :: "time_point \<Rightarrow> 'f timer_entry \<Rightarrow> bool" where
  "due now e \<longleftrightarrow> te_deadline e \<le> now"

definition skipped :: "time_point \<Rightarrow> int \<Rightarrow> 'f timer_entry \<Rightarrow> bool" where
  "skipped now threshold e \<longleftrightarrow> te_skippable e \<and> lag_seconds now e > threshold"

definition pop_loop ::
  "('q \<Rightarrow> 'a option) \<Rightarrow> ('q \<Rightarrow> 'q) \<Rightarrow> ('a \<Rightarrow> bool) \<Rightarrow> ('a \<Rightarrow> bool) \<Rightarrow> 'q \<times> 'a list \<Rightarrow> ('q \<times> 'a list) option" where
  "pop_loop front pop wanted skip =
     while_option
       (\<lambda>(q, out). case front q of None \<Rightarrow> False | Some e \<Rightarrow> wanted e)
       (\<lambda>(q, out). case front q of None \<Rightarrow> (q, out) | Some e \<Rightarrow> (pop q, if skip e then out else out @ [e]))"

definition pop_expired ::
  "time_point \<Rightarrow> int \<Rightarrow> 'f priority_timer \<Rightarrow> ('f timer_entry list \<times> 'f priority_timer) option" where
  "pop_expired now threshold t =
     map_option (\<lambda>(h, out). (out, t\<lparr>tm_heap := h\<rparr>))
       (pop_loop heap_top heap_pop (due now) (skipped now threshold) (tm_heap t, []))"

definition timer_empty :: "'f priority_timer \<Rightarrow> bool" where
  "timer_empty t \<longleftrightarrow> tm_heap t = []"

definition timer_size :: "'f priority_timer \<Rightarrow> nat" where
  "timer_size t = length (tm_heap t)"

section \<open>Priority queues\<close>

locale priority_queue =
  fixes push :: "'a \<Rightarrow> 'q \<Rightarrow> 'q" and front :: "'q \<Rightarrow> 'a option" and pop :: "'q \<Rightarrow> 'q"
    and contents :: "'q \<Rightarrow> 'a multiset" and key :: "'a \<Rightarrow> 'k::linorder" and ordered :: "'q \<Rightarrow> bool"
  assumes contents_push: "ordered q \<Longrightarrow> contents (push x q) = add_mset x (contents q)"
    and ordered_push: "ordered q \<Longrightarrow> ordered (push x q)"
    and top_None: "ordered q \<Longrightarrow> (front q = None) = (contents q = {#})"
    and top_Some: "ordered q \<Longrightarrow> front q = Some x \<Longrightarrow> contents q = add_mset x (contents (pop q)) \<and> (\<forall>y\<in>#contents q. key x \<le> key y)"
    and ordered_pop: "ordered q \<Longrightarrow> front q = Some x \<Longrightarrow> ordered (pop q)"
begin

text \<open>
  The loop takes the elements in the order of their keys as long as they are wanted. It stops, leaves exactly the elements that are not
  wanted, and returns the wanted ones that are not skipped in the order of their keys.
\<close>

lemma pop_loop_result:
  assumes "ordered q" and mono: "\<forall>x y. wanted y \<longrightarrow> key x \<le> key y \<longrightarrow> wanted x"
  shows "\<exists>q' taken. pop_loop front pop wanted skip (q, out) = Some (q', out @ filter (\<lambda>x. \<not> skip x) taken) \<and> ordered q' \<and>
    contents q' = filter_mset (\<lambda>x. \<not> wanted x) (contents q) \<and> mset taken = filter_mset wanted (contents q) \<and>
    sorted (map key taken)"
  using assms(1)
proof (induction "size (contents q)" arbitrary: q out)
  case 0
  then have "front q = None" using top_None by simp
  then show ?case using 0 by (intro exI [of _ q] exI [of _ "[]"]) (simp add: pop_loop_def while_option_unfold [of _ _ "(q, out)"])
next
  case (Suc n)
  then obtain x where x: "front q = Some x" using top_None [of q] by force
  note step = top_Some [OF Suc.prems x]
  show ?case
  proof (cases "wanted x")
    case False
    have "\<not> wanted y" if "y \<in># contents q" for y using step that mono False by blast
    then have "filter_mset wanted (contents q) = {#}" "filter_mset (\<lambda>x. \<not> wanted x) (contents q) = contents q"
      using filter_mset_cong [of "contents q" "contents q" wanted "\<lambda>_. False"]
        filter_mset_cong [of "contents q" "contents q" "\<lambda>x. \<not> wanted x" "\<lambda>_. True"] by simp_all
    then show ?thesis using Suc.prems x False
      by (intro exI [of _ q] exI [of _ "[]"]) (simp add: pop_loop_def while_option_unfold [of _ _ "(q, out)"])
  next
    case True
    let ?out = "if skip x then out else out @ [x]"
    have "n = size (contents (pop q))" using Suc.hyps(2) step by simp
    from Suc.hyps(1) [OF this ordered_pop [OF Suc.prems x], of ?out] obtain q' taken where
      r: "pop_loop front pop wanted skip (pop q, ?out) = Some (q', ?out @ filter (\<lambda>x. \<not> skip x) taken)" "ordered q'"
        "contents q' = filter_mset (\<lambda>x. \<not> wanted x) (contents (pop q))" "mset taken = filter_mset wanted (contents (pop q))"
        "sorted (map key taken)" by blast
    have "pop_loop front pop wanted skip (q, out) = pop_loop front pop wanted skip (pop q, ?out)"
      using x True unfolding pop_loop_def by (subst while_option_unfold) simp
    moreover have "y \<in># contents (pop q)" if "y \<in> set taken" for y
      using that r(4) by (metis filter_mset_eq_conv mset_subset_eqD set_mset_mset)
    then have "sorted (map key (x # taken))" using r(5) step by auto
    ultimately show ?thesis using r True step
      by (intro exI [of _ q'] exI [of _ "x # taken"]) auto
  qed
qed

end

interpretation timer_heap: priority_queue heap_push heap_top heap_pop mset entry_key "\<lambda>h. sorted (map entry_key h)"
proof unfold_locales
  fix h :: "'f timer_entry list" and x
  assume h: "sorted (map entry_key h)"
  show "mset (heap_push x h) = add_mset x (mset h)" by (simp add: heap_push_def)
  show "sorted (map entry_key (heap_push x h))" using h by (simp add: heap_push_def sorted_insort_key)
  show "(heap_top h = None) = (mset h = {#})" by (cases h) simp_all
  show "mset h = add_mset x (mset (heap_pop h)) \<and> (\<forall>y\<in>#mset h. entry_key x \<le> entry_key y)" if "heap_top h = Some x"
    using that h by (cases h) (auto simp: heap_pop_def)
  show "sorted (map entry_key (heap_pop h))" if "heap_top h = Some x"
    using that h by (cases h) (auto simp: heap_pop_def)
qed


section \<open>Scheduling and expiry\<close>

lemma due_mono: "\<forall>x y. due now y \<longrightarrow> entry_key x \<le> entry_key y \<longrightarrow> due now x"
  by (auto simp: due_def entry_key_def less_eq_timer_key_def split: if_splits)

text \<open>The entries that a sequence of calls of \<^verbatim>\<open>schedule_at\<close> makes, numbered from \<open>n\<close> on.\<close>

fun numbered :: "u64 \<Rightarrow> (time_point \<times> bool \<times> 'f) list \<Rightarrow> 'f timer_entry list" where
  "numbered n [] = []"
| "numbered n ((tp, skippable, fn) # cs) =
     \<lparr>te_deadline = tp, te_skippable = skippable, te_fn = fn, te_seq = n\<rparr> # numbered (n + 1) cs"

definition schedule_all :: "(time_point \<times> bool \<times> 'f) list \<Rightarrow> 'f priority_timer \<Rightarrow> 'f priority_timer" where
  "schedule_all = fold (\<lambda>(tp, skippable, fn). schedule_at tp skippable fn)"

lemma schedule_all_heap:
  assumes "sorted (map entry_key (tm_heap t))"
  shows "mset (tm_heap (schedule_all cs t)) = mset (tm_heap t) + mset (numbered (tm_next_seq t) cs) \<and>
    sorted (map entry_key (tm_heap (schedule_all cs t)))"
  using assms
proof (induction cs arbitrary: t)
  case (Cons c cs)
  obtain tp skippable fn where c: "c = (tp, skippable, fn)" by (cases c)
  have "sorted (map entry_key (tm_heap (schedule_at tp skippable fn t)))"
    using Cons.prems by (simp add: schedule_at_def timer_heap.ordered_push)
  from Cons.IH [OF this] show ?case
    using timer_heap.contents_push [OF Cons.prems] by (simp add: c schedule_all_def schedule_at_def)
qed (simp add: schedule_all_def)

lemma length_numbered [simp]: "length (numbered n cs) = length cs"
  by (induction n cs rule: numbered.induct) auto

lemma numbered_seq:
  assumes "unat n + length cs \<le> 2 ^ 64" and "e \<in> set (numbered n cs)"
  shows "n \<le> te_seq e"
  using assms
proof (induction n cs arbitrary: e rule: numbered.induct)
  case (2 n tp skippable fn cs)
  show ?case
  proof (cases "cs = []")
    case False
    then have "unat n + 1 < 2 ^ 64" using 2(2) by (cases cs) auto
    then have n: "unat (n + 1) = unat n + 1" by (simp add: unat_plus_if_size word_size)
    have "n \<le> n + 1" by (simp add: word_le_nat_alt n)
    then show ?thesis using 2(1) [of e] 2(2,3) n by auto
  qed (use 2 in auto)
qed simp

lemma numbered_distinct:
  assumes "length cs \<le> 2 ^ 64 - unat n"
  shows "sorted_wrt (\<lambda>a b. te_seq a < te_seq b) (numbered n cs)"
  using assms
proof (induction n cs rule: numbered.induct)
  case (2 n tp skippable fn cs)
  show ?case
  proof (cases "cs = []")
    case False
    then have "unat n + 1 < 2 ^ 64" using 2(2) by (cases cs) auto
    then have n: "unat (n + 1) = unat n + 1" by (simp add: unat_plus_if_size word_size)
    have "n < te_seq e" if "e \<in> set (numbered (n + 1) cs)" for e
    proof -
      have "unat (n + 1) + length cs \<le> 2 ^ 64" using 2(2) n by simp
      from numbered_seq [OF this that] show ?thesis by (simp add: word_le_nat_alt word_less_nat_alt n)
    qed
    then show ?thesis using 2 n by auto
  qed simp
qed simp


text \<open>A stable sort by deadline of entries in the order of their numbers is a sort by the key.\<close>

lemma insort_key_in_order:
  assumes "sorted (map entry_key xs)" and "\<forall>y\<in>set xs. te_seq e < te_seq y"
  shows "sorted (map entry_key (insort_key te_deadline e xs))"
  using assms
  by (induction xs) (auto simp: entry_key_def less_eq_timer_key_def set_insort_key split: if_splits)

lemma sort_deadline_in_order:
  "sorted_wrt (\<lambda>a b. te_seq a < te_seq b) es \<Longrightarrow> sorted (map entry_key (sort_key te_deadline es))"
  by (induction es) (simp_all add: insort_key_in_order)

lemma key_sorted_unique:
  assumes "sorted (map entry_key xs)" and "sorted (map entry_key ys)" and "mset xs = mset ys"
    and "sorted_wrt (\<lambda>a b. te_seq a < te_seq b) es" and "set ys \<subseteq> set es" and "distinct ys"
  shows "xs = ys"
proof -
  have "inj_on te_seq (set es)" using assms(4)
    by (induction es) (auto simp: inj_on_insert dest: order.strict_implies_not_eq)
  then have "inj_on entry_key (set ys)" using assms(5) by (auto simp: inj_on_def entry_key_def subset_iff)
  moreover have "set xs = set ys" "distinct xs" using assms(3,6) by (metis set_mset_mset, metis mset_eq_imp_distinct_iff)
  ultimately show ?thesis using assms(1,2,6) map_sorted_distinct_set_unique [of entry_key xs ys]
    by (simp add: distinct_map)
qed

lemma numbered_all_distinct:
  "sorted_wrt (\<lambda>a b. te_seq a < te_seq b) es \<Longrightarrow> distinct es"
  by (induction es) auto

text \<open>
  C4. Timers fire in order. For any sequence of calls of \<^verbatim>\<open>schedule_at\<close> on a new timer, \<^verbatim>\<open>pop_expired\<close> terminates and returns exactly the entries
  whose deadline has passed, without the skippable ones that are late by more than the threshold, in the order of a stable sort by
  deadline: entries with the same deadline fire in the order they were scheduled. What stays in the heap is what is not due. The sequence
  numbers do not wrap around before 2^64 calls.
\<close>

theorem timers_fire_in_order:
  assumes "length calls \<le> 2 ^ 64"
  defines "entries \<equiv> sort_key te_deadline (numbered 0 calls)"
  shows "pop_expired now threshold (schedule_all calls new_timer) =
    Some (filter (\<lambda>e. due now e \<and> \<not> skipped now threshold e) entries,
      (schedule_all calls new_timer)\<lparr>tm_heap := filter (\<lambda>e. \<not> due now e) entries\<rparr>)"
proof -
  let ?t = "schedule_all calls new_timer" and ?es = "numbered 0 calls"
  have h: "mset (tm_heap ?t) = mset ?es" "sorted (map entry_key (tm_heap ?t))"
    using schedule_all_heap [of new_timer calls] by (simp_all add: new_timer_def)
  have seq: "sorted_wrt (\<lambda>a b. te_seq a < te_seq b) ?es" using numbered_distinct [of calls 0] assms(1) by simp
  note entries = sort_deadline_in_order [OF seq, folded entries_def]
  have e: "mset entries = mset ?es" "distinct entries" "set entries = set ?es"
    using numbered_all_distinct [OF seq] by (simp_all add: entries_def)
  obtain h' taken where
    r: "pop_loop heap_top heap_pop (due now) (skipped now threshold) (tm_heap ?t, []) =
        Some (h', filter (\<lambda>x. \<not> skipped now threshold x) taken)" "sorted (map entry_key h')"
      "mset h' = filter_mset (\<lambda>x. \<not> due now x) (mset (tm_heap ?t))" "mset taken = filter_mset (due now) (mset (tm_heap ?t))"
      "sorted (map entry_key taken)"
    using timer_heap.pop_loop_result [where wanted = "due now" and skip = "skipped now threshold" and out = "[]", OF h(2) due_mono]
    by auto
  have "taken = filter (due now) entries"
    using r(4,5) entries e h(1) seq by (intro key_sorted_unique [of _ _ ?es]) (auto simp: sorted_filter e(1))
  moreover have "h' = filter (\<lambda>x. \<not> due now x) entries"
    using r(2,3) entries e h(1) seq by (intro key_sorted_unique [of _ _ ?es]) (auto simp: sorted_filter e(1))
  ultimately show ?thesis by (simp add: pop_expired_def r(1) conj_commute)
qed

theorem timers_fire_in_order_witness:
  "map_option (map te_fn \<circ> fst) (pop_expired (secs 10) 1
     (schedule_all [(secs 9, False, ''b''), (secs 11, False, ''d''), (secs 5, True, ''late''), (secs 2, False, ''a''), (secs 9, True, ''c'')]
       new_timer)) = Some [''a'', ''b'', ''c'']"
  by (subst timers_fire_in_order) (simp, code_simp)

end
