(* ===== verification/Reactor.thy ===== *)
theory Reactor
  imports Thread_Pool Priority_Timer Decimal
begin

text \<open>
  The test clock, tasks and the reactor, \<^verbatim>\<open>src/framework/clock.h\<close>, \<^verbatim>\<open>task.h\<close>, \<^verbatim>\<open>task.cpp\<close> and \<^verbatim>\<open>reactor.h\<close>. A task's body is a value of any type, empty if the
  \<^verbatim>\<open>std::function\<close> is. The time a task takes is an argument of the slow-task check. \<open>re_fired\<close> records which timer entry ran at which time of the loop.
\<close>

section \<open>The virtual clock\<close>

record virtual_clock =
  vc_current :: time_point

definition new_clock :: virtual_clock where
  "new_clock = \<lparr>vc_current = 0\<rparr>"

definition virtual_now :: "virtual_clock \<Rightarrow> time_point" where
  "virtual_now c = vc_current c"

definition advance :: "int \<Rightarrow> virtual_clock \<Rightarrow> virtual_clock" where
  "advance d c = c\<lparr>vc_current := vc_current c + d\<rparr>"

definition set_clock :: "time_point \<Rightarrow> virtual_clock \<Rightarrow> virtual_clock" where
  "set_clock t c = c\<lparr>vc_current := t\<rparr>"

definition elapsed :: "virtual_clock \<Rightarrow> int" where
  "elapsed c = vc_current c"

section \<open>Tasks\<close>

datatype task_kind = Cpu | Io

record 'a task =
  ta_id :: u64
  ta_name :: string
  ta_kind :: task_kind
  ta_fn :: "'a option"

text \<open>\<^verbatim>\<open>TaskIdGenerator::next\<close> on the static counter: the id and the counter's next value.\<close>

definition next_task_id :: "u64 \<Rightarrow> u64 \<times> u64" where
  "next_task_id counter = (counter, counter + 1)"

definition task_id_to_string :: "u64 \<Rightarrow> string" where
  "task_id_to_string v = ''T'' @ to_string_u64 v"

definition new_task :: "string \<Rightarrow> task_kind \<Rightarrow> 'a option \<Rightarrow> u64 \<Rightarrow> 'a task \<times> u64" where
  "new_task name kind fn counter =
     (let (i, counter') = next_task_id counter in (\<lparr>ta_id = i, ta_name = name, ta_kind = kind, ta_fn = fn\<rparr>, counter'))"

text \<open>The thresholds in milliseconds, and the check on the clock's nanoseconds before and after the body.\<close>

fun slow_threshold :: "task_kind \<Rightarrow> int" where
  "slow_threshold Cpu = 10"
| "slow_threshold Io = 1000"

definition slow_warning :: "'a task \<Rightarrow> time_point \<Rightarrow> time_point \<Rightarrow> bool" where
  "slow_warning t start finish \<longleftrightarrow> (finish - start) div 1000 > slow_threshold (ta_kind t) * 1000"

section \<open>The reactor\<close>

record 'a reactor =
  re_cpu_pool :: "'a task thread_pool"
  re_io_pool :: "'a task thread_pool"
  re_timer :: "'a task priority_timer"
  re_skip_threshold :: int
  re_running :: bool
  re_ticks :: nat
  re_fired :: "(time_point \<times> 'a task timer_entry) list"

definition new_reactor :: "nat \<Rightarrow> nat \<Rightarrow> 'a reactor" where
  "new_reactor cpu_workers io_workers = \<lparr>re_cpu_pool = new_thread_pool cpu_workers, re_io_pool = new_thread_pool io_workers, re_timer = new_timer,
     re_skip_threshold = 1, re_running = False, re_ticks = 0, re_fired = []\<rparr>"

definition reactor_run :: "'a reactor \<Rightarrow> 'a reactor" where
  "reactor_run r = r\<lparr>re_running := True\<rparr>"

definition reactor_stop :: "'a reactor \<Rightarrow> 'a reactor" where
  "reactor_stop r =
     (if \<not> re_running r then r
      else r\<lparr>re_running := False, re_cpu_pool := request_stop (re_cpu_pool r), re_io_pool := request_stop (re_io_pool r)\<rparr>)"

text \<open>The destructor, and after it those of the pools.\<close>

definition destroy_reactor :: "'a reactor \<Rightarrow> 'a reactor" where
  "destroy_reactor r =
     (let r = reactor_stop r in r\<lparr>re_cpu_pool := destroy_pool (re_cpu_pool r), re_io_pool := destroy_pool (re_io_pool r)\<rparr>)"

definition schedule_cpu :: "'a task \<Rightarrow> 'a reactor \<Rightarrow> 'a reactor" where
  "schedule_cpu t r = r\<lparr>re_cpu_pool := pool_submit t (re_cpu_pool r)\<rparr>"

definition schedule_io :: "'a task \<Rightarrow> 'a reactor \<Rightarrow> 'a reactor" where
  "schedule_io t r = r\<lparr>re_io_pool := pool_submit t (re_io_pool r)\<rparr>"

text \<open>\<open>delay\<close> is in milliseconds; the deadline is on the steady clock.\<close>

definition schedule_timer :: "time_point \<Rightarrow> int \<Rightarrow> bool \<Rightarrow> 'a task \<Rightarrow> 'a reactor \<Rightarrow> 'a reactor" where
  "schedule_timer steady_now delay skippable t r =
     r\<lparr>re_timer := schedule_in steady_now (delay * 1000000) skippable t (re_timer r)\<rparr>"

text \<open>The body of the loop at the clock's time \<open>now\<close>: run what has expired, then the tick function. An iteration tests the flag first.\<close>

definition loop_body :: "time_point \<Rightarrow> 'a reactor \<Rightarrow> 'a reactor option" where
  "loop_body now r =
     (case pop_expired now (re_skip_threshold r) (re_timer r) of
        None \<Rightarrow> None
      | Some (out, timer) \<Rightarrow>
          Some (r\<lparr>re_timer := timer, re_fired := re_fired r @ map (Pair now) out, re_ticks := re_ticks r + 1\<rparr>))"

definition loop_iteration :: "time_point \<Rightarrow> 'a reactor \<Rightarrow> 'a reactor option" where
  "loop_iteration now r = (if \<not> re_running r then Some r else loop_body now r)"

datatype 'a reactor_op =
  RunOp | StopOp | CpuOp "'a task" | IoOp "'a task" | TimerOp time_point int bool "'a task" | LoopOp time_point

fun reactor_exec :: "'a reactor_op \<Rightarrow> 'a reactor \<Rightarrow> 'a reactor option" where
  "reactor_exec RunOp r = Some (reactor_run r)"
| "reactor_exec StopOp r = Some (reactor_stop r)"
| "reactor_exec (CpuOp t) r = Some (schedule_cpu t r)"
| "reactor_exec (IoOp t) r = Some (schedule_io t r)"
| "reactor_exec (TimerOp now d skippable t) r = Some (schedule_timer now d skippable t r)"
| "reactor_exec (LoopOp now) r = loop_iteration now r"

fun reactor_execs :: "'a reactor_op list \<Rightarrow> 'a reactor \<Rightarrow> 'a reactor option" where
  "reactor_execs [] r = Some r"
| "reactor_execs (op # ops) r = (case reactor_exec op r of None \<Rightarrow> None | Some r' \<Rightarrow> reactor_execs ops r')"

section \<open>Slow tasks\<close>

text \<open>The warning comes from the first whole microsecond above the threshold on: an overrun of less than a microsecond is not reported.\<close>

lemma slow_warning_iff:
  "slow_warning t start finish \<longleftrightarrow> finish - start \<ge> slow_threshold (ta_kind t) * 1000000 + 1000"
  unfolding slow_warning_def by (cases "ta_kind t") (simp_all, linarith+)

section \<open>Timer tasks\<close>

fun timer_call :: "'a reactor_op \<Rightarrow> (time_point \<times> bool \<times> 'a task) list" where
  "timer_call (TimerOp now d skippable t) = [(now + d * 1000000, skippable, t)]"
| "timer_call _ = []"

definition timer_calls :: "'a reactor_op list \<Rightarrow> (time_point \<times> bool \<times> 'a task) list" where
  "timer_calls ops = concat (map timer_call ops)"

text \<open>
  The accounting of the timer: every entry made for one of \<open>calls\<close> is in the heap, has fired or was dropped, and only skippable entries are
  dropped; what fired was due.
\<close>

definition timer_accounted :: "(time_point \<times> bool \<times> 'a task) list \<Rightarrow> 'a reactor \<Rightarrow> bool" where
  "timer_accounted calls r \<longleftrightarrow> sorted (map entry_key (tm_heap (re_timer r))) \<and> tm_next_seq (re_timer r) = of_nat (length calls) \<and>
     (\<exists>dropped. mset (numbered 0 calls) = mset (tm_heap (re_timer r)) + mset (map snd (re_fired r)) + mset dropped \<and>
        list_all te_skippable dropped) \<and>
     list_all (\<lambda>(now, e). due now e) (re_fired r)"

lemma numbered_append:
  "numbered n (xs @ ys) = numbered n xs @ numbered (n + of_nat (length xs)) ys"
  by (induction n xs rule: numbered.induct) (auto simp: ac_simps)

lemma pop_expired_result:
  assumes "sorted (map entry_key (tm_heap t))"
  shows "\<exists>h taken. pop_expired now threshold t = Some (filter (\<lambda>e. \<not> skipped now threshold e) taken, t\<lparr>tm_heap := h\<rparr>) \<and>
    sorted (map entry_key h) \<and> mset (tm_heap t) = mset h + mset taken \<and> list_all (due now) taken \<and> list_all (\<lambda>e. \<not> due now e) h"
proof -
  obtain h taken where
    r: "pop_loop heap_top heap_pop (due now) (skipped now threshold) (tm_heap t, []) =
        Some (h, filter (\<lambda>x. \<not> skipped now threshold x) taken)" "sorted (map entry_key h)"
      "mset h = filter_mset (\<lambda>x. \<not> due now x) (mset (tm_heap t))" "mset taken = filter_mset (due now) (mset (tm_heap t))"
    using timer_heap.pop_loop_result [where wanted = "due now" and skip = "skipped now threshold" and out = "[]", OF assms due_mono]
    by auto
  have "set h = {x \<in> set (tm_heap t). \<not> due now x}" "set taken = {x \<in> set (tm_heap t). due now x}"
    using r(3,4) by (metis set_mset_filter set_mset_mset)+
  moreover have "mset (tm_heap t) = mset h + mset taken"
    unfolding r(3,4) by (metis add.commute multiset_partition)
  ultimately show ?thesis using r(1,2) by (intro exI [of _ h] exI [of _ taken]) (auto simp: pop_expired_def list_all_iff)
qed


lemma loop_iteration_accounted:
  assumes "timer_accounted calls r"
  shows "\<exists>r'. loop_iteration now r = Some r' \<and> timer_accounted calls r' \<and>
    (re_running r \<longrightarrow> list_all (\<lambda>e. \<not> due now e) (tm_heap (re_timer r')))"
proof (cases "re_running r")
  case False
  then show ?thesis using assms by (simp add: loop_iteration_def loop_body_def)
next
  case True
  have s: "sorted (map entry_key (tm_heap (re_timer r)))" using assms by (simp add: timer_accounted_def)
  obtain dropped where d: "mset (numbered 0 calls) = mset (tm_heap (re_timer r)) + mset (map snd (re_fired r)) + mset dropped"
    "list_all te_skippable dropped" using assms by (auto simp: timer_accounted_def)
  let ?skip = "skipped now (re_skip_threshold r)"
  obtain h taken where p: "pop_expired now (re_skip_threshold r) (re_timer r) =
      Some (filter (\<lambda>e. \<not> ?skip e) taken, (re_timer r)\<lparr>tm_heap := h\<rparr>)" "sorted (map entry_key h)"
    "mset (tm_heap (re_timer r)) = mset h + mset taken" "list_all (due now) taken" "list_all (\<lambda>e. \<not> due now e) h"
    using pop_expired_result [OF s, of now "re_skip_threshold r"] by auto
  have "mset taken = mset (filter (\<lambda>e. \<not> ?skip e) taken) + mset (filter ?skip taken)"
    by (simp add: multiset_partition [of _ ?skip])
  then have "mset (numbered 0 calls) = mset h + (mset (map snd (re_fired r)) + mset (filter (\<lambda>e. \<not> ?skip e) taken)) +
      mset (filter ?skip taken @ dropped)"
    using d(1) p(3) by (simp add: ac_simps)
  moreover have "list_all te_skippable (filter ?skip taken @ dropped)"
    using d(2) by (auto simp: list_all_iff skipped_def)
  ultimately show ?thesis using True assms p
    by (auto simp: loop_iteration_def loop_body_def timer_accounted_def list_all_iff comp_def simp del: mset_append mset_map mset_filter
        intro!: exI [of _ "filter ?skip taken @ dropped"]) (simp add: comp_def)
qed

lemma reactor_exec_accounted:
  assumes "timer_accounted calls r"
  shows "\<exists>r'. reactor_exec op r = Some r' \<and> timer_accounted (calls @ timer_call op) r'"
proof (cases op)
  case (TimerOp now d skippable t)
  have "sorted (map entry_key (tm_heap (re_timer r)))" using assms by (simp add: timer_accounted_def)
  then show ?thesis using assms TimerOp
    by (auto simp: timer_accounted_def schedule_timer_def schedule_in_def schedule_at_def timer_heap.ordered_push
        timer_heap.contents_push numbered_append)
next
  case (LoopOp now)
  then show ?thesis using loop_iteration_accounted [OF assms, of now] by auto
qed (use assms in \<open>auto simp: timer_accounted_def reactor_run_def reactor_stop_def schedule_cpu_def schedule_io_def\<close>)

lemma reactor_execs_accounted:
  assumes "timer_accounted calls r"
  shows "\<exists>r'. reactor_execs ops r = Some r' \<and> timer_accounted (calls @ timer_calls ops) r'"
  using assms
proof (induction ops arbitrary: calls r)
  case (Cons op ops)
  then show ?case using reactor_exec_accounted [OF Cons.prems, of op] by (fastforce simp: timer_calls_def)
qed (simp add: timer_calls_def)

text \<open>
  C32. Timer tasks run on time. Whatever is done with a reactor, its loop always returns; every timer task that was scheduled has either
  run exactly once, at a time that is not before its deadline, or is still in the heap, or it was skippable and has been dropped; and an
  iteration of the running loop leaves no task in the heap that is due.
\<close>

theorem timer_tasks_run_on_time:
  "\<exists>r dropped r'. reactor_execs ops (new_reactor cpu_workers io_workers) = Some r \<and>
    mset (numbered 0 (timer_calls ops)) = mset (tm_heap (re_timer r)) + mset (map snd (re_fired r)) + mset dropped \<and>
    list_all te_skippable dropped \<and> list_all (\<lambda>(at, e). te_deadline e \<le> at) (re_fired r) \<and>
    loop_iteration now (reactor_run r) = Some r' \<and> list_all (\<lambda>e. now < te_deadline e) (tm_heap (re_timer r'))"
proof -
  have "timer_accounted [] (new_reactor cpu_workers io_workers :: 'a reactor)"
    by (simp add: timer_accounted_def new_reactor_def new_timer_def)
  from reactor_execs_accounted [OF this, of ops] obtain r where
    r: "reactor_execs ops (new_reactor cpu_workers io_workers) = Some r" "timer_accounted (timer_calls ops) r" by auto
  have "timer_accounted (timer_calls ops) (reactor_run r)" using r(2) by (simp add: timer_accounted_def reactor_run_def)
  from loop_iteration_accounted [OF this, of now] r show ?thesis
    by (auto simp: timer_accounted_def reactor_run_def due_def not_le)
qed

text \<open>A reactor that was stopped does not come back: \<^verbatim>\<open>run\<close> restarts the loop, and the pools stay stopped.\<close>

lemma restart_keeps_pools_stopped:
  "re_running r \<Longrightarrow> tp_stop (re_cpu_pool (reactor_run (reactor_stop r))) \<and> tp_stop (re_io_pool (reactor_run (reactor_stop r)))"
  by (simp add: reactor_run_def reactor_stop_def request_stop_def)


text \<open>
  The deadline of a timer task is on the steady clock and the loop compares it with the reactor's clock. With a virtual clock the two are
  different clocks: advancing it by a task's delay fires the task only if the steady clock was at its epoch when the task was scheduled.
\<close>

theorem virtual_clock_misses_timer:
  assumes "0 < steady_now"
  shows "\<exists>r. reactor_execs [RunOp, TimerOp steady_now d skippable t, LoopOp (virtual_now (advance (d * 1000000) new_clock))]
      (new_reactor cpu_workers io_workers) = Some r \<and> re_fired r = []"
  using assms
  by (simp add: reactor_run_def schedule_timer_def schedule_in_def schedule_at_def new_reactor_def new_timer_def loop_iteration_def loop_body_def
      pop_expired_def pop_loop_def while_option_unfold heap_push_def due_def virtual_now_def advance_def new_clock_def)

text \<open>The id that the slow-task warning prints identifies the task.\<close>

lemma task_id_to_string_inj: "task_id_to_string v = task_id_to_string w \<longleftrightarrow> v = w"
  by (simp add: task_id_to_string_def u64_text.enc_eq_iff)

end
