(* ===== verification/Reactor_Threads.thy ===== *)
theory Reactor_Threads
  imports Reactor
begin

text \<open>
  The threads of the reactor, \<^verbatim>\<open>src/framework/reactor.h\<close>: the loop thread that \<^verbatim>\<open>run\<close> starts, the workers of the two pools (\<open>Thread_Pool\<close>) and the thread
  that calls \<^verbatim>\<open>stop\<close>. \<^verbatim>\<open>stop\<close> clears the flag and requests the loop thread's stop, joins it, and then shuts the pools down one after the other; each
  shutdown sets the pool's flag and joins its workers. The loop thread waits for at most a millisecond before it tests the flag again, so it needs no
  notification. \<open>rt_token\<close> is the stop token of the loop thread, \<open>rt_stop\<close> where the call of \<^verbatim>\<open>stop\<close> is.
\<close>

section \<open>States and steps\<close>

datatype loop_pc = AtTest | InIteration | LoopGone

datatype stop_pc = NotCalled | JoiningLoop | StoppingCpu | JoiningCpu | StoppingIo | JoiningIo | StopDone

record 'a reactor_threads =
  rt_reactor :: "'a reactor"
  rt_loop :: loop_pc
  rt_token :: bool
  rt_stop :: stop_pc

abbreviation cpu_of :: "'a reactor_threads \<Rightarrow> 'a task thread_pool" where
  "cpu_of rt \<equiv> re_cpu_pool (rt_reactor rt)"

abbreviation io_of :: "'a reactor_threads \<Rightarrow> 'a task thread_pool" where
  "io_of rt \<equiv> re_io_pool (rt_reactor rt)"

text \<open>A reactor after \<^verbatim>\<open>run\<close>.\<close>

definition running_threads :: "nat \<Rightarrow> nat \<Rightarrow> 'a reactor_threads" where
  "running_threads cpu_workers io_workers =
     \<lparr>rt_reactor = reactor_run (new_reactor cpu_workers io_workers), rt_loop = AtTest, rt_token = False, rt_stop = NotCalled\<rparr>"

definition set_cpu :: "'a task thread_pool \<Rightarrow> 'a reactor_threads \<Rightarrow> 'a reactor_threads" where
  "set_cpu p rt = rt\<lparr>rt_reactor := (rt_reactor rt)\<lparr>re_cpu_pool := p\<rparr>\<rparr>"

definition set_io :: "'a task thread_pool \<Rightarrow> 'a reactor_threads \<Rightarrow> 'a reactor_threads" where
  "set_io p rt = rt\<lparr>rt_reactor := (rt_reactor rt)\<lparr>re_io_pool := p\<rparr>\<rparr>"

text \<open>The next step of the thread in \<^verbatim>\<open>stop\<close>, none while it waits in a join. A pool that was shut down before is not joined again.\<close>

definition stop_step :: "'a reactor_threads \<Rightarrow> 'a reactor_threads option" where
  "stop_step rt =
     (case rt_stop rt of
        NotCalled \<Rightarrow>
          if \<not> re_running (rt_reactor rt) then Some (rt\<lparr>rt_stop := StopDone\<rparr>)
          else Some (rt\<lparr>rt_reactor := (rt_reactor rt)\<lparr>re_running := False\<rparr>, rt_token := True, rt_stop := JoiningLoop\<rparr>)
      | JoiningLoop \<Rightarrow> if rt_loop rt = LoopGone then Some (rt\<lparr>rt_stop := StoppingCpu\<rparr>) else None
      | StoppingCpu \<Rightarrow>
          Some ((set_cpu (request_stop (cpu_of rt)) rt)\<lparr>rt_stop := if tp_stop (cpu_of rt) then StoppingIo else JoiningCpu\<rparr>)
      | JoiningCpu \<Rightarrow> if all_exited (cpu_of rt) then Some (rt\<lparr>rt_stop := StoppingIo\<rparr>) else None
      | StoppingIo \<Rightarrow>
          Some ((set_io (request_stop (io_of rt)) rt)\<lparr>rt_stop := if tp_stop (io_of rt) then StopDone else JoiningIo\<rparr>)
      | JoiningIo \<Rightarrow> if all_exited (io_of rt) then Some (rt\<lparr>rt_stop := StopDone\<rparr>) else None
      | StopDone \<Rightarrow> None)"

text \<open>The loop thread enters the body, comes back from it and leaves; the pools make their steps; others schedule; one thread stops.\<close>

datatype 'a reactor_event =
  LoopEnters | LoopReturns time_point | LoopLeaves | CpuThreads "'a task pool_event" | IoThreads "'a task pool_event"
| TimerScheduled time_point int bool "'a task" | StopThread

inductive reactor_step :: "'a reactor_threads \<Rightarrow> 'a reactor_event \<Rightarrow> 'a reactor_threads \<Rightarrow> bool" where
  loop_enters: "rt_loop rt = AtTest \<Longrightarrow> \<not> rt_token rt \<Longrightarrow> re_running (rt_reactor rt) \<Longrightarrow>
    reactor_step rt LoopEnters (rt\<lparr>rt_loop := InIteration\<rparr>)"
| loop_returns: "rt_loop rt = InIteration \<Longrightarrow> loop_body now (rt_reactor rt) = Some r \<Longrightarrow>
    reactor_step rt (LoopReturns now) (rt\<lparr>rt_reactor := r, rt_loop := AtTest\<rparr>)"
| loop_leaves: "rt_loop rt = AtTest \<Longrightarrow> rt_token rt \<or> \<not> re_running (rt_reactor rt) \<Longrightarrow>
    reactor_step rt LoopLeaves (rt\<lparr>rt_loop := LoopGone\<rparr>)"
| cpu: "pool_step (cpu_of rt) ev p \<Longrightarrow> ev \<noteq> Shutdown \<Longrightarrow> reactor_step rt (CpuThreads ev) (set_cpu p rt)"
| io: "pool_step (io_of rt) ev p \<Longrightarrow> ev \<noteq> Shutdown \<Longrightarrow> reactor_step rt (IoThreads ev) (set_io p rt)"
| timer: "reactor_step rt (TimerScheduled steady_now delay skippable t)
    (rt\<lparr>rt_reactor := schedule_timer steady_now delay skippable t (rt_reactor rt)\<rparr>)"
| stop: "stop_step rt = Some rt' \<Longrightarrow> reactor_step rt StopThread rt'"

inductive_cases reactor_step_cases: "reactor_step rt ev rt'"

fun reactor_progress :: "'a reactor_event \<Rightarrow> bool" where
  "reactor_progress LoopEnters = False"
| "reactor_progress (CpuThreads ev) = progress ev"
| "reactor_progress (IoThreads ev) = progress ev"
| "reactor_progress (TimerScheduled _ _ _ _) = False"
| "reactor_progress _ = True"

text \<open>A shutdown of a pool is clean if it does not come while a worker is between its test and its sleep.\<close>

definition clean_stop :: "'a reactor_threads \<Rightarrow> bool" where
  "clean_stop rt \<longleftrightarrow> (rt_stop rt = StoppingCpu \<longrightarrow> \<not> locked (cpu_of rt)) \<and> (rt_stop rt = StoppingIo \<longrightarrow> \<not> locked (io_of rt))"

definition clean_reactor_step :: "'a reactor_threads \<Rightarrow> 'a reactor_event \<Rightarrow> 'a reactor_threads \<Rightarrow> bool" where
  "clean_reactor_step rt ev rt' \<longleftrightarrow> reactor_step rt ev rt' \<and> (ev = StopThread \<longrightarrow> clean_stop rt)"

section \<open>The threads come to rest\<close>

fun stop_rank :: "stop_pc \<Rightarrow> nat" where
  "stop_rank NotCalled = 6"
| "stop_rank JoiningLoop = 5"
| "stop_rank StoppingCpu = 4"
| "stop_rank JoiningCpu = 3"
| "stop_rank StoppingIo = 2"
| "stop_rank JoiningIo = 1"
| "stop_rank StopDone = 0"

fun loop_rank :: "loop_pc \<Rightarrow> nat" where
  "loop_rank InIteration = 2"
| "loop_rank AtTest = 1"
| "loop_rank LoopGone = 0"

definition threads_left :: "'a reactor_threads \<Rightarrow> nat" where
  "threads_left rt = loop_rank (rt_loop rt) + work_left (cpu_of rt) + work_left (io_of rt)"

lemma loop_body_keeps:
  "loop_body now r = Some r' \<Longrightarrow> re_cpu_pool r' = re_cpu_pool r \<and> re_io_pool r' = re_io_pool r \<and> re_running r' = re_running r"
  by (auto simp: loop_body_def split: option.splits)

lemma schedule_timer_keeps [simp]:
  "re_cpu_pool (schedule_timer n d sk t r) = re_cpu_pool r" "re_io_pool (schedule_timer n d sk t r) = re_io_pool r"
  "re_running (schedule_timer n d sk t r) = re_running r"
  by (simp_all add: schedule_timer_def)

lemma set_pool_simps [simp]:
  "cpu_of (set_cpu p rt) = p" "io_of (set_cpu p rt) = io_of rt" "cpu_of (set_io p rt) = cpu_of rt" "io_of (set_io p rt) = p"
  "rt_loop (set_cpu p rt) = rt_loop rt" "rt_token (set_cpu p rt) = rt_token rt" "rt_stop (set_cpu p rt) = rt_stop rt"
  "rt_loop (set_io p rt) = rt_loop rt" "rt_token (set_io p rt) = rt_token rt" "rt_stop (set_io p rt) = rt_stop rt"
  "re_running (rt_reactor (set_cpu p rt)) = re_running (rt_reactor rt)" "re_running (rt_reactor (set_io p rt)) = re_running (rt_reactor rt)"
  "re_timer (rt_reactor (set_cpu p rt)) = re_timer (rt_reactor rt)" "re_timer (rt_reactor (set_io p rt)) = re_timer (rt_reactor rt)"
  by (simp_all add: set_cpu_def set_io_def)

lemma stop_step_lowers: "stop_step rt = Some rt' \<Longrightarrow> stop_rank (rt_stop rt') < stop_rank (rt_stop rt)"
  by (auto simp: stop_step_def split: stop_pc.splits if_splits)

definition reactor_order :: "('a reactor_threads \<times> 'a reactor_threads) set" where
  "reactor_order = measures [\<lambda>rt. stop_rank (rt_stop rt), threads_left]"

lemma reactor_step_descends:
  assumes "reactor_step rt ev rt'" and "reactor_progress ev"
  shows "(rt', rt) \<in> reactor_order"
  using assms(1)
proof cases
  case (loop_returns now r)
  then show ?thesis by (simp add: reactor_order_def threads_left_def loop_body_keeps [OF loop_returns(4)])
next
  case (cpu pev p)
  then show ?thesis using assms(2) progress_decreases [of "cpu_of rt" pev p] by (simp add: reactor_order_def threads_left_def)
next
  case (io pev p)
  then show ?thesis using assms(2) progress_decreases [of "io_of rt" pev p] by (simp add: reactor_order_def threads_left_def)
qed (use assms(2) in \<open>simp_all add: reactor_order_def threads_left_def stop_step_lowers\<close>)

interpretation reactor_steps: ordered_system clean_reactor_step reactor_progress reactor_order
  by unfold_locales (simp add: reactor_order_def, auto simp: clean_reactor_step_def dest: reactor_step_descends)

section \<open>Stopping the reactor\<close>

text \<open>What holds at each stage of a clean stop.\<close>

definition stop_ok :: "'a reactor_threads \<Rightarrow> bool" where
  "stop_ok rt \<longleftrightarrow> sorted (map entry_key (tm_heap (re_timer (rt_reactor rt)))) \<and>
     (rt_stop rt = NotCalled \<longrightarrow> re_running (rt_reactor rt)) \<and> (rt_stop rt \<noteq> NotCalled \<longrightarrow> rt_token rt \<and> \<not> re_running (rt_reactor rt)) \<and>
     (rt_loop rt = LoopGone \<or> rt_stop rt \<in> {NotCalled, JoiningLoop}) \<and>
     (if rt_stop rt \<in> {NotCalled, JoiningLoop, StoppingCpu} then \<not> tp_stop (cpu_of rt) else leaving (cpu_of rt)) \<and>
     (if rt_stop rt \<in> {JoiningIo, StopDone} then leaving (io_of rt) else \<not> tp_stop (io_of rt)) \<and>
     (rt_stop rt \<in> {StoppingIo, JoiningIo, StopDone} \<longrightarrow> all_exited (cpu_of rt)) \<and>
     (rt_stop rt = StopDone \<longrightarrow> all_exited (io_of rt))"

lemma stop_ok_running: "stop_ok (running_threads cpu_workers io_workers)"
  by (simp add: stop_ok_def running_threads_def reactor_run_def new_reactor_def new_timer_def new_thread_pool_def)

lemma pool_step_stop: "pool_step p ev p' \<Longrightarrow> ev \<noteq> Shutdown \<Longrightarrow> tp_stop p' = tp_stop p"
  by (cases rule: pool_step.cases) (auto simp: pool_defs)

lemma loop_body_returns:
  assumes "sorted (map entry_key (tm_heap (re_timer r)))"
  shows "\<exists>r'. loop_body now r = Some r' \<and> sorted (map entry_key (tm_heap (re_timer r')))"
  using pop_expired_result [OF assms, of now "re_skip_threshold r"] by (auto simp: loop_body_def)

lemma stop_ok_stop: "stop_ok rt \<Longrightarrow> clean_stop rt \<Longrightarrow> stop_step rt = Some rt' \<Longrightarrow> stop_ok rt'"
  by (cases "rt_stop rt") (auto simp: stop_ok_def clean_stop_def stop_step_def leaving_stop split: if_splits)

lemma clean_step_ok:
  assumes "clean_reactor_step rt ev rt'" and "stop_ok rt"
  shows "stop_ok rt'"
proof -
  have "reactor_step rt ev rt'" using assms(1) by (simp add: clean_reactor_step_def)
  then show ?thesis
  proof cases
    case (loop_returns now r)
    obtain r' where "loop_body now (rt_reactor rt) = Some r'" "sorted (map entry_key (tm_heap (re_timer r')))"
      using loop_body_returns [of "rt_reactor rt" now] assms(2) by (auto simp: stop_ok_def)
    then show ?thesis using loop_returns assms(2) loop_body_keeps [OF loop_returns(4)] by (auto simp: stop_ok_def)
  next
    case (cpu pev p)
    then show ?thesis using assms(2) pool_step_stop [OF cpu(3,4)] leaving_step [OF cpu(3)] all_exited_step [OF cpu(3)]
      by (auto simp: stop_ok_def split: if_splits)
  next
    case (io pev p)
    then show ?thesis using assms(2) pool_step_stop [OF io(3,4)] leaving_step [OF io(3)] all_exited_step [OF io(3)]
      by (auto simp: stop_ok_def split: if_splits)
  next
    case (timer steady_now delay skippable t)
    then show ?thesis using assms(2)
      by (simp add: stop_ok_def schedule_timer_def schedule_in_def schedule_at_def timer_heap.ordered_push)
  next
    case stop
    then show ?thesis using stop_ok_stop [OF assms(2)] assms(1) by (simp add: clean_reactor_step_def)
  qed (use assms(2) in \<open>auto simp: stop_ok_def\<close>)
qed

lemma clean_run_ok: "runs clean_reactor_step (running_threads c i) evs rt \<Longrightarrow> stop_ok rt"
  by (erule runs_invariant [where P = stop_ok]) (auto intro: stop_ok_running clean_step_ok)

text \<open>When the threads other than the one in \<^verbatim>\<open>stop\<close> can make no step, then the pools have settled and, after the call, the loop thread has left.\<close>

definition threads_rest :: "'a reactor_threads \<Rightarrow> bool" where
  "threads_rest rt \<longleftrightarrow> (\<forall>ev rt'. reactor_progress ev \<and> ev \<noteq> StopThread \<longrightarrow> \<not> reactor_step rt ev rt')"

lemma threads_restD: "threads_rest rt \<Longrightarrow> reactor_progress ev \<Longrightarrow> ev \<noteq> StopThread \<Longrightarrow> \<not> reactor_step rt ev rt'"
  by (simp add: threads_rest_def)

lemma rests_pools:
  assumes "threads_rest rt"
  shows "settled (cpu_of rt) \<and> settled (io_of rt)"
proof -
  have "\<not> pool_step (cpu_of rt) ev p" "\<not> pool_step (io_of rt) ev p" if "progress ev" for ev p
    using that threads_restD [OF assms, of "CpuThreads ev"] threads_restD [OF assms, of "IoThreads ev"] cpu [of rt ev p] io [of rt ev p]
    by (auto simp: progress_def)
  then show ?thesis by (simp add: at_rest_def)
qed

lemma settled_unlocked: "settled p \<Longrightarrow> \<not> locked p"
  using settled_workers [of p] by (fastforce simp: locked_def)

lemma rests_loop:
  assumes "threads_rest rt" and "stop_ok rt" and "rt_stop rt \<noteq> NotCalled"
  shows "rt_loop rt = LoopGone"
proof (cases "rt_loop rt")
  case AtTest
  then have "reactor_step rt LoopLeaves (rt\<lparr>rt_loop := LoopGone\<rparr>)" using assms(2,3) by (intro loop_leaves) (auto simp: stop_ok_def)
  then show ?thesis using threads_restD [OF assms(1)] by fastforce
next
  case InIteration
  obtain r where "loop_body 0 (rt_reactor rt) = Some r"
    using loop_body_returns [of "rt_reactor rt" 0] assms(2) by (auto simp: stop_ok_def)
  from loop_returns [OF InIteration this] show ?thesis using threads_restD [OF assms(1)] by fastforce
qed

lemma stop_step_waits:
  assumes "stop_step rt = None" and "stop_ok rt" and "threads_rest rt"
  shows "rt_stop rt = StopDone"
proof -
  have "rt_stop rt \<noteq> NotCalled" using assms(1) by (auto simp: stop_step_def split: if_splits)
  then have "rt_loop rt = LoopGone" using rests_loop assms(2,3) by blast
  then show ?thesis
    using assms(1,2) rests_pools [OF assms(3)] leaving_settled [of "cpu_of rt"] leaving_settled [of "io_of rt"]
    by (auto simp: stop_step_def stop_ok_def split: stop_pc.splits if_splits)
qed

lemma rest_clean: "threads_rest rt \<Longrightarrow> clean_stop rt"
  using rests_pools settled_unlocked by (auto simp: clean_stop_def)

text \<open>A reactor whose stop has returned has nothing left for its destructor to do.\<close>

lemma stopped_destroyed:
  assumes "stop_ok rt" and "rt_stop rt = StopDone"
  shows "destroy_reactor (rt_reactor rt) = rt_reactor rt"
  using assms by (simp add: stop_ok_def destroy_reactor_def destroy_pool_def reactor_stop_def request_stop_def leaving_def)

text \<open>
  \<^verbatim>\<open>Reactor::stop\<close> returns if its shutdowns of the pools are clean: whatever was scheduled before and is scheduled meanwhile, the threads cannot go
  on without end once the loop thread has no more turns, and when they rest the call has returned, the loop thread and all workers have left.
\<close>

lemma clean_rest_stopped:
  assumes "runs clean_reactor_step (running_threads cpu_workers io_workers) evs rt" and "at_rest clean_reactor_step reactor_progress rt"
  shows "rt_stop rt = StopDone \<and> rt_loop rt = LoopGone \<and> all_exited (cpu_of rt) \<and> all_exited (io_of rt)"
proof -
  note ok = clean_run_ok [OF assms(1)]
  have rest: "threads_rest rt" using assms(2) by (auto simp: threads_rest_def at_rest_def clean_reactor_step_def)
  have "stop_step rt = None"
    using assms(2) rest_clean [OF rest]
    by (cases "stop_step rt") (auto simp: at_rest_def clean_reactor_step_def dest!: spec [of _ StopThread] intro: stop)
  then show ?thesis using stop_step_waits [OF _ ok rest] ok by (auto simp: stop_ok_def)
qed

theorem reactor_stop_returns:
  assumes "runs clean_reactor_step (running_threads cpu_workers io_workers) evs rt"
  shows "\<exists>evs' rt'. runs clean_reactor_step rt evs' rt' \<and> list_all reactor_progress evs' \<and> rt_stop rt' = StopDone \<and>
    rt_loop rt' = LoopGone \<and> all_exited (cpu_of rt') \<and> all_exited (io_of rt')"
  using reactor_steps.comes_to_rest [of rt] clean_rest_stopped runs_append [OF assms] by blast

end
