(* ===== verification/Bus_Inbox.thy ===== *)
theory Bus_Inbox
  imports Event_Bus
begin

text \<open>
  The threads of the event bus, \<^verbatim>\<open>Inbox\<close>, \<^verbatim>\<open>BusWorker\<close>, \<^verbatim>\<open>start_workers\<close> and \<^verbatim>\<open>stop_workers\<close> of \<^verbatim>\<open>src/framework/event_bus.cpp\<close>, with the inbox's mutex and
  condition variable. What a task does is in \<open>Event_Bus\<close>; here a task is a value of any type, \<open>ib_taken\<close> and \<open>ib_run\<close> record which tasks were taken
  out of the queue and run. A worker is what its thread is about to do, together with the stop token of its \<^verbatim>\<open>jthread\<close>. It first tries to pop
  (\<open>Trying\<close>), then enters \<^verbatim>\<open>wait_pop\<close> (\<open>Entering\<close>); if it finds the predicate false it holds the mutex until it sleeps (\<open>Undecided\<close>).
  \<^verbatim>\<open>stop_workers\<close> closes the inbox and then deletes the workers one by one: a deletion requests the worker's stop and joins it.
\<close>

section \<open>States and steps\<close>

datatype 'x bus_pc = Looping | Trying | Entering | Undecided | Sleeping | Holding 'x | Gone

record 'x inbox =
  ib_queue :: "'x list"
  ib_stop :: bool
  ib_workers :: "('x bus_pc \<times> bool) list"
  ib_notify :: nat
  ib_notify_all :: bool
  ib_taken :: "'x list"
  ib_run :: "'x list"

definition started_inbox :: "nat \<Rightarrow> 'x inbox" where
  "started_inbox n = \<lparr>ib_queue = [], ib_stop = False, ib_workers = replicate n (Looping, False), ib_notify = 0, ib_notify_all = False,
     ib_taken = [], ib_run = []\<rparr>"

definition pcs :: "'x inbox \<Rightarrow> 'x bus_pc list" where
  "pcs b = map fst (ib_workers b)"

definition inbox_locked :: "'x inbox \<Rightarrow> bool" where
  "inbox_locked b \<longleftrightarrow> Undecided \<in> set (pcs b)"

definition inbox_push :: "'x \<Rightarrow> 'x inbox \<Rightarrow> 'x inbox" where
  "inbox_push x b = b\<lparr>ib_queue := ib_queue b @ [x], ib_notify := ib_notify b + 1\<rparr>"

definition inbox_close :: "'x inbox \<Rightarrow> 'x inbox" where
  "inbox_close b = b\<lparr>ib_stop := True, ib_notify_all := True\<rparr>"

definition wake_sleepers :: "'x inbox \<Rightarrow> 'x inbox" where
  "wake_sleepers b = b\<lparr>ib_notify_all := False,
     ib_workers := map (\<lambda>(pc, tok). (case pc of Sleeping \<Rightarrow> Entering | _ \<Rightarrow> pc, tok)) (ib_workers b)\<rparr>"

definition set_pc :: "nat \<Rightarrow> 'x bus_pc \<Rightarrow> 'x inbox \<Rightarrow> 'x inbox" where
  "set_pc i pc b = b\<lparr>ib_workers := (ib_workers b)[i := (pc, snd (ib_workers b ! i))]\<rparr>"

definition set_token :: "nat \<Rightarrow> 'x inbox \<Rightarrow> 'x inbox" where
  "set_token i b = b\<lparr>ib_workers := (ib_workers b)[i := (fst (ib_workers b ! i), True)]\<rparr>"

definition take_task :: "nat \<Rightarrow> 'x \<Rightarrow> 'x list \<Rightarrow> 'x inbox \<Rightarrow> 'x inbox" where
  "take_task i x xs b = set_pc i (Holding x) (b\<lparr>ib_queue := xs, ib_taken := ib_taken b @ [x]\<rparr>)"

abbreviation pc_is :: "'x inbox \<Rightarrow> nat \<Rightarrow> 'x bus_pc \<Rightarrow> bool" where
  "pc_is b i pc \<equiv> i < length (ib_workers b) \<and> fst (ib_workers b ! i) = pc"

text \<open>A publisher, the thread that stops the bus, a notification, a worker, or a spurious wake-up.\<close>

datatype 'x inbox_event = Publish 'x | CloseInbox | Deletion | Signal | WorkerStep | SpuriousWake

inductive inbox_step :: "'x inbox \<Rightarrow> 'x inbox_event \<Rightarrow> 'x inbox \<Rightarrow> bool" where
  publish: "\<not> inbox_locked b \<Longrightarrow> inbox_step b (Publish x) (inbox_push x b)"
| wake: "0 < ib_notify b \<Longrightarrow> pc_is b i Sleeping \<Longrightarrow> inbox_step b Signal (set_pc i Entering (b\<lparr>ib_notify := ib_notify b - 1\<rparr>))"
| wake_none: "0 < ib_notify b \<Longrightarrow> Sleeping \<notin> set (pcs b) \<Longrightarrow> inbox_step b Signal (b\<lparr>ib_notify := ib_notify b - 1\<rparr>)"
| close: "\<not> ib_stop b \<Longrightarrow> inbox_step b CloseInbox (inbox_close b)"
| wake_all: "ib_notify_all b \<Longrightarrow> inbox_step b Signal (wake_sleepers b)"
| delete: "ib_stop b \<Longrightarrow> \<not> ib_notify_all b \<Longrightarrow> i < length (ib_workers b) \<Longrightarrow> \<not> snd (ib_workers b ! i) \<Longrightarrow>
    list_all (\<lambda>pc. pc = Gone) (take i (pcs b)) \<Longrightarrow> inbox_step b Deletion (set_token i b)"
| stopped: "pc_is b i Looping \<Longrightarrow> snd (ib_workers b ! i) \<Longrightarrow> inbox_step b WorkerStep (set_pc i Gone b)"
| look: "pc_is b i Looping \<Longrightarrow> \<not> snd (ib_workers b ! i) \<Longrightarrow> inbox_step b WorkerStep (set_pc i Trying b)"
| try_pop: "pc_is b i Trying \<Longrightarrow> \<not> inbox_locked b \<Longrightarrow> ib_queue b = x # xs \<Longrightarrow> inbox_step b WorkerStep (take_task i x xs b)"
| try_none: "pc_is b i Trying \<Longrightarrow> \<not> inbox_locked b \<Longrightarrow> ib_queue b = [] \<Longrightarrow> inbox_step b WorkerStep (set_pc i Entering b)"
| wait_pop: "pc_is b i Entering \<Longrightarrow> \<not> inbox_locked b \<Longrightarrow> ib_queue b = x # xs \<Longrightarrow> inbox_step b WorkerStep (take_task i x xs b)"
| wait_stop: "pc_is b i Entering \<Longrightarrow> \<not> inbox_locked b \<Longrightarrow> ib_queue b = [] \<Longrightarrow> ib_stop b \<Longrightarrow> inbox_step b WorkerStep (set_pc i Gone b)"
| wait_none: "pc_is b i Entering \<Longrightarrow> \<not> inbox_locked b \<Longrightarrow> ib_queue b = [] \<Longrightarrow> \<not> ib_stop b \<Longrightarrow> inbox_step b WorkerStep (set_pc i Undecided b)"
| sleep: "pc_is b i Undecided \<Longrightarrow> inbox_step b WorkerStep (set_pc i Sleeping b)"
| run: "pc_is b i (Holding x) \<Longrightarrow> inbox_step b WorkerStep (set_pc i Looping (b\<lparr>ib_run := ib_run b @ [x]\<rparr>))"
| spurious: "pc_is b i Sleeping \<Longrightarrow> inbox_step b SpuriousWake (set_pc i Entering b)"

inductive_cases inbox_step_cases: "inbox_step b ev b'"

definition inbox_progress :: "'x inbox_event \<Rightarrow> bool" where
  "inbox_progress ev \<longleftrightarrow> ev = Signal \<or> ev = WorkerStep \<or> ev = Deletion"

fun published :: "'x inbox_event list \<Rightarrow> 'x list" where
  "published [] = []"
| "published (Publish x # evs) = x # published evs"
| "published (_ # evs) = published evs"

section \<open>Order and accounting\<close>

lemma set_pc_simps [simp]:
  "ib_queue (set_pc i pc b) = ib_queue b" "ib_stop (set_pc i pc b) = ib_stop b" "ib_notify (set_pc i pc b) = ib_notify b"
  "ib_notify_all (set_pc i pc b) = ib_notify_all b" "ib_taken (set_pc i pc b) = ib_taken b" "ib_run (set_pc i pc b) = ib_run b"
  "length (ib_workers (set_pc i pc b)) = length (ib_workers b)" "pcs (set_pc i pc b) = (pcs b)[i := pc]"
  by (simp_all add: set_pc_def pcs_def map_update)

lemma set_token_simps [simp]:
  "ib_queue (set_token i b) = ib_queue b" "ib_stop (set_token i b) = ib_stop b" "ib_notify (set_token i b) = ib_notify b"
  "ib_notify_all (set_token i b) = ib_notify_all b" "ib_taken (set_token i b) = ib_taken b" "ib_run (set_token i b) = ib_run b"
  by (simp_all add: set_token_def)

lemma set_token_pcs [simp]: "pcs (set_token i b) = pcs b"
proof (cases "i < length (ib_workers b)")
  case True
  then have "(map fst (ib_workers b))[i := fst (ib_workers b ! i)] = map fst (ib_workers b)" by (simp add: list_update_same_conv)
  then show ?thesis by (simp add: set_token_def pcs_def map_update)
qed (simp add: set_token_def pcs_def list_update_beyond)

lemma pc_is_nth: "pc_is b i pc \<Longrightarrow> i < length (pcs b) \<and> pcs b ! i = pc"
  by (simp add: pcs_def)

lemma pcs_simps [simp]:
  "pcs (b\<lparr>ib_queue := q\<rparr>) = pcs b" "pcs (b\<lparr>ib_taken := h\<rparr>) = pcs b" "pcs (b\<lparr>ib_run := h\<rparr>) = pcs b" "pcs (b\<lparr>ib_notify := n\<rparr>) = pcs b"
  by (simp_all add: pcs_def)

lemmas inbox_defs = take_task_def inbox_push_def inbox_close_def wake_sleepers_def

lemma published_Cons: "published (ev # evs) = published [ev] @ published evs"
  by (cases ev) auto

lemma inbox_step_fifo: "inbox_step b ev b' \<Longrightarrow> ib_taken b' @ ib_queue b' = ib_taken b @ ib_queue b @ published [ev]"
  by (cases rule: inbox_step.cases) (auto simp: inbox_defs)

lemma inbox_run_fifo:
  "runs inbox_step b evs b' \<Longrightarrow> ib_taken b' @ ib_queue b' = ib_taken b @ ib_queue b @ published evs"
proof (induction rule: runs.induct)
  case (Cons b ev b' evs b'')
  then show ?case using inbox_step_fifo [OF Cons.hyps(1)] by (subst published_Cons) (metis append.assoc)
qed simp

fun held :: "'x bus_pc \<Rightarrow> 'x multiset" where
  "held (Holding x) = {#x#}"
| "held _ = {#}"

definition in_hands :: "'x inbox \<Rightarrow> 'x multiset" where
  "in_hands b = sum_list (map held (pcs b))"

lemma hands_move:
  assumes "pc_is b i pc"
  shows "sum_list (map held ((pcs b)[i := pc'])) + held pc = in_hands b + held pc'"
  using sum_list_replace [of i "pcs b" pc held pc'] pc_is_nth [OF assms] by (simp add: in_hands_def)

lemma held_wake: "map held (pcs (wake_sleepers b)) = map held (pcs b)"
  by (auto simp: wake_sleepers_def pcs_def split: bus_pc.splits prod.splits)

text \<open>What moving one worker does to the accounting; \<open>c\<close> is the state with its queue and records updated.\<close>

definition inbox_accounted :: "'x inbox \<Rightarrow> bool" where
  "inbox_accounted b \<longleftrightarrow> mset (ib_taken b) = mset (ib_run b) + in_hands b"

lemma accounted_move:
  assumes "inbox_accounted b" and "pc_is b i pc" and "ib_workers c = ib_workers b"
    and "mset (ib_taken c) + mset (ib_run b) + held pc = mset (ib_taken b) + mset (ib_run c) + held pc'"
  shows "inbox_accounted (set_pc i pc' c)"
proof -
  have "pcs c = pcs b" using assms(3) by (simp add: pcs_def)
  then have h: "in_hands (set_pc i pc' c) + held pc = in_hands b + held pc'" using hands_move [OF assms(2)] by (simp add: in_hands_def)
  have "mset (ib_taken c) + (mset (ib_run b) + held pc) = mset (ib_taken b) + mset (ib_run c) + held pc'" using assms(4) by (simp only: ac_simps)
  also have "\<dots> = mset (ib_run b) + mset (ib_run c) + (in_hands b + held pc')"
    using assms(1) unfolding inbox_accounted_def by (simp only: ac_simps)
  also have "\<dots> = (mset (ib_run c) + in_hands (set_pc i pc' c)) + (mset (ib_run b) + held pc)" unfolding h [symmetric] by (simp only: ac_simps)
  finally show ?thesis by (simp add: inbox_accounted_def)
qed

lemma inbox_step_accounted:
  assumes "inbox_step b ev b'" and "inbox_accounted b"
  shows "inbox_accounted b'"
  using assms
proof (induction rule: inbox_step.induct)
  case (wake_all b)
  then show ?case using held_wake [of b] by (simp add: inbox_accounted_def in_hands_def) (simp add: wake_sleepers_def)
next
  case (delete b i)
  then show ?case by (simp add: inbox_accounted_def in_hands_def)
qed (unfold take_task_def, ((rule accounted_move, assumption, assumption; simp) |
    simp add: inbox_accounted_def in_hands_def inbox_push_def inbox_close_def pcs_def)+)

lemma started_accounted: "inbox_accounted (started_inbox n)"
  by (induction n) (simp_all add: inbox_accounted_def started_inbox_def in_hands_def pcs_def)

lemma inbox_run_accounted:
  assumes "runs inbox_step (started_inbox n) evs b"
  shows "mset (ib_taken b) = mset (ib_run b) + in_hands b"
  using runs_invariant [where P = inbox_accounted, OF assms started_accounted inbox_step_accounted] by (simp add: inbox_accounted_def)

section \<open>No event is left behind\<close>

definition alert :: "'x bus_pc \<Rightarrow> bool" where
  "alert pc = (case pc of Looping \<Rightarrow> True | Trying \<Rightarrow> True | Entering \<Rightarrow> True | Holding _ \<Rightarrow> True | _ \<Rightarrow> False)"

text \<open>
  As for the thread pool: the mutex is held between test and sleep only while the queue is empty; workers leave only after a stop; and while
  there is work and no stop, a notification is under way or a worker is awake.
\<close>

definition inbox_ok :: "'x inbox \<Rightarrow> bool" where
  "inbox_ok b \<longleftrightarrow> pcs b \<noteq> [] \<and> (inbox_locked b \<longrightarrow> ib_queue b = []) \<and> (Gone \<in> set (pcs b) \<longrightarrow> ib_stop b) \<and>
     (ib_stop b \<or> ib_queue b = [] \<or> 0 < ib_notify b \<or> list_ex alert (pcs b)) \<and> (ib_notify_all b \<longrightarrow> ib_stop b) \<and>
     (\<forall>w\<in>set (ib_workers b). snd w \<longrightarrow> ib_stop b)"

lemma alert_update: "i < length ps \<Longrightarrow> alert pc \<Longrightarrow> list_ex alert (ps[i := pc])"
  unfolding list_ex_iff by (metis set_update_memI)

lemma tokens_set_pc:
  assumes "\<forall>w\<in>set (ib_workers b). snd w \<longrightarrow> P" and "i < length (ib_workers b)"
  shows "\<forall>w\<in>set (ib_workers (set_pc i pc b)). snd w \<longrightarrow> P"
proof
  fix w
  assume "w \<in> set (ib_workers (set_pc i pc b))"
  then have "w = (pc, snd (ib_workers b ! i)) \<or> w \<in> set (ib_workers b)"
    using set_update_subset_insert [of "ib_workers b" i "(pc, snd (ib_workers b ! i))"] by (auto simp: set_pc_def)
  then show "snd w \<longrightarrow> P" using assms nth_mem [OF assms(2)] by auto
qed

lemma someone_alert:
  assumes "inbox_ok b" and "\<not> ib_stop b" and "ib_queue b \<noteq> []" and "Sleeping \<notin> set (pcs b)"
  shows "list_ex alert (pcs b)"
proof -
  obtain pc where pc: "pc \<in> set (pcs b)" using assms(1) hd_in_set unfolding inbox_ok_def by blast
  then have "pc \<noteq> Undecided" "pc \<noteq> Gone" "pc \<noteq> Sleeping" using assms by (auto simp: inbox_ok_def inbox_locked_def)
  then have "alert pc" by (cases pc) (auto simp: alert_def)
  then show ?thesis using pc by (auto simp: list_ex_iff)
qed

text \<open>What moving one worker does to the invariant.\<close>

lemma inbox_ok_move:
  assumes "inbox_ok b" and "i < length (ib_workers b)" and "ib_workers c = ib_workers b" and "ib_stop c = ib_stop b"
    and "ib_notify_all c = ib_notify_all b" and "pc = Undecided \<or> ib_queue b = [] \<longrightarrow> ib_queue c = []"
    and "pc = Gone \<longrightarrow> ib_stop b" and "alert pc \<or> ib_queue c = [] \<or> ib_stop b"
  shows "inbox_ok (set_pc i pc c)"
proof -
  have p: "pcs c = pcs b" using assms(3) by (simp add: pcs_def)
  have i: "i < length (pcs b)" using assms(2) by (simp add: pcs_def)
  have "\<forall>w\<in>set (ib_workers (set_pc i pc c)). snd w \<longrightarrow> ib_stop c"
    using assms(1-4) by (intro tokens_set_pc) (simp_all add: inbox_ok_def)
  moreover have "inbox_locked (set_pc i pc c) \<longrightarrow> ib_queue c = []"
    using assms(1,6) by (auto simp: inbox_ok_def inbox_locked_def p dest: in_list_update)
  moreover have "Gone \<in> set ((pcs b)[i := pc]) \<longrightarrow> ib_stop b" using assms(1,7) by (auto simp: inbox_ok_def dest: in_list_update)
  ultimately show ?thesis using assms(1,4,5,8) i by (auto simp: inbox_ok_def p alert_update)
qed

lemma inbox_step_ok:
  assumes "inbox_step b ev b'" and "inbox_ok b"
  shows "inbox_ok b'"
  using assms(1)
proof cases
  case (publish x)
  then show ?thesis using assms(2) by (auto simp: inbox_ok_def inbox_push_def inbox_locked_def pcs_def)
next
  case wake_none
  then show ?thesis using assms(2) someone_alert [of b] by (auto simp: inbox_ok_def inbox_locked_def)
next
  case close
  then show ?thesis using assms(2) by (auto simp: inbox_ok_def inbox_close_def inbox_locked_def pcs_def)
next
  case wake_all
  then show ?thesis using assms(2) by (auto simp: inbox_ok_def wake_sleepers_def inbox_locked_def pcs_def split: bus_pc.splits)
next
  case (delete i)
  then show ?thesis using assms(2) by (simp add: inbox_ok_def inbox_locked_def)
next
  case (stopped i)
  then have "ib_stop b" using assms(2) by (auto simp: inbox_ok_def)
  then show ?thesis using stopped inbox_ok_move [OF assms(2), of i b Gone] by simp
next
  case (sleep i)
  then have "ib_queue b = []" using assms(2) pc_is_nth [of i b Undecided] by (auto simp: inbox_ok_def inbox_locked_def in_set_conv_nth)
  then show ?thesis using sleep inbox_ok_move [OF assms(2), of i b Sleeping] by simp
qed (use inbox_ok_move [OF assms(2)] in \<open>simp_all add: take_task_def alert_def\<close>)


lemma inbox_run_ok:
  assumes "runs inbox_step (started_inbox n) evs b" and "0 < n"
  shows "inbox_ok b"
proof -
  have "inbox_ok (started_inbox n)" using assms(2) by (simp add: inbox_ok_def started_inbox_def inbox_locked_def pcs_def)
  with assms(1) show ?thesis by (rule runs_invariant [where P = inbox_ok]) (rule inbox_step_ok)
qed

abbreviation inbox_rests :: "'x inbox \<Rightarrow> bool" where
  "inbox_rests \<equiv> at_rest inbox_step inbox_progress"

lemma rests_signals:
  assumes "inbox_rests b"
  shows "ib_notify b = 0 \<and> \<not> ib_notify_all b"
proof -
  have "\<exists>b'. inbox_step b Signal b'" if "0 < ib_notify b"
  proof (cases "Sleeping \<in> set (pcs b)")
    case True
    then obtain i where "i < length (ib_workers b)" "fst (ib_workers b ! i) = Sleeping" by (auto simp: pcs_def in_set_conv_nth)
    then show ?thesis using that by (blast intro: wake)
  qed (use that in \<open>blast intro: wake_none\<close>)
  then show ?thesis using assms by (auto simp: at_rest_def inbox_progress_def intro: wake_all)
qed

lemma alert_can_step:
  assumes "alert (fst (ib_workers b ! i))" and "i < length (ib_workers b)" and "\<not> inbox_locked b"
  shows "\<exists>b'. inbox_step b WorkerStep b'"
proof (cases "fst (ib_workers b ! i)")
  case Looping
  then show ?thesis using assms(2) by (cases "snd (ib_workers b ! i)") (blast intro: stopped look)+
next
  case Trying
  then show ?thesis using assms(2,3) by (cases "ib_queue b") (blast intro: try_pop try_none)+
next
  case Entering
  then show ?thesis using assms(2,3) by (cases "ib_queue b"; cases "ib_stop b") (blast intro: wait_pop wait_stop wait_none)+
next
  case (Holding x)
  then show ?thesis using assms(2) by (blast intro: run)
qed (use assms(1) in \<open>auto simp: alert_def\<close>)

lemma rests_pcs:
  assumes "inbox_rests b" and "pc \<in> set (pcs b)"
  shows "pc = Sleeping \<or> pc = Gone"
proof -
  obtain i where i: "i < length (ib_workers b)" "fst (ib_workers b ! i) = pc" using assms(2) by (auto simp: pcs_def in_set_conv_nth)
  have d: "\<not> inbox_locked b"
  proof
    assume "inbox_locked b"
    then obtain j where "j < length (ib_workers b)" "fst (ib_workers b ! j) = Undecided" by (auto simp: inbox_locked_def pcs_def in_set_conv_nth)
    then show False using assms(1) by (auto simp: at_rest_def inbox_progress_def intro: sleep)
  qed
  then have "\<not> alert pc" using alert_can_step [of b i] i assms(1) by (auto simp: at_rest_def inbox_progress_def)
  moreover have "pc \<noteq> Undecided" using d assms(2) by (auto simp: inbox_locked_def)
  ultimately show ?thesis by (cases pc) (auto simp: alert_def)
qed

lemma rests_hands:
  fixes b :: "'a inbox"
  assumes "inbox_rests b"
  shows "in_hands b = {#}"
proof -
  from assms have "\<forall>pc\<in>set (pcs b). held pc = {#}" using rests_pcs by fastforce
  moreover have "\<forall>pc\<in>set ps. held pc = {#} \<Longrightarrow> sum_list (map held ps) = {#}" for ps :: "'a bus_pc list" by (induction ps) auto
  ultimately show ?thesis by (simp add: in_hands_def)
qed

section \<open>Every run comes to rest\<close>

fun pc_rank :: "'x bus_pc \<times> bool \<Rightarrow> nat" where
  "pc_rank (pc, tok) = (if tok then 0 else 1) +
     (case pc of Looping \<Rightarrow> 4 | Trying \<Rightarrow> 3 | Entering \<Rightarrow> 2 | Undecided \<Rightarrow> 1 | Sleeping \<Rightarrow> 0 | Holding _ \<Rightarrow> 5 | Gone \<Rightarrow> 0)"

definition inbox_weight :: "'x inbox \<Rightarrow> nat" where
  "inbox_weight b = 4 * length (ib_queue b) + 3 * ib_notify b + (if ib_notify_all b then 2 * length (ib_workers b) + 1 else 0) +
     sum_list (map pc_rank (ib_workers b))"

lemma weight_wake: "sum_list (map pc_rank (map (\<lambda>(pc, tok). (case pc of Sleeping \<Rightarrow> Entering | _ \<Rightarrow> pc, tok)) ws)) \<le>
  sum_list (map pc_rank ws) + 2 * length ws"
  by (induction ws) (auto split: bus_pc.splits)

lemma weight_less:
  assumes "i < length (ib_workers c)"
    and "inbox_weight c + pc_rank (pc, snd (ib_workers c ! i)) < inbox_weight b + pc_rank (fst (ib_workers c ! i), snd (ib_workers c ! i))"
  shows "inbox_weight (set_pc i pc c) < inbox_weight b"
proof -
  have "inbox_weight (set_pc i pc c) + pc_rank (fst (ib_workers c ! i), snd (ib_workers c ! i)) = inbox_weight c + pc_rank (pc, snd (ib_workers c ! i))"
    using assms(1) sum_list_replace [of i "ib_workers c" "ib_workers c ! i" pc_rank "(pc, snd (ib_workers c ! i))"]
    by (simp add: inbox_weight_def set_pc_def)
  then show ?thesis using assms(2) by linarith
qed

lemma inbox_progress_lowers:
  assumes "inbox_step b ev b'" and "inbox_progress ev"
  shows "inbox_weight b' < inbox_weight b"
  using assms
proof (induction rule: inbox_step.induct)
  case (wake_all b)
  then show ?case using weight_wake [of "ib_workers b"] by (simp add: inbox_weight_def wake_sleepers_def)
next
  case (delete b i)
  obtain pc where w: "ib_workers b ! i = (pc, False)" using delete by (cases "ib_workers b ! i") auto
  then show ?case using delete sum_list_replace [of i "ib_workers b" "(pc, False)" pc_rank "(pc, True)"]
    by (simp add: inbox_weight_def set_token_def)
qed (unfold take_task_def, ((rule weight_less; simp add: inbox_weight_def) | simp add: inbox_weight_def inbox_progress_def)+)

interpretation inbox_steps: measured_system inbox_step inbox_progress inbox_weight
  by unfold_locales (rule inbox_progress_lowers)


lemma progress_step_keeps_stop: "inbox_step b ev b' \<Longrightarrow> inbox_progress ev \<Longrightarrow> ib_stop b' = ib_stop b"
  by (cases rule: inbox_step.cases) (auto simp: inbox_defs inbox_progress_def)

lemma progress_run_keeps_stop:
  "runs inbox_step b evs b' \<Longrightarrow> list_all inbox_progress evs \<Longrightarrow> ib_stop b' = ib_stop b"
  by (erule runs_invariant_kind [where kind = inbox_progress and P = "\<lambda>c. ib_stop c = ib_stop b"]) (auto dest: progress_step_keeps_stop)

lemma progress_publishes_nothing: "list_all inbox_progress evs \<Longrightarrow> published evs = []"
  by (induction evs rule: published.induct) (auto simp: inbox_progress_def)

lemma rests_queue_empty:
  assumes "inbox_ok b" and "\<not> ib_stop b" and "inbox_rests b"
  shows "ib_queue b = []"
proof -
  have "\<not> list_ex alert (pcs b)" using rests_pcs [OF assms(3)] by (fastforce simp: list_ex_iff alert_def)
  then show ?thesis using assms(1,2) rests_signals [OF assms(3)] by (auto simp: inbox_ok_def)
qed

text \<open>
  C18. Every published event is handled. From any reachable state of a bus with at least one worker that is not being stopped, whatever the
  scheduling of its threads, the threads come to rest after a bounded number of steps, and then the events have been taken out in the
  order of publication and each of them has been handled exactly once.
\<close>

theorem events_all_handled:
  assumes "runs inbox_step (started_inbox n) evs b" and "0 < n" and "\<not> ib_stop b"
  shows "(\<exists>evs' b'. runs inbox_step b evs' b' \<and> list_all inbox_progress evs' \<and> inbox_rests b') \<and>
    (\<forall>evs' b'. runs inbox_step b evs' b' \<and> list_all inbox_progress evs' \<longrightarrow>
       length evs' \<le> inbox_weight b \<and> (inbox_rests b' \<longrightarrow> ib_taken b' = published evs \<and> mset (ib_run b') = mset (published evs)))"
proof (intro conjI allI impI inbox_steps.comes_to_rest)
  fix evs' b'
  assume r: "runs inbox_step b evs' b' \<and> list_all inbox_progress evs'"
  then show "length evs' \<le> inbox_weight b" using inbox_steps.run_bounded by fastforce
  assume rest: "inbox_rests b'"
  have all: "runs inbox_step (started_inbox n) (evs @ evs') b'" using r by (intro runs_append [OF assms(1)]) simp
  have "ib_queue b' = []"
    using rests_queue_empty [OF inbox_run_ok [OF all assms(2)] _ rest] progress_run_keeps_stop r assms(3) by blast
  then show t: "ib_taken b' = published evs"
    using inbox_run_fifo [OF assms(1)] inbox_run_fifo [of b evs' b'] r progress_publishes_nothing [of evs'] by (simp add: started_inbox_def)
  show "mset (ib_run b') = mset (published evs)" using inbox_run_accounted [OF all] rests_hands [OF rest] t by simp
qed

theorem events_all_handled_witness:
  "\<exists>b evs b'. runs inbox_step (started_inbox 2) [Publish ''a'', Publish ''b''] b \<and> runs inbox_step b evs b' \<and> inbox_rests b' \<and>
     mset (ib_run b') = {#''a'', ''b''#}"
proof -
  have "runs inbox_step (started_inbox 2) [Publish ''a'', Publish ''b''] (inbox_push ''b'' (inbox_push ''a'' (started_inbox 2)))"
    by (auto intro!: runs.intros publish simp: inbox_locked_def started_inbox_def inbox_push_def pcs_def)
  from this events_all_handled [OF this] show ?thesis by (simp add: inbox_push_def started_inbox_def) blast
qed

section \<open>Stopping\<close>

definition closing :: "'x inbox \<Rightarrow> bool" where
  "closing b \<longleftrightarrow> ib_stop b \<and> \<not> inbox_locked b \<and> (Sleeping \<in> set (pcs b) \<longrightarrow> ib_notify_all b)"

lemma closing_step:
  assumes "inbox_step b ev b'" and "closing b"
  shows "closing b'"
  using assms(1)
proof cases
  case (sleep i)
  then show ?thesis using assms(2) pc_is_nth [of i b Undecided] by (auto simp: closing_def inbox_locked_def in_set_conv_nth)
next
  case wake_all
  then show ?thesis using assms(2) by (auto simp: closing_def inbox_locked_def wake_sleepers_def pcs_def split: bus_pc.splits)
qed (use assms(2) in \<open>auto simp: closing_def inbox_locked_def inbox_defs pcs_def dest: in_list_update simp flip: pcs_def\<close>)

lemma closing_close: "\<not> inbox_locked b \<Longrightarrow> closing (inbox_close b)"
  by (simp add: closing_def inbox_close_def inbox_locked_def pcs_def)

lemma rests_tokens:
  assumes "inbox_rests b" and "ib_stop b" and "list_all (\<lambda>pc. pc = Gone) (pcs b)"
  shows "list_all snd (ib_workers b)"
proof (rule ccontr)
  assume "\<not> list_all snd (ib_workers b)"
  then obtain i where i: "i < length (ib_workers b)" "\<not> snd (ib_workers b ! i)" by (auto simp: list_all_length)
  have "list_all (\<lambda>pc. pc = Gone) (take i (pcs b))" using assms(3) by (auto simp: list_all_iff dest: in_set_takeD)
  then have "inbox_step b Deletion (set_token i b)" using i assms(2) rests_signals [OF assms(1)] by (blast intro: delete)
  then show False using assms(1) by (auto simp: at_rest_def inbox_progress_def)
qed

text \<open>\<^verbatim>\<open>stop_workers\<close> returns when every worker has been told to stop and has left.\<close>

definition workers_deleted :: "'x inbox \<Rightarrow> bool" where
  "workers_deleted b \<longleftrightarrow> list_all (\<lambda>w. w = (Gone, True)) (ib_workers b)"

lemma closing_rests:
  assumes "closing b" and "inbox_rests b"
  shows "workers_deleted b"
proof -
  have gone: "list_all (\<lambda>pc. pc = Gone) (pcs b)"
    using assms rests_pcs [OF assms(2)] rests_signals [OF assms(2)] by (auto simp: closing_def list_all_iff)
  then show ?thesis
    using rests_tokens [OF assms(2) _ gone] assms(1) by (auto simp: closing_def workers_deleted_def list_all_iff pcs_def prod_eq_iff)
qed

text \<open>
  Stopping the bus ends when no worker is between its test and its sleep as the inbox is closed: then, after a bounded number of steps, every
  worker is gone and deleted, and every event that a worker has taken has been handled.
\<close>

theorem bus_stop_terminates:
  assumes "runs inbox_step (started_inbox n) evs b" and "\<not> ib_stop b" and "\<not> inbox_locked b"
    and "runs inbox_step (inbox_close b) evs' b'" and "list_all inbox_progress evs'"
  shows "length evs' \<le> inbox_weight (inbox_close b) \<and>
    (inbox_rests b' \<longrightarrow> workers_deleted b' \<and> mset (ib_run b') = mset (ib_taken b'))"
proof (intro conjI impI)
  show "length evs' \<le> inbox_weight (inbox_close b)" using inbox_steps.run_bounded [OF assms(4,5)] by simp
  assume rest: "inbox_rests b'"
  from assms(4) have "closing b'" by (rule runs_invariant [where P = closing]) (use closing_close [OF assms(3)] closing_step in blast)+
  then show "workers_deleted b'" using closing_rests rest by blast
  have "runs inbox_step (started_inbox n) (evs @ CloseInbox # evs') b'"
    using assms(1,4) close [OF assms(2)] by (blast intro: runs_append runs.Cons)
  then show "mset (ib_run b') = mset (ib_taken b')" using inbox_run_accounted rests_hands [OF rest] by fastforce
qed

lemma inbox_restsI:
  assumes "ib_notify b = 0" and "\<not> ib_notify_all b" and "ib_workers b = [(Sleeping, True)]"
  shows "inbox_rests b"
proof -
  have "\<not> inbox_step b ev b'" if "inbox_progress ev" for ev b'
    using assms that by (auto elim!: inbox_step_cases simp: inbox_progress_def)
  then show ?thesis by (simp add: at_rest_def)
qed

text \<open>As in the thread pool, the close is signalled without the mutex, so a worker can sleep through it and the deletion waits for it.\<close>

theorem bus_stop_can_hang:
  "\<exists>evs b. runs inbox_step (started_inbox 1 :: string inbox) evs b \<and> ib_stop b \<and> inbox_rests b \<and> ib_workers b = [(Sleeping, True)]"
proof -
  let ?b0 = "started_inbox 1 :: string inbox"
  let ?b1 = "set_pc 0 Trying ?b0" let ?b2 = "set_pc 0 Entering ?b1" let ?b3 = "set_pc 0 Undecided ?b2"
  let ?b4 = "inbox_close ?b3" let ?b5 = "wake_sleepers ?b4" let ?b6 = "set_token 0 ?b5" let ?b7 = "set_pc 0 Sleeping ?b6"
  note defs = started_inbox_def set_pc_def inbox_close_def wake_sleepers_def set_token_def inbox_locked_def pcs_def
  have "inbox_step ?b0 WorkerStep ?b1" by (rule look) (simp_all add: defs)
  moreover have "inbox_step ?b1 WorkerStep ?b2" by (rule try_none) (simp_all add: defs)
  moreover have "inbox_step ?b2 WorkerStep ?b3" by (rule wait_none) (simp_all add: defs)
  moreover have "inbox_step ?b3 CloseInbox ?b4" by (rule close) (simp add: defs)
  moreover have "inbox_step ?b4 Signal ?b5" by (rule wake_all) (simp add: defs)
  moreover have "inbox_step ?b5 Deletion ?b6" by (rule delete) (simp_all add: defs)
  moreover have "inbox_step ?b6 WorkerStep ?b7" by (rule sleep) (simp add: defs)
  ultimately have "runs inbox_step ?b0 [WorkerStep, WorkerStep, WorkerStep, CloseInbox, Signal, Deletion, WorkerStep] ?b7"
    by (blast intro: runs.intros)
  moreover have "inbox_rests ?b7" by (rule inbox_restsI) (simp_all add: defs)
  moreover have "ib_stop ?b7" "ib_workers ?b7 = [(Sleeping, True)]" by (simp_all add: defs)
  ultimately show ?thesis by blast
qed

section \<open>Starting and stopping the bus\<close>

text \<open>
  The bus's \<^verbatim>\<open>running_\<close> flag with its inbox: \<^verbatim>\<open>start_workers\<close>, the part of \<^verbatim>\<open>stop_workers\<close> before the deletions, and \<^verbatim>\<open>workers_.clear()\<close> after them.
\<close>

record 'x bus_threads =
  bt_running :: bool
  bt_inbox :: "'x inbox"

definition start_threads :: "nat \<Rightarrow> 'x bus_threads \<Rightarrow> 'x bus_threads" where
  "start_threads n bt =
     (if bt_running bt then bt
      else bt\<lparr>bt_running := True,
              bt_inbox := (bt_inbox bt)\<lparr>ib_workers := ib_workers (bt_inbox bt) @ replicate n (Looping, False)\<rparr>\<rparr>)"

definition stop_threads :: "'x bus_threads \<Rightarrow> 'x bus_threads" where
  "stop_threads bt =
     (if bt_running bt then bt\<lparr>bt_running := False, bt_inbox := inbox_close (bt_inbox bt)\<rparr> else bt)"

definition clear_threads :: "'x bus_threads \<Rightarrow> 'x bus_threads" where
  "clear_threads bt =
     (if workers_deleted (bt_inbox bt) then bt\<lparr>bt_inbox := (bt_inbox bt)\<lparr>ib_workers := []\<rparr>\<rparr> else bt)"

definition bus_is_running :: "'x bus_threads \<Rightarrow> bool" where
  "bus_is_running bt = bt_running bt"

text \<open>The destructor of the bus, up to the wait for its workers.\<close>

definition destroy_bus :: "'x bus_threads \<Rightarrow> 'x bus_threads" where
  "destroy_bus bt = stop_threads bt"

definition new_threads :: "'x bus_threads" where
  "new_threads = \<lparr>bt_running = False, bt_inbox = started_inbox 0\<rparr>"

lemma start_new_threads: "bt_inbox (start_threads n new_threads) = started_inbox n"
  by (simp add: start_threads_def new_threads_def started_inbox_def)

lemma start_stop_idempotent: "start_threads m (start_threads n bt) = start_threads n bt" "stop_threads (stop_threads bt) = stop_threads bt"
  by (simp_all add: start_threads_def stop_threads_def)

text \<open>
  A bus with no workers, which \<^verbatim>\<open>TTS_BUS_WORKERS=0\<close> configures, handles nothing: every asynchronous event stays queued.
\<close>

lemma no_workers_step:
  assumes "inbox_step b ev b'" and "ib_workers b = []"
  shows "ib_workers b' = [] \<and> ib_run b' = ib_run b \<and> ib_taken b' = ib_taken b"
  using assms by (cases rule: inbox_step.cases) (simp_all add: inbox_push_def inbox_close_def wake_sleepers_def)

theorem no_workers_no_events:
  assumes "runs inbox_step (bt_inbox (start_threads 0 new_threads)) evs b"
  shows "ib_run b = [] \<and> ib_queue b = published evs"
proof -
  have r: "runs inbox_step (started_inbox 0) evs b" using assms by (simp only: start_new_threads)
  have "ib_workers b = [] \<and> ib_run b = [] \<and> ib_taken b = []"
    by (rule runs_invariant [where P = "\<lambda>b. ib_workers b = [] \<and> ib_run b = [] \<and> ib_taken b = []", OF r])
      (use no_workers_step in \<open>auto simp: started_inbox_def\<close>)
  then show ?thesis using inbox_run_fifo [OF r] by (simp add: started_inbox_def)
qed

text \<open>
  The stop of a bus outlives it: \<^verbatim>\<open>start_workers\<close> after \<^verbatim>\<open>stop_workers\<close> starts threads on an inbox that is still closed, and a thread leaves as
  soon as it finds the queue empty, although the bus says that it is running.
\<close>

theorem restarted_workers_leave:
  assumes "runs inbox_step (bt_inbox (start_threads 1 (clear_threads (stop_threads (start_threads 0 new_threads))))) [WorkerStep, WorkerStep, WorkerStep] b"
  shows "bus_is_running (start_threads 1 (clear_threads (stop_threads (start_threads 0 new_threads)))) \<and> ib_workers b = [(Gone, False)]"
proof -
  let ?b = "(started_inbox 1)\<lparr>ib_stop := True, ib_notify_all := True\<rparr>"
  have b0: "bt_inbox (start_threads 1 (clear_threads (stop_threads (start_threads 0 new_threads)))) = ?b"
    by (simp add: start_threads_def clear_threads_def stop_threads_def new_threads_def inbox_close_def started_inbox_def)
  have one: "b' = set_pc 0 (case fst (hd (ib_workers b)) of Looping \<Rightarrow> Trying | Trying \<Rightarrow> Entering | _ \<Rightarrow> Gone) b"
    if "inbox_step b WorkerStep b'" and "ib_workers b = [(pc, False)]" and "pc \<in> {Looping, Trying, Entering}" and "ib_queue b = []" and "ib_stop b"
    for b b' :: "'a inbox" and pc
    using that by (cases rule: inbox_step.cases) auto
  from assms [unfolded b0] obtain b1 b2 where s: "inbox_step ?b WorkerStep b1" "inbox_step b1 WorkerStep b2" "inbox_step b2 WorkerStep b"
    by (auto elim!: runs.cases)
  have b1: "b1 = set_pc 0 Trying ?b" using one [OF s(1)] by (simp add: started_inbox_def)
  have b2: "b2 = set_pc 0 Entering b1" using one [OF s(2), of Trying] by (simp add: b1 started_inbox_def set_pc_def)
  have "ib_workers b = [(Gone, False)]" using one [OF s(3), of Entering] by (simp add: b2 b1 started_inbox_def set_pc_def)
  then show ?thesis by (simp add: bus_is_running_def start_threads_def clear_threads_def stop_threads_def new_threads_def)
qed

section \<open>The threads implement the bus\<close>

text \<open>
  The abstract bus of \<open>Event_Bus\<close> that a state of the threads stands for: the queue, what each worker holds, and the listeners' state after the tasks
  run so far. The registry does not change while the bus runs.
\<close>

definition hand :: "'x bus_pc \<Rightarrow> 'x option" where
  "hand pc = (case pc of Holding x \<Rightarrow> Some x | _ \<Rightarrow> None)"

definition abs_world :: "('t, 'e, 's) event_bus \<Rightarrow> 's \<Rightarrow> ('t \<times> 'e) inbox \<Rightarrow> ('t, 'e, 's) bus_world" where
  "abs_world bus s b = \<lparr>wd_bus = bus\<lparr>inbox := ib_queue b\<rparr>, wd_hands = map hand (pcs b),
     wd_state = fold (\<lambda>(t, ev). dispatch_sync bus t ev) (ib_run b) s, wd_published = ib_taken b @ ib_queue b, wd_run = ib_run b\<rparr>"

lemma dispatch_inbox [simp]: "dispatch_sync (bus\<lparr>inbox := q\<rparr>) = dispatch_sync bus"
  by (intro ext) (simp add: dispatch_sync_def)

lemma abs_world_same:
  assumes "ib_queue c = ib_queue b" and "ib_taken c = ib_taken b" and "ib_run c = ib_run b" and "map hand (pcs c) = map hand (pcs b)"
  shows "abs_world bus s c = abs_world bus s b"
  using assms by (simp add: abs_world_def)

lemma hands_same:
  assumes "pc_is b i pc" and "hand pc' = hand pc"
  shows "map hand ((pcs b)[i := pc']) = map hand (pcs b)"
  using assms pc_is_nth [OF assms(1)] by (simp add: map_update list_update_same_conv)

lemma abs_world_take:
  assumes "pc_is b i pc" and "hand pc = None" and "ib_queue b = x # xs"
  shows "bus_step (abs_world bus s b) (abs_world bus s (take_task i x xs b))"
proof -
  have i: "i < length (wd_hands (abs_world bus s b))" "wd_hands (abs_world bus s b) ! i = None"
    using pc_is_nth [OF assms(1)] assms(2) by (simp_all add: abs_world_def)
  have "try_pop (wd_bus (abs_world bus s b)) = (Some x, bus\<lparr>inbox := xs\<rparr>)" using assms(3) by (simp add: abs_world_def try_pop_def)
  from bus_step.pop [OF i this] show ?thesis using assms(3)
    by (simp add: abs_world_def take_task_def map_update hand_def)
qed

lemma abs_world_run:
  assumes "pc_is b i (Holding (t, ev))"
  shows "bus_step (abs_world bus s b) (abs_world bus s (set_pc i Looping (b\<lparr>ib_run := ib_run b @ [(t, ev)]\<rparr>)))"
proof -
  have i: "i < length (wd_hands (abs_world bus s b))" "wd_hands (abs_world bus s b) ! i = Some (t, ev)"
    using pc_is_nth [OF assms] by (simp_all add: abs_world_def hand_def)
  from bus_step.run [OF i] show ?thesis by (simp add: abs_world_def map_update hand_def)
qed

lemma hands_wake: "map hand (pcs (wake_sleepers b)) = map hand (pcs b)"
  by (auto simp: wake_sleepers_def pcs_def hand_def split: bus_pc.splits prod.splits)

lemma inbox_step_refines:
  assumes "inbox_step b ev b'"
  shows "abs_world bus s b' = abs_world bus s b \<or> bus_step (abs_world bus s b) (abs_world bus s b')"
  using assms
proof cases
  case (publish x)
  obtain t e where "x = (t, e)" by (cases x)
  then show ?thesis using publish bus_step.publish [of "abs_world bus s b" t e]
    by (simp add: abs_world_def inbox_push_def enqueue_async_def pcs_def)
next
  case wake_all
  have "abs_world bus s (wake_sleepers b) = abs_world bus s b" by (rule abs_world_same) (simp_all add: hands_wake, simp_all add: wake_sleepers_def)
  then show ?thesis using wake_all by simp
next
  case (try_pop i x xs)
  then show ?thesis using abs_world_take [of i b Trying x xs bus s] by (simp add: hand_def)
next
  case (wait_pop i x xs)
  then show ?thesis using abs_world_take [of i b Entering x xs bus s] by (simp add: hand_def)
next
  case (run i x)
  then show ?thesis using abs_world_run [of i b "fst x" "snd x" bus s] by simp
next
  case close
  then show ?thesis by (simp add: abs_world_def inbox_close_def pcs_def)
qed (simp_all add: abs_world_def hands_same hand_def)

text \<open>
  C25. The bus's threads implement the bus. Whatever the threads with their mutex, condition variable and stop tokens do, the abstract
  bus, in which events are queued, taken in order and handled, makes the same run: each step of a thread is one step of the abstract
  bus or none, so what holds of all runs of the abstract bus holds of the threads.
\<close>

theorem inbox_refines_bus:
  assumes "runs inbox_step b evs b'"
  shows "bus_step\<^sup>*\<^sup>* (abs_world bus s b) (abs_world bus s b')"
  using assms
proof (induction rule: runs.induct)
  case (Cons b ev b' evs b'')
  then show ?case using inbox_step_refines [OF Cons.hyps(1), of bus s] by (auto intro: converse_rtranclp_into_rtranclp)
qed simp

theorem inbox_refines_bus_witness:
  "bus_step\<^sup>*\<^sup>* (abs_world new_bus (0 :: nat) (started_inbox 1)) (abs_world new_bus 0 (inbox_push (True, ''e'') (started_inbox 1)))"
  by (rule inbox_refines_bus [of _ "[Publish (True, ''e'')]"])
    (auto intro!: runs.intros publish simp: inbox_locked_def started_inbox_def pcs_def)

end
