(* ===== verification/Lifecycle.thy ===== *)
theory Lifecycle
  imports Tts_System Stream_Call Reactor_Threads Bus_Inbox
begin

text \<open>
  The life of the process, the last part of \<^verbatim>\<open>src/main.cpp\<close>: the flag a signal sets, the heartbeat thread's loop around the steps of
  \<open>Tts_System\<close>, the threads of the reactor (\<open>Reactor_Threads\<close>) and of the bus (\<open>Bus_Inbox\<close>), the main thread's wait and its shutdown sequence. The main
  thread asks the gRPC server to shut down, which refuses new calls and returns when the running ones have returned; then it stops the
  reactor, joins the thread that waits for the server and the heartbeat thread, and stops the bus. \<open>ps_calls\<close> holds the ids of the running calls.

  The inbox of the bus is \<open>ps_bus\<close>: what a tick publishes is pushed there, so the queue in the server's own bus, which the tick appends to, is empty
  between the steps. A tick and its pushes are one step. \<open>ps_published\<close> records, for the properties, what ticks have published.
\<close>

section \<open>States and steps\<close>

datatype hb_loop = LoopHead | InBody | LeftLoop

datatype main_pc =
  Waiting | InShutdown | StoppingReactor | JoiningServer | JoiningHeartbeat | StoppingBus | DeletingWorkers | Returned int

record process =
  ps_system :: system
  ps_stop :: bool
  ps_heartbeat :: hb_loop
  ps_main :: main_pc
  ps_calls :: "string list"
  ps_reactor :: "unit reactor_threads"
  ps_bus :: "(event_type \<times> bus_event) bus_threads"
  ps_published :: "(event_type \<times> bus_event) list"

text \<open>The process when everything is up, with the numbers of workers from the configuration.\<close>

definition new_process :: "nat \<Rightarrow> nat \<Rightarrow> nat \<Rightarrow> process" where
  "new_process bus_workers cpu_workers io_workers =
     \<lparr>ps_system = new_system, ps_stop = False, ps_heartbeat = LoopHead, ps_main = Waiting, ps_calls = [],
      ps_reactor = running_threads cpu_workers io_workers, ps_bus = start_threads bus_workers new_threads,
      ps_published = []\<rparr>"

abbreviation server_of :: "process \<Rightarrow> server" where
  "server_of p \<equiv> sy_server (ps_system p)"

abbreviation inbox_of :: "process \<Rightarrow> (event_type \<times> bus_event) inbox" where
  "inbox_of p \<equiv> bt_inbox (ps_bus p)"

definition on_signal :: "process \<Rightarrow> process" where
  "on_signal p = p\<lparr>ps_stop := True\<rparr>"

definition heartbeat_loop :: "environment \<Rightarrow> local_engine \<Rightarrow> process \<Rightarrow> channel_error + process" where
  "heartbeat_loop env engine p =
     (case ps_heartbeat p of
        LoopHead \<Rightarrow> Inr (p\<lparr>ps_heartbeat := if ps_stop p then LeftLoop else InBody\<rparr>)
      | InBody \<Rightarrow>
          (case heartbeat_step env engine (ps_system p) of
             Inl e \<Rightarrow> Inl e
           | Inr s \<Rightarrow> Inr (p\<lparr>ps_system := s, ps_heartbeat := if sy_pc s = AtTick then LoopHead else InBody\<rparr>))
      | LeftLoop \<Rightarrow> Inr p)"

text \<open>The next step of the main thread, none while it has to wait.\<close>

definition main_thread :: "process \<Rightarrow> process option" where
  "main_thread p =
     (case ps_main p of
        Waiting \<Rightarrow> if ps_stop p then Some (p\<lparr>ps_main := InShutdown\<rparr>) else None
      | InShutdown \<Rightarrow> if ps_calls p = [] then Some (p\<lparr>ps_main := StoppingReactor\<rparr>) else None
      | StoppingReactor \<Rightarrow>
          (case stop_step (ps_reactor p) of
             Some rt \<Rightarrow> Some (p\<lparr>ps_reactor := rt\<rparr>)
           | None \<Rightarrow> if rt_stop (ps_reactor p) = StopDone then Some (p\<lparr>ps_main := JoiningServer\<rparr>) else None)
      | JoiningServer \<Rightarrow> Some (p\<lparr>ps_main := JoiningHeartbeat\<rparr>)
      | JoiningHeartbeat \<Rightarrow> if ps_heartbeat p = LeftLoop then Some (p\<lparr>ps_main := StoppingBus\<rparr>) else None
      | StoppingBus \<Rightarrow> Some (p\<lparr>ps_bus := stop_threads (ps_bus p), ps_main := DeletingWorkers\<rparr>)
      | DeletingWorkers \<Rightarrow>
          if workers_deleted (inbox_of p) then Some (p\<lparr>ps_bus := clear_threads (ps_bus p), ps_main := Returned 0\<rparr>) else None
      | Returned _ \<Rightarrow> None)"

text \<open>Which calls an operation of the service begins and ends, and which running call it belongs to.\<close>

fun call_begins :: "jwt_verifier option \<Rightarrow> service_op \<Rightarrow> system \<Rightarrow> string list" where
  "call_begins jwt (Submit md proto) s =
     (case fst (stream_submit jwt md proto (sy_service s, hb_request_channel (sy_server s))) of Inl _ \<Rightarrow> [] | Inr rid \<Rightarrow> [rid])"
| "call_begins jwt (ClientOpen md) s = (case fst (client_open jwt md (sy_service s)) of Inl _ \<Rightarrow> [] | Inr rid \<Rightarrow> [rid])"
| "call_begins jwt _ s = []"

fun call_ends :: "service_op \<Rightarrow> system \<Rightarrow> string list" where
  "call_ends (Poll rid ok late) s = (case fst (stream_poll rid ok late (sy_service s)) of None \<Rightarrow> [] | Some _ \<Rightarrow> [rid])"
| "call_ends (CallCancelled rid) s = [rid]"
| "call_ends (ClientChunk rid first c) s =
     (case fst (client_chunk rid first c (hb_request_channel (sy_server s))) of None \<Rightarrow> [] | Some _ \<Rightarrow> [rid])"
| "call_ends _ s = []"

text \<open>
  Which operations the calls can make: new calls are accepted until the shutdown begins, a stream call registers once and polls while it has
  its queue, a client call reads chunks.
\<close>

fun may_run :: "service_op \<Rightarrow> process \<Rightarrow> bool" where
  "may_run (Submit _ _) p = (ps_main p = Waiting)"
| "may_run (ClientOpen _) p = (ps_main p = Waiting)"
| "may_run (Register rid) p = (rid \<in> set (ps_calls p) \<and> stream_id rid \<and> \<not> has_queue rid (sy_service (ps_system p)))"
| "may_run (Poll rid _ _) p = (rid \<in> set (ps_calls p) \<and> has_queue rid (sy_service (ps_system p)))"
| "may_run (CallCancelled rid) p = (rid \<in> set (ps_calls p) \<and> has_queue rid (sy_service (ps_system p)))"
| "may_run (ClientChunk rid _ _) p = (rid \<in> set (ps_calls p) \<and> \<not> stream_id rid)"
| "may_run (Dispatch _) p = False"

definition service_call :: "jwt_verifier option \<Rightarrow> service_op \<Rightarrow> process \<Rightarrow> process" where
  "service_call jwt op p =
     p\<lparr>ps_system := call_step jwt op (ps_system p),
       ps_calls := call_begins jwt op (ps_system p) @ filter (\<lambda>rid. rid \<notin> set (call_ends op (ps_system p))) (ps_calls p)\<rparr>"

text \<open>A tick's events go into the inbox of the bus; a worker of the bus handles one by calling the listeners of its type.\<close>

definition publish_events :: "process \<Rightarrow> process" where
  "publish_events p =
     p\<lparr>ps_system := (ps_system p)\<lparr>sy_server := (server_of p)\<lparr>hb_bus := (hb_bus (server_of p))\<lparr>inbox := []\<rparr>\<rparr>\<rparr>,
       ps_bus := (ps_bus p)\<lparr>bt_inbox := fold inbox_push (inbox (hb_bus (server_of p))) (inbox_of p)\<rparr>,
       ps_published := ps_published p @ inbox (hb_bus (server_of p))\<rparr>"

definition handle_event :: "event_type \<times> bus_event \<Rightarrow> server \<Rightarrow> server" where
  "handle_event x st =
     (let ob = dispatch_sync (hb_bus st) (fst x) (snd x) \<lparr>ob_metrics = metrics_of st, ob_open = hb_gate_open st, ob_log = hb_log st\<rparr>
      in upd_metrics (\<lambda>_. ob_metrics ob) (st\<lparr>hb_gate_open := ob_open ob, hb_log := ob_log ob\<rparr>))"

text \<open>The bus goes from its inbox to \<open>b\<close>, and the events that were run on the way take their effect.\<close>

definition bus_moves :: "(event_type \<times> bus_event) inbox \<Rightarrow> process \<Rightarrow> process" where
  "bus_moves b p =
     p\<lparr>ps_system := (ps_system p)\<lparr>sy_server := fold handle_event (drop (length (ib_run (inbox_of p))) (ib_run b)) (server_of p)\<rparr>,
       ps_bus := (ps_bus p)\<lparr>bt_inbox := b\<rparr>\<rparr>"

text \<open>The steps of the bus that are not the heartbeat thread's pushes and not the main thread's closing of the inbox.\<close>

fun own_bus_event :: "'x inbox_event \<Rightarrow> bool" where
  "own_bus_event (Publish _) = False"
| "own_bus_event CloseInbox = False"
| "own_bus_event _ = True"

datatype process_event =
  SignalArrives | HeartbeatThread | MainThread | ServiceCall service_op | ClientDone string
| BusThread "(event_type \<times> bus_event) inbox_event" | ReactorThread "unit reactor_event"

inductive process_step :: "environment \<Rightarrow> local_engine \<Rightarrow> jwt_verifier option \<Rightarrow> process \<Rightarrow> process_event \<Rightarrow> process \<Rightarrow> bool"
  for env engine jwt where
  signal: "process_step env engine jwt p SignalArrives (on_signal p)"
| heartbeat: "ps_heartbeat p \<noteq> LeftLoop \<Longrightarrow> heartbeat_loop env engine p = Inr p' \<Longrightarrow>
    inbox (hb_bus (server_of p')) = [] \<or> \<not> inbox_locked (inbox_of p) \<Longrightarrow> process_step env engine jwt p HeartbeatThread (publish_events p')"
| main: "main_thread p = Some p' \<Longrightarrow> process_step env engine jwt p MainThread p'"
| call: "may_run op p \<Longrightarrow> process_step env engine jwt p (ServiceCall op) (service_call jwt op p)"
| client_done: "rid \<in> set (ps_calls p) \<Longrightarrow> \<not> stream_id rid \<Longrightarrow>
    process_step env engine jwt p (ClientDone rid) (p\<lparr>ps_calls := filter (\<lambda>r. r \<noteq> rid) (ps_calls p)\<rparr>)"
| bus: "inbox_step (inbox_of p) ev b \<Longrightarrow> own_bus_event ev \<Longrightarrow> process_step env engine jwt p (BusThread ev) (bus_moves b p)"
| reactor: "reactor_step (ps_reactor p) ev rt \<Longrightarrow> ev \<noteq> StopThread \<Longrightarrow>
    process_step env engine jwt p (ReactorThread ev) (p\<lparr>ps_reactor := rt\<rparr>)"

inductive_cases process_step_cases: "process_step env engine jwt p ev p'"

section \<open>What the process keeps\<close>

definition process_ok :: "local_engine \<Rightarrow> process \<Rightarrow> bool" where
  "process_ok engine p \<longleftrightarrow> system_ok engine (ps_system p) \<and> inbox (hb_bus (server_of p)) = [] \<and>
     (ps_heartbeat p \<noteq> InBody \<longrightarrow> sy_pc (ps_system p) = AtTick) \<and> (\<forall>c. ps_main p = Returned c \<longrightarrow> c = 0)"

lemma process_ok_new: "process_ok engine (new_process bus_workers cpu_workers io_workers)"
  using system_ok_new
  by (simp add: process_ok_def new_process_def)
    (simp add: new_system_def new_server_def observability_bus_def wire_defs subscribe_erased_def new_bus_def)

lemma system_ok_inbox:
  "system_ok engine s \<Longrightarrow> system_ok engine (s\<lparr>sy_server := (sy_server s)\<lparr>hb_bus := (hb_bus (sy_server s))\<lparr>inbox := xs\<rparr>\<rparr>\<rparr>)"
  by (simp add: system_ok_def quiet_def server_ok_def channels_guarded_def accounted_def wired_def tick_batch_def)

lemma process_ok_heartbeat:
  assumes "process_ok engine p"
  shows "\<exists>p'. heartbeat_loop env engine p = Inr p' \<and> process_ok engine (publish_events p')"
  using assms system_ok_heartbeat [of engine "ps_system p" env]
  by (auto simp: heartbeat_loop_def process_ok_def publish_events_def system_ok_inbox split: hb_loop.split)

lemma main_thread_keeps:
  "main_thread p = Some p' \<Longrightarrow> ps_system p' = ps_system p \<and> ps_heartbeat p' = ps_heartbeat p \<and> ps_calls p' = ps_calls p \<and>
     ps_stop p' = ps_stop p \<and> (\<forall>c. ps_main p' = Returned c \<longrightarrow> c = 0)"
  by (auto simp: main_thread_def split: main_pc.splits if_splits option.splits)

text \<open>Handling one event is what the bus does with an inbox of that event.\<close>

lemma handle_event_bus_work:
  assumes "inbox (hb_bus st) = []"
  shows "handle_event x st = bus_work (st\<lparr>hb_bus := (hb_bus st)\<lparr>inbox := [x]\<rparr>\<rparr>)"
proof -
  have "(hb_bus st)\<lparr>inbox := []\<rparr> = hb_bus st" using assms by simp
  then show ?thesis by (cases x) (simp add: handle_event_def bus_work_def try_pop_def Let_def)
qed

lemma handle_event_bus [simp]: "hb_bus (handle_event x st) = hb_bus st"
  by (simp add: handle_event_def Let_def)

lemma handle_events_bus [simp]: "hb_bus (fold handle_event xs st) = hb_bus st"
  by (induction xs arbitrary: st) simp_all

lemma system_ok_handle:
  assumes "system_ok engine s" and "inbox (hb_bus (sy_server s)) = []"
  shows "system_ok engine (s\<lparr>sy_server := handle_event x (sy_server s)\<rparr>)"
  using system_ok_bus [OF system_ok_inbox [OF assms(1), of "[x]"]] by (simp add: handle_event_bus_work assms(2))

lemma system_ok_handles:
  "system_ok engine s \<Longrightarrow> inbox (hb_bus (sy_server s)) = [] \<Longrightarrow> system_ok engine (s\<lparr>sy_server := fold handle_event xs (sy_server s)\<rparr>)"
proof (induction xs arbitrary: s)
  case (Cons x xs)
  from Cons.IH [OF system_ok_handle [OF Cons.prems, of x]] Cons.prems show ?case by simp
qed simp

lemma call_step_bus [simp]: "hb_bus (sy_server (call_step jwt op s)) = hb_bus (sy_server s)"
  by (simp add: call_step_def split: prod.split)

lemma process_step_ok:
  assumes "process_step env engine jwt p ev p'" and "process_ok engine p"
  shows "process_ok engine p'"
  using assms(1)
proof cases
  case (heartbeat p')
  then show ?thesis using process_ok_heartbeat [OF assms(2), of env] by auto
next
  case main
  then show ?thesis using assms(2) by (simp add: process_ok_def main_thread_keeps)
next
  case (call op)
  then show ?thesis using assms(2) by (simp add: process_ok_def service_call_def system_ok_call)
next
  case (bus ev b)
  then show ?thesis using assms(2) by (simp add: process_ok_def bus_moves_def system_ok_handles)
qed (use assms(2) in \<open>simp_all add: process_ok_def on_signal_def\<close>)

lemma process_run_ok:
  assumes "runs (process_step env engine jwt) (new_process bus_workers cpu_workers io_workers) evs p"
  shows "process_ok engine p"
  using assms process_ok_new by (rule runs_invariant [where P = "process_ok engine"]) (rule process_step_ok)

section \<open>After the heartbeat thread has left\<close>

text \<open>What a stream was sent and what its queue still holds for it.\<close>

definition sendable :: "string \<Rightarrow> service \<Rightarrow> synthesize_response list" where
  "sendable rid sv = wire_of rid sv @ (case map_of (sv_queues sv) rid of None \<Rightarrow> [] | Some q \<Rightarrow> map to_proto (buffer q))"

lemma sendable_cong:
  "map_of (sv_queues sv') k = map_of (sv_queues sv) k \<Longrightarrow> wire_of k sv' = wire_of k sv \<Longrightarrow> sendable k sv' = sendable k sv"
  by (simp add: sendable_def)

lemma poll_sendable: "prefix (sendable k (snd (stream_poll rid ok late sv))) (sendable k sv)"
proof (cases "map_of (sv_queues sv) rid")
  case (Some q)
  let ?sv = "sv\<lparr>sv_queues := AList.update rid (q\<lparr>buffer := []\<rparr>) (sv_queues sv)\<rparr>"
  obtain st sv' where loop: "write_loop rid ok (buffer q) ?sv = (st, sv')" by fastforce
  have poll: "snd (stream_poll rid ok late sv) \<in> {sv', unregister rid sv'}"
    using Some loop by (simp add: stream_poll_def swap_out_all_result split: option.split)
  show ?thesis
  proof (cases "k = rid")
    case True
    from write_loop_self [OF loop] obtain us vs where "buffer q = us @ vs" "wire_of rid sv' = wire_of rid sv @ map to_proto us"
      "map_of (sv_queues sv') rid = None \<or> map_of (sv_queues sv') rid = Some (q\<lparr>buffer := []\<rparr>)"
      by (auto simp: update_conv)
    then show ?thesis using poll Some True by (auto simp: sendable_def)
  next
    case False
    then have "sendable k sv' = sendable k sv" "sendable k (unregister rid sv') = sendable k sv"
      using write_loop_other [OF False, of ok "buffer q" ?sv] loop by - (rule sendable_cong; simp add: update_conv)+
    then show ?thesis using poll by auto
  qed
qed (simp add: stream_poll_def)

lemma service_step_sendable:
  assumes "\<forall>ws. op \<noteq> Dispatch ws"
  shows "prefix (sendable rid (fst (service_step jwt op (sv, ch)))) (sendable rid sv)"
  using assms
proof (cases op)
  case (Poll r ok late)
  then show ?thesis using poll_sendable [of rid r ok late sv] by simp
qed (auto simp: stream_submit_def service_defs client_open_def sendable_def update_conv delete_conv wire_of_def new_channel_def
    split: sum.split parse_error.split option.splits)

lemma exited_step:
  assumes "process_step env engine jwt p ev p'" and "ps_heartbeat p = LeftLoop"
  shows "ps_heartbeat p' = LeftLoop \<and> sy_dispatched (ps_system p') = sy_dispatched (ps_system p) \<and>
    sy_issued (ps_system p') = sy_issued (ps_system p) \<and>
    prefix (sendable rid (sy_service (ps_system p'))) (sendable rid (sy_service (ps_system p)))"
  using assms(1)
proof cases
  case (call op)
  let ?s = "ps_system p"
  obtain sv ch where step: "service_step jwt op (sy_service ?s, hb_request_channel (sy_server ?s)) = (sv, ch)" by fastforce
  from call have "\<forall>ws. op \<noteq> Dispatch ws" by auto
  from service_step_sendable [OF this, of rid jwt "sy_service ?s" "hb_request_channel (sy_server ?s)"]
  have "prefix (sendable rid (sy_service (call_step jwt op ?s))) (sendable rid (sy_service ?s))" by (simp add: step call_step_def)
  then show ?thesis using assms(2) call by (simp add: service_call_def)
qed (use assms(2) in \<open>auto simp: on_signal_def bus_moves_def dest: main_thread_keeps\<close>)

lemma exited_run:
  assumes "runs (process_step env engine jwt) p evs p'" and "ps_heartbeat p = LeftLoop"
  shows "sy_dispatched (ps_system p') = sy_dispatched (ps_system p) \<and> sy_issued (ps_system p') = sy_issued (ps_system p) \<and>
    prefix (sendable rid (sy_service (ps_system p'))) (sendable rid (sy_service (ps_system p)))"
  using assms
proof (induction rule: runs.induct)
  case (Cons p ev p1 evs p')
  from exited_step [OF Cons.hyps(1) Cons.prems, of rid] Cons.IH show ?case by (auto intro: prefix_order.trans)
qed simp

section \<open>Properties\<close>

text \<open>
  C14. A shutdown abandons the requests in progress: once the heartbeat thread has left its loop, which it does at the first look at
  the flag, nothing is dispatched any more. Every job issued so far was either answered by then or its result stays in the request
  channel for good, and a stream is sent at most what was already in its queue.
\<close>

theorem shutdown_abandons_requests:
  assumes "runs (process_step env engine jwt) (new_process bus_workers cpu_workers io_workers) evs p" and "ps_heartbeat p = LeftLoop"
    and "runs (process_step env engine jwt) p evs' p'"
  shows "sy_dispatched (ps_system p') @ concat (map answers (buffer (hb_request_channel (sy_server (ps_system p))))) =
      map (job_answer engine) (sy_issued (ps_system p')) \<and>
    prefix (wire_of rid (sy_service (ps_system p'))) (sendable rid (sy_service (ps_system p)))"
proof -
  have "system_ok engine (ps_system p)" and pc: "sy_pc (ps_system p) = AtTick"
    using process_run_ok [OF assms(1)] assms(2) by (simp_all add: process_ok_def)
  then have "sy_dispatched (ps_system p) @ concat (map answers (buffer (hb_request_channel (sy_server (ps_system p))))) =
      map (job_answer engine) (sy_issued (ps_system p))"
    by (simp add: system_ok_def accounted_def)
  moreover have "prefix (wire_of rid (sy_service (ps_system p'))) (sendable rid (sy_service (ps_system p')))" by (simp add: sendable_def)
  ultimately show ?thesis using exited_run [OF assms(3,2), of rid] by (auto intro: prefix_order.trans)
qed

theorem shutdown_abandons_requests_witness:
  "\<exists>p p'. runs (process_step example_env example_engine None) (new_process 1 1 1)
       [ServiceCall (Submit [] empty_request), SignalArrives, HeartbeatThread] p \<and>
     runs (process_step example_env example_engine None) p [MainThread] p' \<and> prefix (wire_of ''strm-1'' (sy_service (ps_system p'))) []"
proof -
  let ?step = "process_step example_env example_engine None"
  let ?p1 = "service_call None (Submit [] empty_request) (new_process 1 1 1)"
  let ?p3 = "publish_events ((on_signal ?p1)\<lparr>ps_heartbeat := LeftLoop\<rparr>)"
  let ?p4 = "?p3\<lparr>ps_main := InShutdown\<rparr>"
  have f: "ps_heartbeat ?p1 = LoopHead" "ps_main ?p1 = Waiting" "\<not> inbox_locked (inbox_of (on_signal ?p1))"
    by (simp_all add: service_call_def new_process_def on_signal_def start_new_threads started_inbox_def inbox_locked_def pcs_def)
  have "?step (new_process 1 1 1) (ServiceCall (Submit [] empty_request)) ?p1" by (rule call) (simp add: new_process_def)
  moreover have "?step ?p1 SignalArrives (on_signal ?p1)" by (rule signal)
  moreover have "?step (on_signal ?p1) HeartbeatThread ?p3"
    by (rule heartbeat) (use f in \<open>simp_all add: heartbeat_loop_def on_signal_def\<close>)
  ultimately have r: "runs ?step (new_process 1 1 1) [ServiceCall (Submit [] empty_request), SignalArrives, HeartbeatThread] ?p3"
    by (blast intro: runs.intros)
  have "?step ?p3 MainThread ?p4" by (rule main) (simp add: main_thread_def on_signal_def publish_events_def f del: One_nat_def)
  then have m: "runs ?step ?p3 [MainThread] ?p4" by (blast intro: runs.intros)
  have "sendable ''strm-1'' (sy_service (ps_system ?p3)) = sendable ''strm-1'' (sy_service new_system)"
    by (simp add: service_call_def call_step_def on_signal_def publish_events_def new_process_def stream_submit_def generate_request_id_def
        sendable_def split: prod.split sum.split parse_error.split)
  also have "\<dots> = []" by (simp add: sendable_def new_system_def new_service_def wire_of_def)
  finally have none: "sendable ''strm-1'' (sy_service (ps_system ?p3)) = []" .
  have "ps_heartbeat ?p3 = LeftLoop" by (simp add: publish_events_def)
  from shutdown_abandons_requests [OF r this m, THEN conjunct2, of "''strm-1''", unfolded none] r m show ?thesis by blast
qed

end
