(* ===== verification/Process_End.thy ===== *)
theory Process_End
  imports Lifecycle
begin

text \<open>
  The end of the process: what is left to do after a signal, and that it gets done. The main thread's stores to the stop flags of the pools and of the
  bus are made without the mutex of the condition variable their workers wait on; a store that hits a worker between its test and its sleep
  is missed by it. Steps in which no store does so are \<open>clean_step\<close>.
\<close>

section \<open>Clean stops\<close>

definition clean_main :: "process \<Rightarrow> bool" where
  "clean_main p \<longleftrightarrow> (ps_main p = StoppingReactor \<longrightarrow> clean_stop (ps_reactor p)) \<and> (ps_main p = StoppingBus \<longrightarrow> \<not> inbox_locked (inbox_of p))"

definition clean_step :: "environment \<Rightarrow> local_engine \<Rightarrow> jwt_verifier option \<Rightarrow> process \<Rightarrow> process_event \<Rightarrow> process \<Rightarrow> bool" where
  "clean_step env engine jwt p ev p' \<longleftrightarrow> process_step env engine jwt p ev p' \<and> (ev = MainThread \<longrightarrow> clean_main p)"

lemma clean_runs: "runs (clean_step env engine jwt) p evs p' \<Longrightarrow> runs (process_step env engine jwt) p evs p'"
  by (induction rule: runs.induct) (auto simp: clean_step_def intro: runs.intros)

text \<open>What holds of the threads of the reactor and of the bus at each stage of the main thread.\<close>

definition threads_ok :: "process \<Rightarrow> bool" where
  "threads_ok p \<longleftrightarrow> stop_ok (ps_reactor p) \<and>
     (case ps_main p of
        Waiting \<Rightarrow> True | InShutdown \<Rightarrow> True | StoppingReactor \<Rightarrow> True | _ \<Rightarrow> rt_stop (ps_reactor p) = StopDone) \<and>
     (case ps_main p of
        DeletingWorkers \<Rightarrow> closing (inbox_of p) \<and> \<not> bt_running (ps_bus p) | Returned _ \<Rightarrow> ib_workers (inbox_of p) = [] \<and> \<not> bt_running (ps_bus p) | _ \<Rightarrow> bt_running (ps_bus p))"

lemma threads_ok_new: "threads_ok (new_process bus_workers cpu_workers io_workers)"
  by (simp add: threads_ok_def new_process_def stop_ok_running start_threads_def new_threads_def)

lemma no_workers_stay: "inbox_step b ev b' \<Longrightarrow> ib_workers b = [] \<Longrightarrow> ib_workers b' = []"
  using no_workers_step by blast

lemma reactor_step_stage: "reactor_step rt ev rt' \<Longrightarrow> ev \<noteq> StopThread \<Longrightarrow> rt_stop rt' = rt_stop rt"
  by (erule reactor_step_cases) simp_all

lemma threads_ok_main:
  assumes "threads_ok p" and "clean_main p" and "main_thread p = Some p'"
  shows "threads_ok p'"
proof (cases "ps_main p")
  case StoppingReactor
  then show ?thesis
    using assms stop_ok_stop [of "ps_reactor p"]
    by (auto simp: threads_ok_def clean_main_def main_thread_def split: option.splits if_splits)
next
  case StoppingBus
  then show ?thesis using assms closing_close by (auto simp: threads_ok_def clean_main_def main_thread_def stop_threads_def)
next
  case DeletingWorkers
  then show ?thesis using assms by (auto simp: threads_ok_def main_thread_def clear_threads_def split: if_splits)
qed (use assms in \<open>auto simp: threads_ok_def main_thread_def split: if_splits\<close>)

lemma pushes_keep [simp]: "ib_workers (fold inbox_push xs b) = ib_workers b" "ib_stop (fold inbox_push xs b) = ib_stop b"
    "ib_notify_all (fold inbox_push xs b) = ib_notify_all b"
  by (induction xs arbitrary: b) (simp_all add: inbox_push_def)

lemma publish_keeps [simp]:
  "ps_main (publish_events p) = ps_main p" "ps_reactor (publish_events p) = ps_reactor p" "ps_stop (publish_events p) = ps_stop p"
  "ps_calls (publish_events p) = ps_calls p" "ps_heartbeat (publish_events p) = ps_heartbeat p"
  "bt_running (ps_bus (publish_events p)) = bt_running (ps_bus p)" "ib_workers (inbox_of (publish_events p)) = ib_workers (inbox_of p)"
  "closing (inbox_of (publish_events p)) = closing (inbox_of p)" "sy_service (ps_system (publish_events p)) = sy_service (ps_system p)"
  "sy_pc (ps_system (publish_events p)) = sy_pc (ps_system p)"
  by (simp_all add: publish_events_def closing_def inbox_locked_def pcs_def)

lemma heartbeat_loop_keeps:
  "heartbeat_loop env engine p = Inr p' \<Longrightarrow> ps_main p' = ps_main p \<and> ps_reactor p' = ps_reactor p \<and> ps_bus p' = ps_bus p \<and>
     ps_calls p' = ps_calls p \<and> ps_stop p' = ps_stop p \<and> ps_published p' = ps_published p"
  by (auto simp: heartbeat_loop_def split: hb_loop.splits sum.splits)

lemma threads_ok_cong:
  assumes "ps_main p' = ps_main p" and "stop_ok (ps_reactor p) \<longrightarrow> stop_ok (ps_reactor p')" and "rt_stop (ps_reactor p') = rt_stop (ps_reactor p)"
    and "bt_running (ps_bus p') = bt_running (ps_bus p)" and "closing (inbox_of p) \<longrightarrow> closing (inbox_of p')"
    and "ib_workers (inbox_of p) = [] \<longrightarrow> ib_workers (inbox_of p') = []" and "threads_ok p"
  shows "threads_ok p'"
  using assms by (auto simp: threads_ok_def split: main_pc.splits)

lemma threads_ok_step:
  assumes "clean_step env engine jwt p ev p'" and "threads_ok p"
  shows "threads_ok p'"
proof -
  have step: "process_step env engine jwt p ev p'" using assms(1) by (simp add: clean_step_def)
  then show ?thesis
  proof cases
    case (heartbeat p1)
    then show ?thesis using threads_ok_cong [OF _ _ _ _ _ _ assms(2), of "publish_events p1"] heartbeat_loop_keeps [of env engine p p1] by simp
  next
    case main
    then show ?thesis using threads_ok_main [OF assms(2)] assms(1) by (simp add: clean_step_def)
  next
    case (bus bev b)
    then show ?thesis using closing_step no_workers_stay by (intro threads_ok_cong [OF _ _ _ _ _ _ assms(2)]) (auto simp: bus_moves_def)
  next
    case (reactor rev rt)
    then have "clean_reactor_step (ps_reactor p) rev rt" by (simp add: clean_reactor_step_def)
    then show ?thesis
      using reactor clean_step_ok reactor_step_stage by (intro threads_ok_cong [OF _ _ _ _ _ _ assms(2)]) auto
  qed (use threads_ok_cong [OF _ _ _ _ _ _ assms(2), of p'] in \<open>simp_all add: on_signal_def service_call_def\<close>)
qed

lemma clean_run_threads:
  assumes "runs (clean_step env engine jwt) (new_process bus_workers cpu_workers io_workers) evs p"
  shows "threads_ok p"
  using assms threads_ok_new by (rule runs_invariant [where P = threads_ok]) (rule threads_ok_step)

section \<open>What is left to do after a signal\<close>

text \<open>
  What happens without anybody's doing after a signal: the threads go on, and the calls go on to their ends. A stream call that was submitted
  registers, and polls until its deadline, as shown in \<open>Stream_Call\<close>; a client call ends when its client has no more to send. Nothing is scheduled,
  the loop of the reactor makes no more turns, and no worker wakes up without a reason.
\<close>

fun winds_up :: "process_event \<Rightarrow> bool" where
  "winds_up HeartbeatThread = True"
| "winds_up MainThread = True"
| "winds_up (ServiceCall (Register rid)) = True"
| "winds_up (ServiceCall (Poll rid ok late)) = late"
| "winds_up (ServiceCall (CallCancelled rid)) = True"
| "winds_up (ClientDone rid) = True"
| "winds_up (BusThread ev) = inbox_progress ev"
| "winds_up (ReactorThread ev) = reactor_progress ev"
| "winds_up _ = False"

definition call_rank :: "service \<Rightarrow> string \<Rightarrow> nat" where
  "call_rank sv rid = (if stream_id rid \<and> \<not> has_queue rid sv then 2 else 1)"

definition calls_rank :: "process \<Rightarrow> nat" where
  "calls_rank p = sum_list (map (call_rank (sy_service (ps_system p))) (ps_calls p))"

fun main_rank :: "main_pc \<Rightarrow> nat" where
  "main_rank Waiting = 7"
| "main_rank InShutdown = 6"
| "main_rank StoppingReactor = 5"
| "main_rank JoiningServer = 4"
| "main_rank JoiningHeartbeat = 3"
| "main_rank StoppingBus = 2"
| "main_rank DeletingWorkers = 1"
| "main_rank (Returned _) = 0"

text \<open>
  Three counts, the first before the others: whether a tick is still to come, which may give work to everybody; where the main thread is, whose
  stores to the flags wake the workers; and the steps the heartbeat thread, the calls, the reactor and the bus have left.
\<close>

definition tick_ahead :: "process \<Rightarrow> nat" where
  "tick_ahead p = (if ps_heartbeat p = InBody \<and> sy_pc (ps_system p) = AtTick then 1 else 0)"

definition stage_rank :: "process \<Rightarrow> nat" where
  "stage_rank p = main_rank (ps_main p) + stop_rank (rt_stop (ps_reactor p))"

definition heartbeat_rank :: "process \<Rightarrow> nat" where
  "heartbeat_rank p =
     (case ps_heartbeat p of
        LeftLoop \<Rightarrow> 0
      | LoopHead \<Rightarrow> 1
      | InBody \<Rightarrow> (case sy_pc (ps_system p) of AtTick \<Rightarrow> 0 | AtDispatch ws jobs \<Rightarrow> 3 + length ws + length jobs | AtJobs jobs \<Rightarrow> 2 + length jobs))"

definition steps_left :: "process \<Rightarrow> nat" where
  "steps_left p = heartbeat_rank p + calls_rank p + threads_left (ps_reactor p) + inbox_weight (inbox_of p)"

definition process_order :: "(process \<times> process) set" where
  "process_order = measures [tick_ahead, stage_rank, steps_left]"

text \<open>The steps after a signal; the flag is never reset.\<close>

definition stopped_step :: "environment \<Rightarrow> local_engine \<Rightarrow> jwt_verifier option \<Rightarrow> process \<Rightarrow> process_event \<Rightarrow> process \<Rightarrow> bool" where
  "stopped_step env engine jwt p ev p' \<longleftrightarrow> ps_stop p \<and> process_ok engine p \<and> clean_step env engine jwt p ev p'"

lemma process_step_stop: "process_step env engine jwt p ev p' \<Longrightarrow> ps_stop p \<Longrightarrow> ps_stop p'"
  by (erule process_step_cases) (auto simp: on_signal_def service_call_def bus_moves_def dest: main_thread_keeps heartbeat_loop_keeps)

lemma stopped_step_keeps: "clean_step env engine jwt p ev p' \<Longrightarrow> ps_stop p \<Longrightarrow> process_ok engine p \<Longrightarrow> ps_stop p' \<and> process_ok engine p'"
  unfolding clean_step_def using process_step_stop process_step_ok by blast

lemma stopped_runs:
  "runs (clean_step env engine jwt) p evs p' \<Longrightarrow> ps_stop p \<Longrightarrow> process_ok engine p \<Longrightarrow> ps_stop p' \<and> process_ok engine p'"
  by (induction rule: runs.induct) (auto dest: stopped_step_keeps)

lemma runs_stopped: "runs (stopped_step env engine jwt) p evs p' \<Longrightarrow> runs (clean_step env engine jwt) p evs p'"
  by (induction rule: runs.induct) (auto simp: stopped_step_def intro: runs.intros)

lemma sum_filter_lowers:
  assumes "x \<in> set xs" and "0 < f x" and "\<And>y. y \<in> set xs \<Longrightarrow> y \<noteq> x \<Longrightarrow> g y \<le> f y"
  shows "sum_list (map g (filter (\<lambda>y. y \<noteq> x) xs)) < (sum_list (map f xs) :: nat)"
proof -
  have le: "sum_list (map g (filter (\<lambda>y. y \<noteq> x) ys)) \<le> sum_list (map f ys)" if "set ys \<subseteq> set xs" for ys
    using that assms(3) by (induction ys) (auto intro: add_mono trans_le_add2)
  obtain us vs where xs: "xs = us @ x # vs" using assms(1) by (meson split_list)
  then have "set us \<subseteq> set xs" and "set vs \<subseteq> set xs" by auto
  from le [OF this(1)] le [OF this(2)] assms(2) show ?thesis by (simp add: xs)
qed

lemma sum_point_lowers:
  assumes "x \<in> set xs" and "g x < f x" and "\<And>y. y \<in> set xs \<Longrightarrow> g y \<le> f y"
  shows "sum_list (map g xs) < (sum_list (map f xs) :: nat)"
proof -
  have le: "sum_list (map g ys) \<le> sum_list (map f ys)" if "set ys \<subseteq> set xs" for ys
    using that assms(3) by (induction ys) (auto intro: add_mono)
  obtain us vs where xs: "xs = us @ x # vs" using assms(1) by (meson split_list)
  then have "set us \<subseteq> set xs" and "set vs \<subseteq> set xs" by auto
  from le [OF this(1)] le [OF this(2)] assms(2) show ?thesis by (simp add: xs)
qed

lemma heartbeat_keeps_calls:
  assumes "heartbeat_loop env engine p = Inr p'"
  shows "calls_rank (publish_events p') = calls_rank p"
proof -
  have "has_queue k (sy_service s') = has_queue k (sy_service s)" if "heartbeat_step env engine s = Inr s'" for s s' k
    using that by (auto simp: heartbeat_step_def split_beta Let_def dispatch_write_queue split: hb_pc.splits list.splits sum.splits)
  then have "call_rank (sy_service s') = call_rank (sy_service s)" if "heartbeat_step env engine s = Inr s'" for s s'
    using that by (intro ext) (simp add: call_rank_def)
  then show ?thesis using assms by (auto simp: heartbeat_loop_def calls_rank_def split: hb_loop.splits sum.splits)
qed

lemma call_service:
  "sy_service (call_step jwt op s) = fst (service_step jwt op (sy_service s, hb_request_channel (sy_server s)))"
  by (simp add: call_step_def split: prod.split)

text \<open>An operation of a running call other than its chunks lowers the calls' ranks.\<close>

lemma call_lowers:
  assumes "may_run op p" and "winds_up (ServiceCall op)"
  shows "calls_rank (service_call jwt op p) < calls_rank p"
proof -
  let ?sv = "sy_service (ps_system p)" and ?sv' = "sy_service (call_step jwt op (ps_system p))"
  have same: "call_rank ?sv' k = call_rank ?sv k" if "other_call k op" for k
    using other_call_queue [OF that] by (simp add: call_rank_def call_service)
  have pos: "0 < call_rank ?sv k" for k by (simp add: call_rank_def)
  show ?thesis
  proof (cases op)
    case (Register rid)
    have "call_rank ?sv' rid < call_rank ?sv rid"
      using assms(1) by (simp add: Register call_rank_def call_service has_queue_def service_defs update_conv)
    then have "sum_list (map (call_rank ?sv') (ps_calls p)) < sum_list (map (call_rank ?sv) (ps_calls p))"
      using assms(1) same by (intro sum_point_lowers [of rid]) (auto simp: Register, metis le_less)
    then show ?thesis by (simp add: Register calls_rank_def service_call_def)
  next
    case (Poll rid ok late)
    obtain q where q: "map_of (sv_queues ?sv) rid = Some q" using assms(1) by (auto simp: Poll has_queue_def)
    have "fst (stream_poll rid ok late ?sv) \<noteq> None"
      using assms(2) q by (auto simp: Poll stream_poll_def split: prod.splits option.splits)
    then have "ps_calls (service_call jwt op p) = filter (\<lambda>r. r \<noteq> rid) (ps_calls p)" by (auto simp: Poll service_call_def)
    moreover have "sum_list (map (call_rank ?sv') (filter (\<lambda>r. r \<noteq> rid) (ps_calls p))) < sum_list (map (call_rank ?sv) (ps_calls p))"
      using assms(1) same pos by (intro sum_filter_lowers) (auto simp: Poll)
    ultimately show ?thesis by (simp add: calls_rank_def service_call_def)
  next
    case (CallCancelled rid)
    have "sum_list (map (call_rank ?sv') (filter (\<lambda>r. r \<noteq> rid) (ps_calls p))) < sum_list (map (call_rank ?sv) (ps_calls p))"
      using assms(1) same pos by (intro sum_filter_lowers) (auto simp: CallCancelled)
    then show ?thesis by (simp add: CallCancelled calls_rank_def service_call_def)
  qed (use assms in auto)
qed

lemma heartbeat_cong:
  assumes "ps_heartbeat p' = ps_heartbeat p" and "sy_pc (ps_system p') = sy_pc (ps_system p)"
  shows "heartbeat_rank p' = heartbeat_rank p" "tick_ahead p' = tick_ahead p"
  unfolding heartbeat_rank_def tick_ahead_def assms by simp_all

lemma heartbeat_descends:
  assumes "heartbeat_loop env engine p = Inr p'" and "ps_heartbeat p \<noteq> LeftLoop" and "ps_stop p" and "inbox (hb_bus (server_of p)) = []"
  shows "(publish_events p', p) \<in> process_order"
proof (cases "tick_ahead p = 1")
  case True
  then have "tick_ahead p' = 0"
    using assms(1) by (auto simp: tick_ahead_def heartbeat_loop_def heartbeat_step_def split_beta split: sum.splits if_splits)
  then show ?thesis using True by (simp add: process_order_def tick_ahead_def)
next
  case False
  have same: "ps_bus p' = ps_bus p" "ps_main p' = ps_main p" "ps_reactor p' = ps_reactor p" using heartbeat_loop_keeps [OF assms(1)] by simp_all
  have "inbox (hb_bus (server_of p')) = [] \<and> tick_ahead p' = 0 \<and> heartbeat_rank p' < heartbeat_rank p"
    using False assms by (auto simp: tick_ahead_def heartbeat_rank_def heartbeat_loop_def heartbeat_step_def
        split: hb_loop.splits hb_pc.splits list.splits sum.splits if_splits)
  then show ?thesis
    using heartbeat_keeps_calls [OF assms(1)] heartbeat_cong [of "publish_events p'" p'] same
    by (auto simp: process_order_def steps_left_def stage_rank_def publish_events_def)
qed

lemma main_descends:
  assumes "main_thread p = Some p'"
  shows "(p', p) \<in> process_order"
proof -
  have "stage_rank p' < stage_rank p"
    using assms stop_step_lowers [of "ps_reactor p"] by (auto simp: stage_rank_def main_thread_def split: main_pc.splits option.splits if_splits)
  then show ?thesis using main_thread_keeps [OF assms] by (simp add: process_order_def tick_ahead_def)
qed

lemma process_descends:
  assumes "stopped_step env engine jwt p ev p'" and "winds_up ev"
  shows "(p', p) \<in> process_order"
proof -
  have step: "process_step env engine jwt p ev p'" and stop: "ps_stop p" and ok: "process_ok engine p"
    using assms(1) by (simp_all add: stopped_step_def clean_step_def)
  have same: ?thesis
    if "ps_heartbeat p' = ps_heartbeat p" "sy_pc (ps_system p') = sy_pc (ps_system p)" "stage_rank p' = stage_rank p"
      "calls_rank p' + threads_left (ps_reactor p') + inbox_weight (inbox_of p') <
       calls_rank p + threads_left (ps_reactor p) + inbox_weight (inbox_of p)"
    using that(3,4) heartbeat_cong [OF that(1,2)] by (simp add: process_order_def steps_left_def)
  show ?thesis
    using step
  proof cases
    case (heartbeat p1)
    then show ?thesis using heartbeat_descends stop ok by (simp add: process_ok_def)
  next
    case main
    then show ?thesis by (simp add: main_descends)
  next
    case (call op)
    then have "calls_rank p' < calls_rank p" using call_lowers [of op p jwt] assms(2) by simp
    then show ?thesis using call by (intro same) (simp_all add: stage_rank_def service_call_def)
  next
    case (client_done rid)
    then show ?thesis
      using sum_filter_lowers [of rid "ps_calls p" "call_rank (sy_service (ps_system p))" "call_rank (sy_service (ps_system p))"]
      by (intro same) (simp_all add: stage_rank_def calls_rank_def call_rank_def)
  next
    case (bus bev b)
    then show ?thesis using assms(2) inbox_progress_lowers [of "inbox_of p" bev b]
      by (intro same) (simp_all add: stage_rank_def calls_rank_def bus_moves_def)
  next
    case (reactor rev rt)
    then show ?thesis using assms(2) reactor_step_descends [of "ps_reactor p" rev rt] reactor_step_stage [of "ps_reactor p" rev rt]
      by (intro same) (simp_all add: stage_rank_def calls_rank_def reactor_order_def)
  qed (use assms(2) in simp_all)
qed

interpretation process_steps: ordered_system "stopped_step env engine jwt" winds_up process_order for env engine jwt
  by unfold_locales (simp add: process_order_def, rule process_descends)

text \<open>A stopped process rests only when it has returned.\<close>

lemma rest_calls:
  assumes "\<And>ev p'. winds_up ev \<Longrightarrow> ev \<noteq> MainThread \<Longrightarrow> \<not> process_step env engine jwt p ev p'"
  shows "ps_calls p = []"
proof (rule ccontr)
  assume "ps_calls p \<noteq> []"
  then obtain rid where rid: "rid \<in> set (ps_calls p)" by (meson hd_in_set)
  consider "\<not> stream_id rid" | "stream_id rid" "\<not> has_queue rid (sy_service (ps_system p))" | "has_queue rid (sy_service (ps_system p))" by blast
  then show False
  proof cases
    case 1
    then show ?thesis using assms [of "ClientDone rid"] client_done [OF rid, of env engine jwt] by simp
  next
    case 2
    then show ?thesis using rid assms [of "ServiceCall (Register rid)"] call [of "Register rid" p env engine jwt] by simp
  next
    case 3
    then show ?thesis using rid assms [of "ServiceCall (CallCancelled rid)"] call [of "CallCancelled rid" p env engine jwt] by simp
  qed
qed

lemma rest_threads:
  assumes "\<And>ev p'. winds_up ev \<Longrightarrow> ev \<noteq> MainThread \<Longrightarrow> \<not> process_step env engine jwt p ev p'"
  shows "inbox_rests (inbox_of p)" and "threads_rest (ps_reactor p)"
proof -
  have "\<not> inbox_step (inbox_of p) ev b" if "inbox_progress ev" for ev b
    using that assms [of "BusThread ev"] bus [of p ev b env engine jwt] by (auto simp: inbox_progress_def)
  then show "inbox_rests (inbox_of p)" by (simp add: at_rest_def)
  have "\<not> reactor_step (ps_reactor p) ev rt" if "reactor_progress ev" "ev \<noteq> StopThread" for ev rt
    using that assms [of "ReactorThread ev"] reactor [of p ev rt env engine jwt] by auto
  then show "threads_rest (ps_reactor p)" by (simp add: threads_rest_def)
qed

lemma rest_unlocked: "inbox_rests b \<Longrightarrow> \<not> inbox_locked b"
  using rests_pcs by (fastforce simp: inbox_locked_def)

definition all_over :: "process \<Rightarrow> bool" where
  "all_over p \<longleftrightarrow> ps_main p = Returned 0 \<and> ps_heartbeat p = LeftLoop \<and> ps_calls p = [] \<and> rt_loop (ps_reactor p) = LoopGone \<and>
     all_exited (cpu_of (ps_reactor p)) \<and> all_exited (io_of (ps_reactor p)) \<and> ib_workers (inbox_of p) = []"

lemma stopped_rest:
  assumes "process_ok engine p" and "threads_ok p" and "ps_stop p" and "at_rest (clean_step env engine jwt) winds_up p"
  shows "all_over p"
proof -
  have no: "\<not> process_step env engine jwt p ev p'" if "winds_up ev" "ev \<noteq> MainThread" for ev p'
    using that assms(4) by (auto simp: at_rest_def clean_step_def)
  note calls = rest_calls [OF no] and bus = rest_threads(1) [OF no] and reactor = rest_threads(2) [OF no]
  have hb: "ps_heartbeat p = LeftLoop"
    using no [of HeartbeatThread] process_ok_heartbeat [OF assms(1), of env] heartbeat [of p env engine _ jwt] rest_unlocked [OF bus] by auto
  have "clean_main p" using rest_clean [OF reactor] rest_unlocked [OF bus] by (simp add: clean_main_def)
  then have none: "main_thread p = None"
    using assms(4) by (cases "main_thread p") (auto simp: at_rest_def clean_step_def dest!: spec [of _ MainThread] intro: main)
  have "ps_main p \<noteq> DeletingWorkers" using none closing_rests [OF _ bus] assms(2) by (auto simp: main_thread_def threads_ok_def)
  moreover have "ps_main p \<noteq> StoppingReactor"
    using none stop_step_waits [OF _ _ reactor] assms(2) by (auto simp: main_thread_def threads_ok_def split: option.splits if_splits)
  ultimately obtain c where "ps_main p = Returned c"
    using none assms(3) hb calls by (auto simp: main_thread_def split: main_pc.splits if_splits)
  then show ?thesis using hb calls assms(1,2) by (auto simp: all_over_def process_ok_def threads_ok_def stop_ok_def)
qed

text \<open>When main has returned, the destructors of the reactor and of the bus find everything stopped.\<close>

definition exit_process :: "process \<Rightarrow> process" where
  "exit_process p =
     p\<lparr>ps_reactor := (ps_reactor p)\<lparr>rt_reactor := destroy_reactor (rt_reactor (ps_reactor p))\<rparr>, ps_bus := destroy_bus (ps_bus p)\<rparr>"

lemma exit_at_once: "threads_ok p \<Longrightarrow> all_over p \<Longrightarrow> exit_process p = p"
  by (simp add: exit_process_def all_over_def threads_ok_def stopped_destroyed destroy_bus_def stop_threads_def)

section \<open>Properties\<close>

text \<open>
  C12. The process ends after a signal. Once the flag is set, in whatever state the heartbeat thread, the threads of the reactor and of the bus and the
  running calls are: if the stop flags are set while no worker is between its test and its sleep, then the threads and the calls on the
  way to their ends cannot go on for ever, and whenever they can make no more step, all calls have returned, all threads have left and main has returned 0.
\<close>

theorem process_ends:
  assumes "runs (clean_step env engine jwt) (new_process bus_workers cpu_workers io_workers) evs p" and "ps_stop p"
  shows "(\<exists>evs' p'. runs (clean_step env engine jwt) p evs' p' \<and> list_all winds_up evs' \<and> all_over p') \<and>
    (\<forall>ps es. ps 0 = p \<longrightarrow> (\<exists>i. \<not> (clean_step env engine jwt (ps i) (es i) (ps (Suc i)) \<and> winds_up (es i)))) \<and>
    (\<forall>evs' p'. runs (clean_step env engine jwt) p evs' p' \<and> at_rest (clean_step env engine jwt) winds_up p' \<longrightarrow> all_over p')"
proof (intro conjI allI impI)
  note ok = process_run_ok [OF clean_runs [OF assms(1)]]
  have rest: "all_over p'" if "runs (clean_step env engine jwt) p evs' p'" "at_rest (clean_step env engine jwt) winds_up p'" for evs' p'
    using stopped_rest [OF _ _ _ that(2)] stopped_runs [OF that(1) assms(2) ok] clean_run_threads [OF runs_append [OF assms(1) that(1)]] by blast
  then show "all_over p'" if "runs (clean_step env engine jwt) p evs' p' \<and> at_rest (clean_step env engine jwt) winds_up p'" for evs' p'
    using that by blast
  obtain evs' p' where r: "runs (stopped_step env engine jwt) p evs' p'" "list_all winds_up evs'" "at_rest (stopped_step env engine jwt) winds_up p'"
    using process_steps.comes_to_rest by blast
  then have "at_rest (clean_step env engine jwt) winds_up p'"
    using stopped_runs [OF runs_stopped [OF r(1)] assms(2) ok] by (simp add: at_rest_def stopped_step_def)
  then show "\<exists>evs' p'. runs (clean_step env engine jwt) p evs' p' \<and> list_all winds_up evs' \<and> all_over p'"
    using rest runs_stopped [OF r(1)] r(2) by blast
  fix ps :: "nat \<Rightarrow> process" and es :: "nat \<Rightarrow> process_event"
  assume "ps 0 = p"
  show "\<exists>i. \<not> (clean_step env engine jwt (ps i) (es i) (ps (Suc i)) \<and> winds_up (es i))"
  proof (rule ccontr)
    assume "\<not> ?thesis"
    then have step: "clean_step env engine jwt (ps i) (es i) (ps (Suc i))" "winds_up (es i)" for i by auto
    have "ps_stop (ps i) \<and> process_ok engine (ps i)" for i
      using assms(2) ok \<open>ps 0 = p\<close> by (induction i) (auto dest: stopped_step_keeps [OF step(1)])
    then show False using process_steps.no_endless_run [of env engine jwt ps es] step by (simp add: stopped_step_def)
  qed
qed

theorem process_ends_witness:
  "\<exists>evs p. runs (clean_step example_env example_engine None)
     (on_signal (service_call None (Submit [] empty_request) (new_process 1 2 4))) evs p \<and> all_over p"
proof -
  let ?new = "new_process 1 2 4" let ?p = "service_call None (Submit [] empty_request) ?new"
  let ?step = "clean_step example_env example_engine None"
  have "?step ?new (ServiceCall (Submit [] empty_request)) ?p" unfolding clean_step_def by (intro conjI call) (simp_all add: new_process_def)
  moreover have "?step ?p SignalArrives (on_signal ?p)" by (simp add: clean_step_def process_step.signal)
  ultimately have "runs ?step ?new [ServiceCall (Submit [] empty_request), SignalArrives] (on_signal ?p)" by (blast intro: runs.intros)
  from process_ends [OF this] show ?thesis by (auto simp: on_signal_def)
qed

section \<open>A shutdown that hangs\<close>

text \<open>The main thread waits for a worker of the pool that sleeps, and no notification is under way.\<close>

definition hung :: "process \<Rightarrow> bool" where
  "hung p \<longleftrightarrow> ps_main p = StoppingReactor \<and> rt_stop (ps_reactor p) = JoiningCpu \<and> tp_workers (cpu_of (ps_reactor p)) = [Asleep] \<and>
     tp_notify (cpu_of (ps_reactor p)) = 0 \<and> \<not> tp_notify_all (cpu_of (ps_reactor p))"

text \<open>The steps that wake a sleeping worker of the pool: a spurious wake-up, or a task submitted to it.\<close>

fun disturbs :: "process_event \<Rightarrow> bool" where
  "disturbs (ReactorThread (CpuThreads Spurious)) = True"
| "disturbs (ReactorThread (CpuThreads (Push _))) = True"
| "disturbs _ = False"

lemma asleep_stays:
  assumes "pool_step p ev p'" and "tp_workers p = [Asleep]" and "tp_notify p = 0" and "\<not> tp_notify_all p"
  shows "ev = Spurious \<or> ev = Shutdown \<or> (\<exists>f. ev = Push f)"
  using assms by (cases rule: pool_step.cases) auto

lemma hung_reactor:
  assumes "reactor_step rt ev rt'" and "\<not> disturbs (ReactorThread ev)" and "tp_workers (cpu_of rt) = [Asleep]" and "tp_notify (cpu_of rt) = 0"
    and "\<not> tp_notify_all (cpu_of rt)"
  shows "cpu_of rt' = cpu_of rt \<or> ev = StopThread"
  using assms(1)
proof cases
  case (cpu pev p)
  then show ?thesis using assms(2) asleep_stays [OF _ assms(3-5)] by (cases pev) auto
next
  case (loop_returns now r)
  then show ?thesis by (simp add: loop_body_keeps)
qed simp_all

lemma hung_step:
  assumes "process_step env engine jwt p ev p'" and "\<not> disturbs ev" and "hung p"
  shows "hung p'"
  using assms(1)
proof cases
  case (heartbeat p1)
  then show ?thesis using assms(3) heartbeat_loop_keeps [of env engine p p1] by (simp add: hung_def)
next
  case main
  then show ?thesis using assms(3) by (auto simp: hung_def main_thread_def stop_step_def all_exited_def split: if_splits)
next
  case (reactor rev rt)
  then show ?thesis using assms(2,3) hung_reactor [of "ps_reactor p" rev rt] reactor_step_stage [of "ps_reactor p" rev rt] by (simp add: hung_def)
qed (use assms(3) in \<open>simp_all add: hung_def on_signal_def service_call_def bus_moves_def\<close>)

text \<open>The way there: the worker finds its queue empty, the signal comes, main stops the pool, and then the worker falls asleep.\<close>

definition to_hang :: "process_event list" where
  "to_hang = [ReactorThread (CpuThreads Worker), ReactorThread (CpuThreads Worker), SignalArrives, MainThread, MainThread, MainThread,
     ReactorThread LoopLeaves, MainThread, MainThread, ReactorThread (CpuThreads Notify), ReactorThread (CpuThreads Worker)]"

lemma reaches_hang: "\<exists>p. runs (process_step env engine jwt) (new_process bus_workers 1 io_workers) to_hang p \<and> hung p \<and> ps_stop p"
proof -
  let ?p0 = "new_process bus_workers 1 io_workers" and ?step = "process_step env engine jwt"
  define pool where "pool = (\<lambda>ws st na. \<lparr>tp_queue = [] :: unit task list, tp_stop = st, tp_workers = ws, tp_notify = 0, tp_notify_all = na, tp_started = []\<rparr>)"
  define P where "P = (\<lambda>m st l run sp c. \<lparr>ps_system = new_system, ps_stop = st, ps_heartbeat = LoopHead, ps_main = m, ps_calls = [],
     ps_reactor = \<lparr>rt_reactor = (new_reactor 1 io_workers)\<lparr>re_running := run, re_cpu_pool := c\<rparr>, rt_loop = l, rt_token = \<not> run, rt_stop = sp\<rparr>,
     ps_bus = start_threads bus_workers new_threads, ps_published = []\<rparr>)"
  note defs = P_def pool_def new_process_def running_threads_def reactor_run_def new_reactor_def new_thread_pool_def
  have start: "?p0 = P Waiting False AtTest True NotCalled (pool [AtLoop] False False)" by (simp add: defs)
  have worker: "?step (P m st l run sp c) (ReactorThread (CpuThreads ev)) (P m st l run sp c')"
    if "pool_step c ev c'" "ev \<noteq> Shutdown" for m st l run sp c c' ev
    using process_step.reactor [OF reactor_step.cpu [of "ps_reactor (P m st l run sp c)" ev c'], of env engine jwt] that
    by (simp add: P_def set_cpu_def)
  have pools: "pool_step (pool [AtLoop] False False) Worker (pool [Locking] False False)"
    "pool_step (pool [Locking] False False) Worker (pool [Deciding] False False)"
    "pool_step (pool [Deciding] True True) Notify (pool [Deciding] True False)"
    "pool_step (pool [Deciding] True False) Worker (pool [Asleep] True False)"
    using pool_step.check [of 0 "pool [AtLoop] False False"] pool_step.decide [of 0 "pool [Locking] False False"]
      pool_step.wake_all [of "pool [Deciding] True True"] pool_step.sleep [of 0 "pool [Deciding] True False"]
    by (simp_all add: pool_def set_worker_def locked_def wake_all_def)
  note w = worker [OF pools(1)] worker [OF pools(2)] worker [OF pools(3)] worker [OF pools(4)]
  have signal: "?step (P Waiting False AtTest True NotCalled c) SignalArrives (P Waiting True AtTest True NotCalled c)" for c
    using process_step.signal [of env engine jwt "P Waiting False AtTest True NotCalled c"] by (simp add: on_signal_def P_def)
  have loop: "?step (P m st AtTest False sp c) (ReactorThread LoopLeaves) (P m st LoopGone False sp c)" for m st sp c
    using process_step.reactor [OF reactor_step.loop_leaves [of "ps_reactor (P m st AtTest False sp c)"], of env engine jwt] by (simp add: P_def)
  let ?c = "pool [Deciding] False False"
  have m: "?step (P Waiting True AtTest True NotCalled ?c) MainThread (P InShutdown True AtTest True NotCalled ?c)"
    "?step (P InShutdown True AtTest True NotCalled ?c) MainThread (P StoppingReactor True AtTest True NotCalled ?c)"
    "?step (P StoppingReactor True AtTest True NotCalled ?c) MainThread (P StoppingReactor True AtTest False JoiningLoop ?c)"
    "?step (P StoppingReactor True LoopGone False JoiningLoop ?c) MainThread (P StoppingReactor True LoopGone False StoppingCpu ?c)"
    "?step (P StoppingReactor True LoopGone False StoppingCpu ?c) MainThread
       (P StoppingReactor True LoopGone False JoiningCpu (pool [Deciding] True True))"
    by (rule process_step.main; simp add: defs main_thread_def stop_step_def set_cpu_def request_stop_def)+
  have "runs ?step ?p0 to_hang (P StoppingReactor True LoopGone False JoiningCpu (pool [Asleep] True False))"
    unfolding start to_hang_def by (rule w signal loop m runs.intros; simp?)+
  moreover have "hung (P StoppingReactor True LoopGone False JoiningCpu (pool [Asleep] True False))" by (simp add: hung_def P_def pool_def)
  moreover have "ps_stop (P StoppingReactor True LoopGone False JoiningCpu (pool [Asleep] True False))" by (simp add: P_def)
  ultimately show ?thesis by blast
qed

text \<open>
  C13. The shutdown can hang. With one worker in the pool of the reactor there is a run in which the stop flag is set just after the worker has found
  its queue empty and just before it sleeps. From then on, whatever the threads, the calls, the clients and further signals do, the main thread
  stays in its join, unless somebody submits a task to the stopped pool or the condition variable wakes the worker without a reason.
\<close>

theorem process_can_hang:
  "\<exists>evs p. runs (process_step env engine jwt) (new_process bus_workers 1 io_workers) evs p \<and> ps_stop p \<and>
     (\<forall>evs' p'. runs (process_step env engine jwt) p evs' p' \<and> list_all (\<lambda>ev. \<not> disturbs ev) evs' \<longrightarrow> ps_main p' = StoppingReactor)"
proof -
  obtain p where p: "runs (process_step env engine jwt) (new_process bus_workers 1 io_workers) to_hang p" "hung p" "ps_stop p"
    using reaches_hang by blast
  have "hung p'" if "runs (process_step env engine jwt) p evs' p'" "list_all (\<lambda>ev. \<not> disturbs ev) evs'" for evs' p'
    using that p(2) by (rule runs_invariant_kind [where P = hung]) (auto intro: hung_step)
  then show ?thesis using p by (intro exI [of _ to_hang] exI [of _ p]) (auto simp: hung_def)
qed

theorem process_can_hang_witness:
  "\<exists>evs p. runs (process_step example_env example_engine None) (new_process 1 1 2) evs p \<and> ps_stop p \<and> ps_main p = StoppingReactor"
proof -
  let ?step = "process_step example_env example_engine None"
  obtain evs p where p: "runs ?step (new_process 1 1 2) evs p" "ps_stop p"
      "\<forall>evs' p'. runs ?step p evs' p' \<and> list_all (\<lambda>ev. \<not> disturbs ev) evs' \<longrightarrow> ps_main p' = StoppingReactor"
    using process_can_hang [of example_env example_engine None 1 2] by auto
  have "ps_main p = StoppingReactor" using p(3) [rule_format, of "[]" p] by (simp add: runs.Nil)
  then show ?thesis using p(1,2) by blast
qed

end
