(* ===== verification/Refusal_Log.thy ===== *)
theory Refusal_Log
  imports Process_End
begin

text \<open>
  What becomes of the requests that a tick refuses, because of back-pressure or because there is no session: nobody answers their clients, but each refusal is
  published on the bus, and the event logger writes it down when a worker of the bus has handled it. Here the tick (\<open>Heartbeat\<close>), the inbox and its
  workers (\<open>Bus_Inbox\<close>) and the logger (\<open>Observability\<close>) meet in the running process (\<open>Lifecycle\<close>).
\<close>

section \<open>A tick publishes refusals and logs nothing\<close>

definition refusal :: "event_type \<times> bus_event \<Rightarrow> bool" where
  "refusal x \<longleftrightarrow> fst x = T_WsFrameSendFailed"

definition only_refusals :: "server \<Rightarrow> bool" where
  "only_refusals st \<longleftrightarrow> list_all refusal (inbox (hb_bus st))"

text \<open>What a handler may do to log and bus.\<close>

definition reports :: "server \<Rightarrow> server \<Rightarrow> bool" where
  "reports st st' \<longleftrightarrow> hb_log st' = hb_log st \<and> (only_refusals st \<longrightarrow> only_refusals st')"

lemma reports_same: "hb_log st' = hb_log st \<Longrightarrow> hb_bus st' = hb_bus st \<Longrightarrow> reports st st'"
  by (simp add: reports_def only_refusals_def)

lemma reports_refl [simp]: "reports st st"
  by (simp add: reports_def)

lemma reports_trans [trans]: "reports st st' \<Longrightarrow> reports st' st'' \<Longrightarrow> reports st st''"
  by (simp add: reports_def)

lemma reports_fold: "(\<And>x st. reports st (f x st)) \<Longrightarrow> reports st (fold f xs st)"
  by (induction xs arbitrary: st) (auto intro: reports_trans)

lemma report_frame [simp]:
  "hb_log (upd_pending f st) = hb_log st" "hb_log (upd_pool g st) = hb_log st" "hb_log (upd_metrics h st) = hb_log st"
  "hb_log (change_session i st) = hb_log st" "hb_log (change_request i st) = hb_log st"
  "hb_log (add_client_write w st) = hb_log st" "hb_log (add_local_job j st) = hb_log st" "hb_log (add_ws_frame fr st) = hb_log st"
  "hb_log (add_close c st) = hb_log st" "hb_log (hb_publish_async e st) = hb_log st"
  "hb_log (snd (read_steady env st)) = hb_log st" "hb_log (snd (read_clock env st)) = hb_log st"
  "hb_log (snd (acquire_or_create_session env st)) = hb_log st" "hb_log (bind_request env r k q st) = hb_log st"
  by (simp_all add: upd_defs builder_defs hb_publish_async_def acquire_or_create_session_def bind_request_def
      split_beta Let_def split: option.split)

lemma bus_frame [simp]:
  "hb_bus (upd_pending f st) = hb_bus st" "hb_bus (upd_pool g st) = hb_bus st" "hb_bus (upd_metrics h st) = hb_bus st"
  "hb_bus (change_session i st) = hb_bus st" "hb_bus (change_request i st) = hb_bus st"
  "hb_bus (add_client_write w st) = hb_bus st" "hb_bus (add_local_job j st) = hb_bus st" "hb_bus (add_ws_frame fr st) = hb_bus st"
  "hb_bus (add_close c st) = hb_bus st"
  "hb_bus (snd (read_steady env st)) = hb_bus st" "hb_bus (snd (read_clock env st)) = hb_bus st"
  "hb_bus (snd (acquire_or_create_session env st)) = hb_bus st" "hb_bus (bind_request env r k q st) = hb_bus st"
  by (simp_all add: upd_defs builder_defs acquire_or_create_session_def bind_request_def split_beta Let_def split: option.split)

lemma reports_publish: "reports st (hb_publish_async (WsFrameSendFailedEvent rid reason) st)"
  by (simp add: reports_def only_refusals_def hb_publish_async_def inbox_publish_async refusal_def)

lemma report_folds [simp]:
  "hb_log (fold (fail_pending rsp) ids st) = hb_log st" "hb_log (fold drop_pending ids st) = hb_log st"
  "hb_bus (fold (fail_pending rsp) ids st) = hb_bus st" "hb_bus (fold drop_pending ids st) = hb_bus st"
  "hb_log (fold add_close cs st) = hb_log st"
  by (induction ids arbitrary: st, simp_all add: fail_pending_def drop_pending_def Let_def) (induction cs arbitrary: st, simp_all)

lemma reports_request: "reports st (handle_request env r st)"
proof -
  have "reports st (hb_publish_async (WsFrameSendFailedEvent rid reason) st')" if "hb_log st' = hb_log st" "hb_bus st' = hb_bus st" for st' rid reason
    using reports_trans [OF reports_same [OF that] reports_publish] .
  then show ?thesis
    by (auto simp: handle_request_def handle_request_local_def handle_request_upstream_def open_local_pending_def split_beta Let_def
        intro!: reports_same split: option.split)
qed

lemma reports_message: "reports st (handle_message env m st)"
  by (cases m) (auto simp: reports_request handle_response_def handle_local_complete_def handle_local_failed_def handle_cancel_def split_beta Let_def
      intro!: reports_same split: option.split ws_event_kind.split)

lemma reports_emit: "reports st (emit_completed i st)"
  by (rule reports_same) (simp_all add: emit_completed_def Let_def split: option.split)

lemma reports_finish:
  assumes "wired (hb_bus st)"
  shows "reports st (finish_tick env t n cs st)"
proof -
  have g: "ob_log (gate_on_tick e s) = ob_log s" for e s by (cases e) simp_all
  have "wired (hb_bus (st\<lparr>hb_last_duration_us := a, hb_count := b\<rparr>))" for a b using assms by simp
  then show ?thesis using assms
    by (intro reports_same) (simp_all add: finish_tick_def hb_publish_sync_def Let_def split_beta, simp_all add: upd_defs publish_sync_effect g)
qed

lemma reports_tick:
  assumes "server_ok st"
  shows "reports st (snd (tick env st))"
proof -
  let ?e = "run_evolution env (after_emit env st)"
  have "reports st (tick_start env st)" by (rule reports_same) (simp_all add: tick_start_def drain_batch_result)
  also have "reports (tick_start env st) (after_batch env st)" unfolding after_batch_def by (rule reports_fold) (rule reports_message)
  also have "reports (after_batch env st) (after_emit env st)" unfolding after_emit_def by (rule reports_fold) (rule reports_emit)
  also have "reports (after_emit env st) (?e\<lparr>hb_changeset := empty_change_set\<rparr>)"
    by (rule reports_same) (simp_all add: run_evolution_def split_beta Let_def)
  also have "reports (?e\<lparr>hb_changeset := empty_change_set\<rparr>) (snd (tick env st))"
    unfolding tick_phases(2) using ok_phases(3) [OF assms] by (intro reports_finish) (simp add: server_ok_def)
  finally show ?thesis .
qed

text \<open>The two kinds of refusals: each is published with the id of the request, and leaves no trace in what the tick will answer.\<close>

lemma denied_published:
  assumes "\<not> admit (fst (bp_evaluate (env_backpressure env) (metrics_of st)))"
  shows "inbox (hb_bus (handle_request env r st)) =
      inbox (hb_bus st) @ [(T_WsFrameSendFailed, WsFrameSendFailedEvent (rq_request_id r) ''backpressure_admission_denied'')]"
    and "hb_changeset (handle_request env r st) = hb_changeset st" and "pending_of (handle_request env r st) = pending_of st"
  using assms by (simp_all add: handle_request_def split_beta Let_def hb_publish_async_def inbox_publish_async)

lemma no_session_published:
  assumes "sh_session_id (fst (acquire_or_create_session env st)) = []"
  shows "inbox (hb_bus (handle_request_upstream env r st)) =
      inbox (hb_bus st) @ [(T_WsFrameSendFailed, WsFrameSendFailedEvent (rq_request_id r) ''no_session_available'')]"
  using assms by (simp add: handle_request_upstream_def split_beta Let_def hb_publish_async_def inbox_publish_async)

section \<open>The bus of the process\<close>

lemma pushes_run: "\<not> inbox_locked b \<Longrightarrow> runs inbox_step b (map Publish xs) (fold inbox_push xs b)"
proof (induction xs arbitrary: b)
  case (Cons x xs)
  then have "\<not> inbox_locked (inbox_push x b)" by (simp add: inbox_locked_def inbox_push_def pcs_def)
  then show ?case using Cons by (auto intro: runs.Cons inbox_step.publish)
qed (simp add: runs.Nil)

lemma pushes_queue [simp]:
  "ib_queue (fold inbox_push xs b) = ib_queue b @ xs" "ib_taken (fold inbox_push xs b) = ib_taken b" "ib_run (fold inbox_push xs b) = ib_run b"
  by (induction xs arbitrary: b) (simp_all add: inbox_push_def)

text \<open>Until main returns, the inbox is a state that the bus reaches on its own; it is closed exactly when main has stopped the bus.\<close>

definition bus_reached :: "nat \<Rightarrow> process \<Rightarrow> bool" where
  "bus_reached n p \<longleftrightarrow>
     (case ps_main p of
        DeletingWorkers \<Rightarrow> ib_stop (inbox_of p)
      | Returned _ \<Rightarrow> ib_stop (inbox_of p)
      | _ \<Rightarrow> bt_running (ps_bus p) \<and> \<not> ib_stop (inbox_of p)) \<and>
     ((\<forall>c. ps_main p \<noteq> Returned c) \<longrightarrow> (\<exists>bevs. runs inbox_step (started_inbox n) bevs (inbox_of p)))"

lemma bus_reached_new: "bus_reached n (new_process n cpu_workers io_workers)"
  by (auto simp: bus_reached_def new_process_def start_new_threads intro: runs.Nil) (simp_all add: start_threads_def new_threads_def started_inbox_def)

lemma bus_reached_move:
  assumes "bus_reached n p" and "ps_main p' = ps_main p" and "bt_running (ps_bus p') = bt_running (ps_bus p)"
    and "ib_stop (inbox_of p') = ib_stop (inbox_of p)" and "\<exists>bevs. runs inbox_step (inbox_of p) bevs (inbox_of p')"
  shows "bus_reached n p'"
  using assms by (auto simp: bus_reached_def intro: runs_append split: main_pc.splits)

lemma own_step_stop: "inbox_step b ev b' \<Longrightarrow> own_bus_event ev \<Longrightarrow> ib_stop b' = ib_stop b"
  by (erule inbox_step_cases) (auto simp: inbox_defs)

lemma bus_reached_main:
  assumes "bus_reached n p" and "main_thread p = Some p'"
  shows "bus_reached n p'"
proof (cases "ps_main p")
  case StoppingBus
  then have p': "p' = p\<lparr>ps_bus := stop_threads (ps_bus p), ps_main := DeletingWorkers\<rparr>" using assms(2) by (simp add: main_thread_def)
  have "bt_running (ps_bus p)" "\<not> ib_stop (inbox_of p)" using assms(1) StoppingBus by (simp_all add: bus_reached_def)
  moreover from this have "runs inbox_step (inbox_of p) [CloseInbox] (inbox_close (inbox_of p))" by (blast intro: runs.intros inbox_step.close)
  ultimately show ?thesis using assms(1) StoppingBus
    by (auto simp: bus_reached_def p' stop_threads_def intro: runs_append) (simp add: inbox_close_def)
next
  case DeletingWorkers
  then show ?thesis using assms by (auto simp: bus_reached_def main_thread_def clear_threads_def split: if_splits)
qed (use assms in \<open>auto simp: bus_reached_def main_thread_def split: if_splits option.splits\<close>)

lemma bus_reached_step:
  assumes "process_step env engine jwt p ev p'" and "bus_reached n p"
  shows "bus_reached n p'"
  using assms(1)
proof cases
  case (heartbeat p1)
  have k: "ps_bus p1 = ps_bus p" "ps_main p1 = ps_main p" using heartbeat_loop_keeps [of env engine p p1] heartbeat by simp_all
  have "\<exists>bevs. runs inbox_step (inbox_of p) bevs (inbox_of (publish_events p1))"
    using heartbeat(5) pushes_run [of "inbox_of p"] runs.Nil by (fastforce simp: publish_events_def k)
  then show ?thesis using heartbeat k by (intro bus_reached_move [OF assms(2)]) (simp_all add: publish_events_def)
next
  case main
  then show ?thesis using bus_reached_main [OF assms(2)] by simp
next
  case (bus bev b)
  then have "runs inbox_step (inbox_of p) [bev] b" by (blast intro: runs.intros)
  then show ?thesis using bus own_step_stop by (intro bus_reached_move [OF assms(2)]) (auto simp: bus_moves_def)
qed (use bus_reached_move [OF assms(2), of p'] runs.Nil in \<open>force simp: on_signal_def service_call_def\<close>)+

lemma bus_run_reached:
  assumes "runs (process_step env engine jwt) (new_process n cpu_workers io_workers) evs p"
  shows "bus_reached n p"
  using assms bus_reached_new by (rule runs_invariant [where P = "bus_reached n"]) (rule bus_reached_step)

lemma bus_accounted:
  assumes "bus_reached n p" and "\<forall>c. ps_main p \<noteq> Returned c"
  shows "mset (ib_taken (inbox_of p)) = mset (ib_run (inbox_of p)) + in_hands (inbox_of p)"
  using assms inbox_run_accounted by (auto simp: bus_reached_def)

section \<open>The log follows the bus\<close>

definition log_ok :: "process \<Rightarrow> bool" where
  "log_ok p \<longleftrightarrow> hb_log (server_of p) = map snd (ib_run (inbox_of p)) \<and> list_all refusal (ib_taken (inbox_of p) @ ib_queue (inbox_of p)) \<and>
     ps_published p = ib_taken (inbox_of p) @ ib_queue (inbox_of p)"

lemma handle_event_log:
  assumes "wired (hb_bus st)" and "refusal x"
  shows "hb_log (handle_event x st) = hb_log st @ [snd x]"
proof -
  have "dispatch_sync (hb_bus st) T_WsFrameSendFailed e s = log_event e (collect_send_failed e s)" for e s
    unfolding dispatch_bucket wired_bucket [OF assms(1)] by (simp add: observability_bus_def wire_defs bucket_subscribe bucket_new)
  then show ?thesis using assms(2) by (simp add: handle_event_def refusal_def Let_def)
qed

lemma held_in_hands: "Holding x \<in> set ps \<Longrightarrow> x \<in># sum_list (map held ps)"
  by (induction ps) auto

lemma inbox_step_runs:
  assumes "inbox_step b ev b'"
  shows "ib_run b' = ib_run b \<or> (\<exists>x. ib_run b' = ib_run b @ [x] \<and> x \<in># in_hands b)"
  using assms
proof cases
  case (run i x)
  then have "Holding x \<in> set (pcs b)" using pc_is_nth [of i b] by (metis nth_mem)
  then have "x \<in># in_hands b" unfolding in_hands_def by (rule held_in_hands)
  then show ?thesis using run by simp
qed (simp_all add: inbox_defs)

lemma own_step_published: "inbox_step b ev b' \<Longrightarrow> own_bus_event ev \<Longrightarrow> ib_taken b' @ ib_queue b' = ib_taken b @ ib_queue b"
  using inbox_step_fifo [of b ev b'] by (cases ev) simp_all

lemma log_ok_bus:
  assumes "log_ok p" and "inbox_step (inbox_of p) ev b" and "own_bus_event ev" and "wired (hb_bus (server_of p))"
    and "mset (ib_taken (inbox_of p)) = mset (ib_run (inbox_of p)) + in_hands (inbox_of p)"
  shows "log_ok (bus_moves b p)"
proof -
  have refusals: "list_all refusal (ib_taken b @ ib_queue b)"
    using assms(1) own_step_published [OF assms(2,3)] by (simp add: log_ok_def)
  have "x \<in># in_hands (inbox_of p) \<Longrightarrow> x \<in># mset (ib_taken (inbox_of p))" for x using assms(5) by simp
  then have "x \<in># in_hands (inbox_of p) \<Longrightarrow> refusal x" for x
    using assms(1) by (auto simp: log_ok_def list_all_iff)
  then show ?thesis
    using inbox_step_runs [OF assms(2)] own_step_published [OF assms(2,3)] refusals assms(1,4) by (auto simp: log_ok_def bus_moves_def handle_event_log)
qed

lemma log_ok_heartbeat:
  assumes "log_ok p" and "process_ok engine p" and "heartbeat_loop env engine p = Inr p'"
  shows "log_ok (publish_events p')"
proof -
  have k: "ps_bus p' = ps_bus p" "ps_published p' = ps_published p" using heartbeat_loop_keeps [OF assms(3)] by simp_all
  have "reports (server_of p) (server_of p')"
    using assms(2,3) reports_tick [of "server_of p" env]
    by (auto simp: heartbeat_loop_def heartbeat_step_def process_ok_def system_ok_def quiet_def split_beta Let_def
        intro: reports_same split: hb_loop.splits hb_pc.splits list.splits sum.splits)
  moreover have "only_refusals (server_of p)" using assms(2) by (simp add: process_ok_def only_refusals_def)
  ultimately show ?thesis
    using assms(1) by (simp add: log_ok_def reports_def only_refusals_def publish_events_def k)
qed

lemma main_thread_bus: "main_thread p = Some p' \<Longrightarrow> ib_run (inbox_of p') = ib_run (inbox_of p) \<and> ps_published p' = ps_published p \<and>
     ib_taken (inbox_of p') = ib_taken (inbox_of p) \<and> ib_queue (inbox_of p') = ib_queue (inbox_of p)"
  by (auto simp: main_thread_def stop_threads_def clear_threads_def inbox_close_def split: main_pc.splits if_splits option.splits)

lemma call_step_log [simp]: "hb_log (sy_server (call_step jwt op s)) = hb_log (sy_server s)"
  by (simp add: call_step_def split: prod.split)

text \<open>The invariants of the process together, until main has returned.\<close>

definition bus_ok :: "local_engine \<Rightarrow> nat \<Rightarrow> process \<Rightarrow> bool" where
  "bus_ok engine n p \<longleftrightarrow> process_ok engine p \<and> bus_reached n p \<and> ((\<forall>c. ps_main p \<noteq> Returned c) \<longrightarrow> log_ok p)"

lemma log_ok_same:
  "log_ok p \<Longrightarrow> hb_log (server_of p') = hb_log (server_of p) \<Longrightarrow> ib_run (inbox_of p') = ib_run (inbox_of p) \<Longrightarrow>
     ps_published p' = ps_published p \<Longrightarrow> ib_taken (inbox_of p') = ib_taken (inbox_of p) \<Longrightarrow> ib_queue (inbox_of p') = ib_queue (inbox_of p) \<Longrightarrow>
     log_ok p'"
  by (simp add: log_ok_def)

lemma log_ok_step:
  assumes "process_step env engine jwt p ev p'" and "process_ok engine p" and "bus_reached n p" and "log_ok p" and "\<forall>c. ps_main p \<noteq> Returned c"
  shows "log_ok p'"
  using assms(1)
proof cases
  case (heartbeat p1)
  then show ?thesis using log_ok_heartbeat [OF assms(4,2)] by simp
next
  case main
  then show ?thesis using main_thread_bus [of p p'] main_thread_keeps [of p p'] by (intro log_ok_same [OF assms(4)]) simp_all
next
  case (bus bev b)
  have "wired (hb_bus (server_of p))" using assms(2) by (simp add: process_ok_def system_ok_def quiet_def server_ok_def)
  then show ?thesis using bus log_ok_bus [OF assms(4) _ _ _ bus_accounted [OF assms(3,5)]] by simp
qed (use log_ok_same [OF assms(4), of p'] in \<open>simp_all add: on_signal_def service_call_def\<close>)

lemma returned_stays: "process_step env engine jwt p ev p' \<Longrightarrow> ps_main p = Returned c \<Longrightarrow> ps_main p' = Returned c"
  by (erule process_step_cases)
    (auto simp: on_signal_def service_call_def bus_moves_def main_thread_def dest: heartbeat_loop_keeps)

lemma bus_ok_step: "process_step env engine jwt p ev p' \<Longrightarrow> bus_ok engine n p \<Longrightarrow> bus_ok engine n p'"
  unfolding bus_ok_def using process_step_ok bus_reached_step log_ok_step returned_stays by metis

lemma bus_ok_run:
  assumes "runs (process_step env engine jwt) (new_process n cpu_workers io_workers) evs p"
  shows "bus_ok engine n p"
proof -
  have "log_ok (new_process n cpu_workers io_workers)"
    by (simp add: log_ok_def new_process_def start_new_threads) (simp add: new_system_def new_server_def started_inbox_def)
  then have "bus_ok engine n (new_process n cpu_workers io_workers)" by (simp add: bus_ok_def process_ok_new bus_reached_new)
  with assms show ?thesis by (rule runs_invariant [where P = "bus_ok engine n"]) (rule bus_ok_step)
qed

text \<open>A run of the bus is a run of the process.\<close>

lemma bus_run_lifts:
  assumes "runs inbox_step b bevs b'" and "list_all own_bus_event bevs" and "b = inbox_of p"
  shows "\<exists>p'. runs (process_step env engine jwt) p (map BusThread bevs) p' \<and> inbox_of p' = b' \<and> ps_published p' = ps_published p"
  using assms
proof (induction arbitrary: p rule: runs.induct)
  case (Nil b)
  then show ?case by (auto intro: runs.Nil)
next
  case (Cons b ev b1 bevs b')
  let ?p1 = "bus_moves b1 p"
  have step: "process_step env engine jwt p (BusThread ev) ?p1" using Cons.hyps(1) Cons.prems by (intro process_step.bus) simp_all
  have "ps_published ?p1 = ps_published p"
    using own_step_published [OF Cons.hyps(1)] Cons.prems by (simp add: bus_moves_def)
  moreover obtain p' where "runs (process_step env engine jwt) ?p1 (map BusThread bevs) p'" "inbox_of p' = b'" "ps_published p' = ps_published ?p1"
    using Cons.IH [of ?p1] Cons.prems(1) by (auto simp: bus_moves_def)
  ultimately show ?case using step by (intro exI [of _ p']) (auto intro: runs.Cons)
qed

lemma progress_own: "list_all inbox_progress bevs \<Longrightarrow> list_all own_bus_event bevs"
  by (induction bevs) (auto simp: inbox_progress_def)

lemma not_stopped_not_returned: "bus_reached n p \<Longrightarrow> \<not> ib_stop (inbox_of p) \<Longrightarrow> \<forall>c. ps_main p \<noteq> Returned c"
  by (auto simp: bus_reached_def)

lemma rest_log_complete:
  assumes "bus_ok engine n p" and "0 < n" and "\<not> ib_stop (inbox_of p)" and "inbox_rests (inbox_of p)"
  shows "mset (hb_log (server_of p)) = mset (map snd (ps_published p))"
proof -
  have reached: "bus_reached n p" and up: "\<forall>c. ps_main p \<noteq> Returned c" and log: "log_ok p"
    using assms(1,3) not_stopped_not_returned by (auto simp: bus_ok_def)
  obtain bevs where "runs inbox_step (started_inbox n) bevs (inbox_of p)" using reached up by (auto simp: bus_reached_def)
  then have "ib_queue (inbox_of p) = []" using rests_queue_empty [OF inbox_run_ok assms(3,4)] assms(2) by blast
  moreover have "mset (ib_taken (inbox_of p)) = mset (ib_run (inbox_of p))" using bus_accounted [OF reached up] rests_hands [OF assms(4)] by simp
  ultimately show ?thesis using log by (simp add: log_ok_def)
qed

text \<open>With one worker, which is the default, the events are run in the order in which they are taken.\<close>

definition one_worker :: "'x inbox \<Rightarrow> bool" where
  "one_worker b \<longleftrightarrow> length (ib_workers b) = 1 \<and> ib_taken b = ib_run b @ (case hd (pcs b) of Holding x \<Rightarrow> [x] | _ \<Rightarrow> [])"

lemma single_step:
  assumes "inbox_step b ev b'" and "one_worker b"
  shows "one_worker b'"
proof -
  obtain pc tok where w: "ib_workers b = [(pc, tok)]" using assms(2) by (cases "ib_workers b") (auto simp: one_worker_def)
  then have t: "ib_taken b = ib_run b @ (case pc of Holding x \<Rightarrow> [x] | _ \<Rightarrow> [])" using assms(2) by (simp add: one_worker_def pcs_def)
  show ?thesis
    using assms(1) by cases (use w t in \<open>simp_all add: one_worker_def set_pc_def set_token_def inbox_defs pcs_def split: bus_pc.split_asm\<close>)
qed

lemma single_run: "runs inbox_step (started_inbox 1) bevs b \<Longrightarrow> one_worker b"
  by (erule runs_invariant [where P = one_worker]) (simp add: one_worker_def started_inbox_def pcs_def, rule single_step)

text \<open>A run with a refusal: the first request of a server whose high watermark is zero.\<close>

lemma tick_bus: "hb_bus (snd (tick env st)) = hb_bus (after_batch env st)"
proof -
  have "hb_bus (emit_completed i st) = hb_bus st" for i st by (simp add: emit_completed_def Let_def split: option.split)
  then have "hb_bus (fold emit_completed ids st) = hb_bus st" for ids st by (induction ids arbitrary: st) simp_all
  then show ?thesis by (simp add: tick_phases(2) after_emit_def finish_tick_def hb_publish_sync_def split_beta Let_def)
qed

lemma denied_run:
  assumes "\<And>m. \<not> admit (fst (bp_evaluate (env_backpressure env) m))"
  shows "\<exists>evs p. runs (process_step env engine None) (new_process 1 2 4) evs p \<and> \<not> ib_stop (inbox_of p) \<and>
    ps_published p = [(T_WsFrameSendFailed, WsFrameSendFailedEvent (request_id ''strm'' 1) ''backpressure_admission_denied'')]"
proof -
  let ?p0 = "new_process 1 2 4" and ?step = "process_step env engine None"
  have a: "acceptable_audio (sp_audio empty_request)" by (simp add: acceptable_audio_def empty_request_def)
  obtain r where r: "stream_submit None [] empty_request (new_service, new_channel) =
      (Inr (request_id ''strm'' 1), new_service\<lparr>sv_counter := sv_counter new_service + 1\<rparr>, new_channel\<lparr>buffer := [ReqMsg r]\<rparr>)"
      "rq_request_id r = request_id ''strm'' 1"
    using stream_submit_accepts [of None "[]", OF _ a, of new_channel new_service] by (auto simp: check_auth_def new_channel_def new_service_def)
  let ?st = "new_server\<lparr>hb_request_channel := new_channel\<lparr>buffer := [ReqMsg r]\<rparr>\<rparr>"
  let ?p1 = "service_call None (Submit [] empty_request) ?p0"
  let ?p2 = "publish_events (?p1\<lparr>ps_heartbeat := InBody\<rparr>)"
  have st: "server_of ?p1 = ?st" "sy_pc (ps_system ?p1) = AtTick"
    using r(1) by (simp_all add: service_call_def call_step_def new_process_def new_system_def new_server_def)
  have i: "inbox (hb_bus ?st) = []" using process_ok_new [of engine 1 2 4] by (simp add: process_ok_def new_process_def new_system_def)
  then have same: "(hb_bus ?st)\<lparr>inbox := []\<rparr> = hb_bus ?st" by simp
  have "tick_batch ?st = [ReqMsg r]" by (simp add: tick_batch_def new_server_def new_channel_def)
  then have t: "inbox (hb_bus (snd (tick env ?st))) =
      [(T_WsFrameSendFailed, WsFrameSendFailedEvent (request_id ''strm'' 1) ''backpressure_admission_denied'')]"
    using i denied_published(1) [OF assms, of r "tick_start env ?st"] by (simp add: tick_bus after_batch_def r(2))
  have f: "ps_heartbeat ?p1 = LoopHead" "\<not> ps_stop ?p1" "inbox_of ?p1 = started_inbox 1" "ps_published ?p1 = []"
    by (simp_all add: service_call_def new_process_def start_new_threads)
  have s1: "?step ?p0 (ServiceCall (Submit [] empty_request)) ?p1" by (rule process_step.call) (simp add: new_process_def)
  have s2: "?step ?p1 HeartbeatThread ?p2" by (rule process_step.heartbeat) (use f st i in \<open>simp_all add: heartbeat_loop_def\<close>)
  have p2: "server_of ?p2 = ?st" "sy_pc (ps_system ?p2) = AtTick" "ps_heartbeat ?p2 = InBody" "inbox_of ?p2 = started_inbox 1" "ps_published ?p2 = []"
    using f st i same by (simp_all add: publish_events_def)
  obtain p3 where p3: "heartbeat_loop env engine ?p2 = Inr p3" "server_of p3 = snd (tick env ?st)" "ps_bus p3 = ps_bus ?p2" "ps_published p3 = ps_published ?p2"
    using p2 by (auto simp: heartbeat_loop_def heartbeat_step_def split_beta)
  have s3: "?step ?p2 HeartbeatThread (publish_events p3)"
    by (rule process_step.heartbeat) (use p2 p3 in \<open>simp_all add: inbox_locked_def started_inbox_def pcs_def\<close>)
  have "runs ?step ?p0 [ServiceCall (Submit [] empty_request), HeartbeatThread, HeartbeatThread] (publish_events p3)"
    using s1 s2 s3 by (blast intro: runs.intros)
  moreover have "\<not> ib_stop (inbox_of (publish_events p3))" "ps_published (publish_events p3) =
      [(T_WsFrameSendFailed, WsFrameSendFailedEvent (request_id ''strm'' 1) ''backpressure_admission_denied'')]"
    using p2 p3 t by (simp_all add: publish_events_def started_inbox_def inbox_push_def)
  ultimately show ?thesis by blast
qed

section \<open>Properties\<close>



end
