(* ===== verification/Channel_Threads.thy ===== *)
theory Channel_Threads
  imports Copy_Channel
begin

text \<open>
  The threads that wait in a channel, \<^verbatim>\<open>src/framework/copy_channel.h\<close>, with the channel's mutex and condition variable. A receiver is a call of \<^verbatim>\<open>recv\<close>, with
  or without a timeout: it tests the predicate under the mutex and, if it finds it false, holds the mutex until it sleeps (\<open>RcvDecided\<close>). A timed
  receiver whose time is over tests the predicate a last time (\<open>RcvExpired\<close>). Senders and the closing thread change the state under the mutex and notify
  after they have released it; \<open>ct_notify\<close> and \<open>ct_notify_all\<close> are the notifications under way. \<open>ct_accepted\<close> and \<open>ct_taken\<close> record, for the
  properties, what was sent and what was taken out.
\<close>

section \<open>States and steps\<close>

datatype 'a receiver = RcvEnter | RcvDecided | RcvAsleep | RcvExpired | RcvReturned "'a option"

record 'a channel_threads =
  ct_channel :: "'a copy_channel"
  ct_receivers :: "(bool \<times> 'a receiver) list"
  ct_notify :: nat
  ct_notify_all :: bool
  ct_accepted :: "'a list"
  ct_taken :: "'a list"

definition new_channel_threads :: "'a channel_threads" where
  "new_channel_threads = \<lparr>ct_channel = new_channel, ct_receivers = [], ct_notify = 0, ct_notify_all = False, ct_accepted = [], ct_taken = []\<rparr>"

definition mutex_held :: "'a channel_threads \<Rightarrow> bool" where
  "mutex_held c \<longleftrightarrow> RcvDecided \<in> snd ` set (ct_receivers c)"

definition move_receiver :: "nat \<Rightarrow> 'a receiver \<Rightarrow> 'a channel_threads \<Rightarrow> 'a channel_threads" where
  "move_receiver i r c = c\<lparr>ct_receivers := (ct_receivers c)[i := (fst (ct_receivers c ! i), r)]\<rparr>"

definition receiver_returns :: "nat \<Rightarrow> 'a option \<times> 'a copy_channel \<Rightarrow> 'a channel_threads \<Rightarrow> 'a channel_threads" where
  "receiver_returns i res c = move_receiver i (RcvReturned (fst res))
     (c\<lparr>ct_channel := snd res, ct_taken := ct_taken c @ (case fst res of None \<Rightarrow> [] | Some v \<Rightarrow> [v])\<rparr>)"

definition wake_receivers :: "'a channel_threads \<Rightarrow> 'a channel_threads" where
  "wake_receivers c = c\<lparr>ct_notify_all := False,
     ct_receivers := map (\<lambda>(timed, r). (timed, case r of RcvAsleep \<Rightarrow> RcvEnter | _ \<Rightarrow> r)) (ct_receivers c)\<rparr>"

abbreviation receiver_is :: "'a channel_threads \<Rightarrow> nat \<Rightarrow> 'a receiver \<Rightarrow> bool" where
  "receiver_is c i r \<equiv> i < length (ct_receivers c) \<and> snd (ct_receivers c ! i) = r"

datatype 'a channel_event =
  CallRecv bool | ChSend 'a | ChTrySend 'a | ChSwapOut | ChClose | ChNotify | ChReceiver | ChTimeout | ChSpurious

inductive channel_step :: "'a channel_threads \<Rightarrow> 'a channel_event \<Rightarrow> 'a channel_threads \<Rightarrow> bool" where
  call_recv: "channel_step c (CallRecv timed) (c\<lparr>ct_receivers := ct_receivers c @ [(timed, RcvEnter)]\<rparr>)"
| sends: "\<not> mutex_held c \<Longrightarrow> send v (ct_channel c) = Inr ch \<Longrightarrow>
    channel_step c (ChSend v) (c\<lparr>ct_channel := ch, ct_notify := ct_notify c + 1, ct_accepted := ct_accepted c @ [v]\<rparr>)"
| send_throws: "\<not> mutex_held c \<Longrightarrow> send v (ct_channel c) = Inl ChannelClosed \<Longrightarrow> channel_step c (ChSend v) c"
| tries: "\<not> mutex_held c \<Longrightarrow> try_send v (ct_channel c) = (True, ch) \<Longrightarrow>
    channel_step c (ChTrySend v) (c\<lparr>ct_channel := ch, ct_notify := ct_notify c + 1, ct_accepted := ct_accepted c @ [v]\<rparr>)"
| try_fails: "\<not> mutex_held c \<Longrightarrow> try_send v (ct_channel c) = (False, ch) \<Longrightarrow> channel_step c (ChTrySend v) (c\<lparr>ct_channel := ch\<rparr>)"
| swaps: "\<not> mutex_held c \<Longrightarrow> swap_out_all [] (ct_channel c) = (vs, ch) \<Longrightarrow>
    channel_step c ChSwapOut (c\<lparr>ct_channel := ch, ct_taken := ct_taken c @ vs\<rparr>)"
| closes: "\<not> mutex_held c \<Longrightarrow> channel_step c ChClose (c\<lparr>ct_channel := close (ct_channel c), ct_notify_all := True\<rparr>)"
| wakes: "0 < ct_notify c \<Longrightarrow> receiver_is c i RcvAsleep \<Longrightarrow>
    channel_step c ChNotify (move_receiver i RcvEnter (c\<lparr>ct_notify := ct_notify c - 1\<rparr>))"
| wakes_none: "0 < ct_notify c \<Longrightarrow> RcvAsleep \<notin> snd ` set (ct_receivers c) \<Longrightarrow> channel_step c ChNotify (c\<lparr>ct_notify := ct_notify c - 1\<rparr>)"
| wakes_all: "ct_notify_all c \<Longrightarrow> channel_step c ChNotify (wake_receivers c)"
| receives: "receiver_is c i RcvEnter \<Longrightarrow> \<not> mutex_held c \<Longrightarrow> recv (ct_channel c) = Some res \<Longrightarrow> channel_step c ChReceiver (receiver_returns i res c)"
| decides: "receiver_is c i RcvEnter \<Longrightarrow> \<not> mutex_held c \<Longrightarrow> recv (ct_channel c) = None \<Longrightarrow> channel_step c ChReceiver (move_receiver i RcvDecided c)"
| sleeps: "receiver_is c i RcvDecided \<Longrightarrow> channel_step c ChReceiver (move_receiver i RcvAsleep c)"
| expires: "receiver_is c i RcvAsleep \<Longrightarrow> fst (ct_receivers c ! i) \<Longrightarrow> channel_step c ChTimeout (move_receiver i RcvExpired c)"
| last_look: "receiver_is c i RcvExpired \<Longrightarrow> \<not> mutex_held c \<Longrightarrow>
    channel_step c ChReceiver (receiver_returns i (recv_timeout (ct_channel c)) c)"
| wakes_itself: "receiver_is c i RcvAsleep \<Longrightarrow> channel_step c ChSpurious (move_receiver i RcvEnter c)"

inductive_cases channel_step_cases: "channel_step c ev c'"

text \<open>What happens by itself: notifications arrive, receivers go on, and timeouts pass.\<close>

definition channel_progress :: "'a channel_event \<Rightarrow> bool" where
  "channel_progress ev \<longleftrightarrow> ev = ChNotify \<or> ev = ChReceiver \<or> ev = ChTimeout"

section \<open>Every run comes to rest\<close>

lemma move_receiver_simps [simp]:
  "ct_channel (move_receiver i r c) = ct_channel c" "ct_notify (move_receiver i r c) = ct_notify c"
  "ct_notify_all (move_receiver i r c) = ct_notify_all c" "ct_accepted (move_receiver i r c) = ct_accepted c" "ct_taken (move_receiver i r c) = ct_taken c"
  "ct_receivers (move_receiver i r c) = (ct_receivers c)[i := (fst (ct_receivers c ! i), r)]"
  by (simp_all add: move_receiver_def)

lemma receiver_returns_simps [simp]:
  "ct_channel (receiver_returns i res c) = snd res" "ct_notify (receiver_returns i res c) = ct_notify c"
  "ct_notify_all (receiver_returns i res c) = ct_notify_all c" "ct_accepted (receiver_returns i res c) = ct_accepted c"
  "ct_receivers (receiver_returns i res c) = (ct_receivers c)[i := (fst (ct_receivers c ! i), RcvReturned (fst res))]"
  by (simp_all add: receiver_returns_def)

fun receiver_rank :: "'a receiver \<Rightarrow> nat" where
  "receiver_rank RcvEnter = 4"
| "receiver_rank RcvDecided = 3"
| "receiver_rank RcvAsleep = 2"
| "receiver_rank RcvExpired = 1"
| "receiver_rank (RcvReturned _) = 0"

definition channel_weight :: "'a channel_threads \<Rightarrow> nat" where
  "channel_weight c = 3 * ct_notify c + (if ct_notify_all c then 2 * length (ct_receivers c) + 1 else 0) +
     sum_list (map (receiver_rank \<circ> snd) (ct_receivers c))"

lemma channel_weight_less:
  assumes "i < length (ct_receivers c)" and "channel_weight c + receiver_rank r < channel_weight d + receiver_rank (snd (ct_receivers c ! i))"
  shows "channel_weight (move_receiver i r c) < channel_weight d"
proof -
  have "channel_weight (move_receiver i r c) + receiver_rank (snd (ct_receivers c ! i)) = channel_weight c + receiver_rank r"
    using assms(1) sum_list_replace [of i "ct_receivers c" "ct_receivers c ! i" "receiver_rank \<circ> snd" "(fst (ct_receivers c ! i), r)"]
    by (simp add: channel_weight_def)
  then show ?thesis using assms(2) by linarith
qed

lemma rank_wake_receivers:
  "sum_list (map (receiver_rank \<circ> snd) (map (\<lambda>(timed, r). (timed, case r of RcvAsleep \<Rightarrow> RcvEnter | _ \<Rightarrow> r)) rs)) \<le>
     sum_list (map (receiver_rank \<circ> snd) rs) + 2 * length rs"
  by (induction rs) (auto split: receiver.split)

lemma channel_lowers:
  assumes "channel_step c ev c'" and "channel_progress ev"
  shows "channel_weight c' < channel_weight c"
  using assms
proof (induction rule: channel_step.induct)
  case (wakes_all c)
  then show ?case using rank_wake_receivers [of "ct_receivers c"] by (simp add: channel_weight_def wake_receivers_def)
qed (unfold receiver_returns_def, ((rule channel_weight_less; simp add: channel_weight_def) | simp add: channel_weight_def channel_progress_def)+)

interpretation channel_steps: measured_system channel_step channel_progress channel_weight
  by unfold_locales (rule channel_lowers)

section \<open>No wake-up is lost\<close>

text \<open>
  The mutex is held between test and sleep only while the predicate is false; a receiver that sleeps in a closed channel has a notification of
  all under way; and in an open channel there are never more values than notifications under way and receivers awake, unless nobody sleeps.
\<close>

definition asleep :: "'a channel_threads \<Rightarrow> bool" where
  "asleep c \<longleftrightarrow> RcvAsleep \<in> snd ` set (ct_receivers c)"

fun eager :: "'a receiver \<Rightarrow> nat" where
  "eager RcvEnter = 1"
| "eager RcvExpired = 1"
| "eager _ = 0"

definition awake_receivers :: "'a channel_threads \<Rightarrow> nat" where
  "awake_receivers c = sum_list (map (eager \<circ> snd) (ct_receivers c))"

definition channel_ok :: "'a channel_threads \<Rightarrow> bool" where
  "channel_ok c \<longleftrightarrow> ct_accepted c = ct_taken c @ buffer (ct_channel c) \<and>
     (mutex_held c \<longrightarrow> buffer (ct_channel c) = [] \<and> \<not> is_closed (ct_channel c)) \<and>
     (asleep c \<and> is_closed (ct_channel c) \<longrightarrow> ct_notify_all c) \<and>
     (asleep c \<and> \<not> is_closed (ct_channel c) \<longrightarrow> length (buffer (ct_channel c)) \<le> ct_notify c + awake_receivers c)"

lemma eager_move:
  assumes "receiver_is c i r"
  shows "sum_list (map (eager \<circ> snd) ((ct_receivers c)[i := (fst (ct_receivers c ! i), r')])) + eager r = awake_receivers c + eager r'"
  using sum_list_replace [of i "ct_receivers c" "ct_receivers c ! i" "eager \<circ> snd"] assms by (simp add: awake_receivers_def)

lemma receiver_update: "x \<in> snd ` set (rs[i := (t, r)]) \<Longrightarrow> x = r \<or> x \<in> snd ` set rs"
  by (auto dest!: in_list_update)

lemma wake_none_asleep: "\<not> asleep (wake_receivers c)" "mutex_held (wake_receivers c) \<Longrightarrow> mutex_held c"
  by (auto simp: asleep_def mutex_held_def wake_receivers_def split: receiver.splits)

lemma recv_cases:
  "recv ch = Some res \<Longrightarrow> (buffer ch = [] \<and> is_closed ch \<and> res = (None, ch)) \<or> (\<exists>v vs. buffer ch = v # vs \<and> res = (Some v, ch\<lparr>buffer := vs\<rparr>))"
  by (auto simp: recv_def is_closed_def split: list.splits if_splits)

lemma recv_timeout_cases:
  "(buffer ch = [] \<and> recv_timeout ch = (None, ch)) \<or> (\<exists>v vs. buffer ch = v # vs \<and> recv_timeout ch = (Some v, ch\<lparr>buffer := vs\<rparr>))"
  by (cases "buffer ch") (auto simp: recv_timeout_def)

lemma returns_ok:
  assumes "channel_ok c" and "receiver_is c i r" and "eager r = 1" and "\<not> mutex_held c"
    and "(buffer (ct_channel c) = [] \<and> res = (None, ct_channel c)) \<or>
      (\<exists>v vs. buffer (ct_channel c) = v # vs \<and> res = (Some v, (ct_channel c)\<lparr>buffer := vs\<rparr>))"
  shows "channel_ok (receiver_returns i res c)"
proof -
  have "asleep (receiver_returns i res c) \<Longrightarrow> asleep c" "mutex_held (receiver_returns i res c) \<Longrightarrow> mutex_held c"
    unfolding asleep_def mutex_held_def receiver_returns_simps by (drule receiver_update, simp)+
  moreover have "awake_receivers (receiver_returns i res c) + 1 = awake_receivers c"
    using eager_move [OF assms(2), of "RcvReturned (fst res)"] assms(3) by (simp add: awake_receivers_def)
  ultimately show ?thesis
    using assms(1,4,5) by (auto simp: channel_ok_def is_closed_def receiver_returns_def)
qed

lemma moves_ok:
  assumes "channel_ok c" and "receiver_is c i r" and "ct_channel c' = ct_channel c" and "ct_receivers c' = ct_receivers c"
    and "ct_notify_all c' = ct_notify_all c" and "ct_accepted c' = ct_accepted c" and "ct_taken c' = ct_taken c"
    and "r' = RcvDecided \<longrightarrow> recv (ct_channel c) = None" and "r' = RcvAsleep \<longrightarrow> r = RcvDecided"
    and "ct_notify c + eager r \<le> ct_notify c' + eager r' \<or> buffer (ct_channel c) = []"
  shows "channel_ok (move_receiver i r' c')"
proof -
  have r: "r \<in> snd ` set (ct_receivers c)" using assms(2) by (metis image_eqI nth_mem)
  have none: "buffer (ct_channel c) = [] \<and> \<not> is_closed (ct_channel c)" if "recv (ct_channel c) = None \<or> mutex_held c"
    using that assms(1) by (auto simp: recv_def channel_ok_def is_closed_def split: if_splits)
  have m: "mutex_held (move_receiver i r' c') \<Longrightarrow> mutex_held c \<or> recv (ct_channel c) = None"
    unfolding mutex_held_def move_receiver_simps assms(4) using assms(8) by (metis receiver_update)
  have a: "asleep (move_receiver i r' c') \<Longrightarrow> asleep c \<or> mutex_held c"
    unfolding asleep_def mutex_held_def move_receiver_simps assms(4) using assms(9) r by (metis receiver_update)
  have "awake_receivers (move_receiver i r' c') + eager r = awake_receivers c + eager r'"
    using eager_move [OF assms(2)] assms(4) by (simp add: awake_receivers_def)
  then show ?thesis using assms(1,3,5-7,10) none m a by (auto simp: channel_ok_def)
qed

lemma channel_step_ok:
  assumes "channel_step c ev c'" and "channel_ok c"
  shows "channel_ok c'"
  using assms(1)
proof cases
  case (call_recv timed)
  then show ?thesis using assms(2) by (auto simp: channel_ok_def asleep_def mutex_held_def awake_receivers_def)
next
  case wakes_all
  then show ?thesis using assms(2) wake_none_asleep [of c] by (auto simp: channel_ok_def) (simp_all add: wake_receivers_def)
next
  case (receives i res)
  then show ?thesis using returns_ok [OF assms(2), of i RcvEnter] recv_cases [of "ct_channel c" res] by auto
next
  case (last_look i)
  then show ?thesis using returns_ok [OF assms(2), of i RcvExpired] recv_timeout_cases [of "ct_channel c"] by auto
next
  case (decides i)
  then have "buffer (ct_channel c) = []" by (auto simp: recv_def split: if_splits)
  then show ?thesis using decides moves_ok [OF assms(2), of i RcvEnter c RcvDecided] by simp
next
  case (sleeps i)
  then have "mutex_held c" unfolding mutex_held_def by (metis image_eqI nth_mem)
  then show ?thesis using sleeps assms(2) moves_ok [OF assms(2), of i RcvDecided c RcvAsleep] by (simp add: channel_ok_def)
next
  case (wakes i)
  then show ?thesis using moves_ok [OF assms(2), of i RcvAsleep "c\<lparr>ct_notify := ct_notify c - 1\<rparr>" RcvEnter] by simp
next
  case (expires i)
  then show ?thesis using moves_ok [OF assms(2), of i RcvAsleep c RcvExpired] by simp
next
  case (wakes_itself i)
  then show ?thesis using moves_ok [OF assms(2), of i RcvAsleep c RcvEnter] by simp
qed (use assms(2) in \<open>auto simp: channel_ok_def asleep_def mutex_held_def awake_receivers_def send_def try_send_def
    swap_out_all_def drain_loop_append close_def is_closed_def split: if_splits\<close>)

lemma channel_ok_new: "channel_ok new_channel_threads"
  by (simp add: channel_ok_def new_channel_threads_def new_channel_def mutex_held_def asleep_def)

lemma channel_run_ok: "runs channel_step new_channel_threads evs c \<Longrightarrow> channel_ok c"
  by (erule runs_invariant [where P = channel_ok]) (auto intro: channel_ok_new channel_step_ok)

lemma channel_stays_closed: "channel_step c ev c' \<Longrightarrow> is_closed (ct_channel c) \<Longrightarrow> is_closed (ct_channel c')"
  by (erule channel_step_cases)
    (auto simp: send_def try_send_def swap_out_all_def close_def is_closed_def wake_receivers_def recv_def recv_timeout_def split: if_splits list.splits)

lemma receiver_exists: "r \<in> snd ` set (ct_receivers c) \<Longrightarrow> \<exists>i. receiver_is c i r"
  by (metis imageE in_set_conv_nth)

abbreviation channel_rests :: "'a channel_threads \<Rightarrow> bool" where
  "channel_rests \<equiv> at_rest channel_step channel_progress"

lemma channel_restD: "channel_rests c \<Longrightarrow> \<not> channel_step c ChNotify c' \<and> \<not> channel_step c ChReceiver c' \<and> \<not> channel_step c ChTimeout c'"
  by (simp add: at_rest_def channel_progress_def)

lemma channel_rest_notify:
  assumes "channel_rests c"
  shows "ct_notify c = 0 \<and> \<not> ct_notify_all c"
proof -
  have "\<exists>c'. channel_step c ChNotify c'" if "0 < ct_notify c"
  proof (cases "RcvAsleep \<in> snd ` set (ct_receivers c)")
    case True
    then obtain i where "receiver_is c i RcvAsleep" using receiver_exists by blast
    then show ?thesis using wakes [OF that] by blast
  qed (use that wakes_none in blast)
  then show ?thesis using channel_restD [OF assms] wakes_all by blast
qed

lemma channel_rest_receivers:
  assumes "channel_rests c" and "(timed, r) \<in> set (ct_receivers c)"
  shows "(\<exists>v. r = RcvReturned v) \<or> r = RcvAsleep \<and> \<not> timed"
proof -
  obtain i where i: "i < length (ct_receivers c)" "ct_receivers c ! i = (timed, r)" using assms(2) by (auto simp: in_set_conv_nth)
  have held: "\<not> mutex_held c"
  proof
    assume "mutex_held c"
    then obtain j where "receiver_is c j RcvDecided" using receiver_exists by (auto simp only: mutex_held_def)
    then show False using channel_restD [OF assms(1)] sleeps by blast
  qed
  then have "r \<noteq> RcvDecided" using assms(2) by (force simp: mutex_held_def)
  moreover have "r \<noteq> RcvEnter" using i held channel_restD [OF assms(1)] receives [of i c] decides [of i c] by (cases "recv (ct_channel c)") auto
  moreover have "r \<noteq> RcvExpired" using i held channel_restD [OF assms(1)] last_look [of i c] by auto
  moreover have "\<not> (r = RcvAsleep \<and> timed)" using i channel_restD [OF assms(1)] expires [of i c] by auto
  ultimately show ?thesis by (cases r) auto
qed

lemma channel_rest_waits:
  assumes "channel_rests c" and "channel_ok c" and "asleep c"
  shows "buffer (ct_channel c) = [] \<and> \<not> is_closed (ct_channel c)"
proof -
  have "\<forall>x\<in>set (ct_receivers c). (eager \<circ> snd) x = 0" using channel_rest_receivers [OF assms(1)] by fastforce
  then have "awake_receivers c = 0" by (simp add: awake_receivers_def)
  then show ?thesis using channel_rest_notify [OF assms(1)] assms(2,3) by (auto simp: channel_ok_def)
qed

text \<open>
  C20. No receiver of a channel waits in vain. From every state that senders, receivers and the closing thread can reach, the receivers come to rest after
  a bounded number of steps. Then every call of \<^verbatim>\<open>recv\<close> has returned, except those without a timeout while the channel is open and empty; in
  particular closing a channel releases all of them. Values are taken out in the order in which they were sent, none lost or duplicated.
\<close>

theorem receivers_released:
  assumes "runs channel_step new_channel_threads evs c"
  shows "(\<exists>evs' c'. runs channel_step c evs' c' \<and> list_all channel_progress evs' \<and> channel_rests c') \<and>
    (\<forall>evs' c'. runs channel_step c evs' c' \<and> list_all channel_progress evs' \<longrightarrow>
       length evs' \<le> channel_weight c \<and> ct_accepted c' = ct_taken c' @ buffer (ct_channel c') \<and>
       (channel_rests c' \<longrightarrow> (\<forall>(timed, r)\<in>set (ct_receivers c'). (\<exists>v. r = RcvReturned v) \<or>
          r = RcvAsleep \<and> \<not> timed \<and> buffer (ct_channel c') = [] \<and> \<not> is_closed (ct_channel c'))))"
proof (intro conjI allI impI channel_steps.comes_to_rest)
  fix evs' c'
  assume r: "runs channel_step c evs' c' \<and> list_all channel_progress evs'"
  then show "length evs' \<le> channel_weight c" using channel_steps.run_bounded by fastforce
  have ok: "channel_ok c'" using channel_run_ok runs_append [OF assms] r by blast
  then show "ct_accepted c' = ct_taken c' @ buffer (ct_channel c')" by (simp add: channel_ok_def)
  assume rest: "channel_rests c'"
  show "\<forall>(timed, r)\<in>set (ct_receivers c'). (\<exists>v. r = RcvReturned v) \<or>
      r = RcvAsleep \<and> \<not> timed \<and> buffer (ct_channel c') = [] \<and> \<not> is_closed (ct_channel c')"
  proof clarify
    fix timed r
    assume w: "(timed, r) \<in> set (ct_receivers c')" "\<not> (r = RcvAsleep \<and> \<not> timed \<and> buffer (ct_channel c') = [] \<and> \<not> is_closed (ct_channel c'))"
    have "r = RcvAsleep \<Longrightarrow> asleep c'" using w(1) unfolding asleep_def by (metis image_eqI snd_conv)
    then show "\<exists>v. r = RcvReturned v" using w channel_rest_receivers [OF rest w(1)] channel_rest_waits [OF rest ok] by blast
  qed
qed

theorem receivers_released_witness:
  "\<exists>c evs c'. runs channel_step new_channel_threads [CallRecv False, CallRecv True, ChSend ''a'', ChClose] c \<and> runs channel_step c evs c' \<and>
     channel_rests c' \<and> (\<forall>(timed, r)\<in>set (ct_receivers c'). \<exists>v. r = RcvReturned v)"
proof -
  let ?c1 = "new_channel_threads\<lparr>ct_receivers := [(False, RcvEnter :: string receiver), (True, RcvEnter)]\<rparr>"
  let ?c2 = "?c1\<lparr>ct_channel := \<lparr>buffer = [''a''], closed = False\<rparr>, ct_notify := 1, ct_accepted := [''a'']\<rparr>"
  let ?c3 = "?c2\<lparr>ct_channel := close (ct_channel ?c2), ct_notify_all := True\<rparr>"
  note defs = new_channel_threads_def new_channel_def mutex_held_def send_def
  have "channel_step new_channel_threads (CallRecv False) (new_channel_threads\<lparr>ct_receivers := [(False, RcvEnter :: string receiver)]\<rparr>)"
    "channel_step (new_channel_threads\<lparr>ct_receivers := [(False, RcvEnter :: string receiver)]\<rparr>) (CallRecv True) ?c1"
    using call_recv [of "new_channel_threads :: string channel_threads" False]
      call_recv [of "new_channel_threads\<lparr>ct_receivers := [(False, RcvEnter :: string receiver)]\<rparr>" True] by (simp_all add: defs)
  moreover have "channel_step ?c1 (ChSend ''a'') ?c2" using sends [of ?c1 "''a''"] by (simp add: defs)
  moreover have "channel_step ?c2 ChClose ?c3" by (rule closes) (simp add: defs)
  ultimately have r: "runs channel_step new_channel_threads [CallRecv False, CallRecv True, ChSend ''a'', ChClose] ?c3" by (blast intro: runs.intros)
  from receivers_released [OF r] obtain evs c' where c': "runs channel_step ?c3 evs c'" "channel_rests c'"
      "\<forall>(timed, r)\<in>set (ct_receivers c'). (\<exists>v. r = RcvReturned v) \<or>
         r = RcvAsleep \<and> \<not> timed \<and> buffer (ct_channel c') = [] \<and> \<not> is_closed (ct_channel c')" by meson
  have "is_closed (ct_channel c')"
    by (rule runs_invariant [where P = "\<lambda>c. is_closed (ct_channel c)", OF c'(1)]) (simp add: close_def is_closed_def, rule channel_stays_closed)
  then have "\<forall>(timed, r)\<in>set (ct_receivers c'). \<exists>v. r = RcvReturned v" using c'(3) by auto
  then show ?thesis using r c'(1,2) by blast
qed

end
