(* ===== verification/Config.thy ===== *)
theory Config
  imports Local_Engine
begin

text \<open>
  The configuration, \<^verbatim>\<open>src/config.h\<close> and \<^verbatim>\<open>src/config.cpp\<close>, and what \<^verbatim>\<open>src/main.cpp\<close> makes of it when it starts. The
  environment variables are a function \<open>getenv\<close>, the existence of a path is \<open>path_exists\<close>, and \<open>hw\<close> is the value of
  \<^verbatim>\<open>std::thread::hardware_concurrency()\<close>, an \<^verbatim>\<open>unsigned int\<close>. An exception is the left value; \<open>BadNumber\<close> is what a \<^verbatim>\<open>std::sto*\<close>
  function throws. A duration made from a \<^verbatim>\<open>std::stoull\<close> result is that word read as a signed 64-bit number.
\<close>

section \<open>Configuration\<close>

record local_config =
  lg_enabled :: bool
  lg_prefer_local :: bool
  lg_backend :: string
  lg_model_dir :: string
  lg_model_file :: string
  lg_detokenizer_file :: string
  lg_tokenizer_file :: string
  lg_target_sample_rate :: int
  lg_target_channels :: int
  lg_num_threads :: int
  lg_max_decode_steps :: int

record config =
  cg_grpc_bind :: string
  cg_upstream_url :: string
  cg_minimax_api_key :: string
  cg_jwt_public_key_file :: string
  cg_jwt_issuer :: string
  cg_auth_enabled :: bool
  cg_heartbeat_interval_ms :: int
  cg_pool_idle_timeout_s :: int
  cg_pool_max_lifetime_s :: int
  cg_pool_max_size :: u64
  cg_cpu_workers :: u64
  cg_io_workers :: u64
  cg_bus_workers :: u64
  cg_local :: local_config

definition default_local_config :: local_config where
  "default_local_config = \<lparr>lg_enabled = True, lg_prefer_local = True, lg_backend = ''sherpa'', lg_model_dir = [],
     lg_model_file = ''model.onnx'', lg_detokenizer_file = ''detokenizer.onnx'', lg_tokenizer_file = ''tokens.txt'',
     lg_target_sample_rate = 16000, lg_target_channels = 1, lg_num_threads = 0, lg_max_decode_steps = 512\<rparr>"

definition default_config :: config where
  "default_config = \<lparr>cg_grpc_bind = ''0.0.0.0:50061'', cg_upstream_url = ''wss://api.minimaxi.com/ws/v1/t2a_v2'',
     cg_minimax_api_key = [], cg_jwt_public_key_file = [], cg_jwt_issuer = ''tts-service'', cg_auth_enabled = False,
     cg_heartbeat_interval_ms = 50, cg_pool_idle_timeout_s = 60, cg_pool_max_lifetime_s = 3600, cg_pool_max_size = 16,
     cg_cpu_workers = 0, cg_io_workers = 0, cg_bus_workers = 1, cg_local = default_local_config\<rparr>"

datatype config_error = BadNumber | RuntimeError string

type_synonym environ = "string \<Rightarrow> string option"

definition env_or :: "environ \<Rightarrow> string \<Rightarrow> string \<Rightarrow> string" where
  "env_or getenv k def = (case getenv k of None \<Rightarrow> def | Some v \<Rightarrow> v)"

definition env_size :: "environ \<Rightarrow> string \<Rightarrow> u64 \<Rightarrow> u64" where
  "env_size getenv k def =
     (case getenv k of
        None \<Rightarrow> def
      | Some v \<Rightarrow> if v = [] then def else (case stoull v of None \<Rightarrow> def | Some n \<Rightarrow> n))"

text \<open>\<^verbatim>\<open>if (auto v = getenv(k)) c.field = f(stoull(v));\<close> with the exception going through.\<close>

definition read_number :: "environ \<Rightarrow> string \<Rightarrow> (u64 \<Rightarrow> config \<Rightarrow> config) \<Rightarrow> config \<Rightarrow> config_error + config" where
  "read_number getenv k store c =
     (case getenv k of
        None \<Rightarrow> Inr c
      | Some v \<Rightarrow> (case stoull v of None \<Rightarrow> Inl BadNumber | Some n \<Rightarrow> Inr (store n c)))"

definition env_strings :: "environ \<Rightarrow> config \<Rightarrow> config" where
  "env_strings getenv c =
     (let c = c\<lparr>cg_grpc_bind := env_or getenv ''GRPC_BIND'' (cg_grpc_bind c)\<rparr>;
          c = c\<lparr>cg_upstream_url := env_or getenv ''MINIMAX_WS_URL'' (cg_upstream_url c)\<rparr>;
          c = c\<lparr>cg_minimax_api_key := env_or getenv ''MINIMAX_API_KEY'' []\<rparr>;
          pk = env_or getenv ''GRPC_JWT_PUBLIC_KEY_FILE'' [];
          c = (if pk \<noteq> [] then c\<lparr>cg_jwt_public_key_file := pk\<rparr> else c);
          c = c\<lparr>cg_jwt_issuer := env_or getenv ''GRPC_JWT_ISSUER'' (cg_jwt_issuer c)\<rparr>
      in c\<lparr>cg_auth_enabled := (env_or getenv ''GRPC_AUTH_ENABLED'' ''false'' = ''true'')\<rparr>)"

definition env_workers :: "environ \<Rightarrow> 32 word \<Rightarrow> config \<Rightarrow> config" where
  "env_workers getenv hw c =
     (let c = c\<lparr>cg_cpu_workers := env_size getenv ''TTS_CPU_WORKERS'' (max 1 (ucast (hw * 3 div 2)))\<rparr>;
          c = c\<lparr>cg_io_workers := env_size getenv ''TTS_IO_WORKERS'' (max 2 (ucast (hw * 2)))\<rparr>
      in c\<lparr>cg_bus_workers := env_size getenv ''TTS_BUS_WORKERS'' 1\<rparr>)"

definition env_local :: "environ \<Rightarrow> local_config \<Rightarrow> local_config" where
  "env_local getenv l =
     (let l = l\<lparr>lg_enabled := (env_or getenv ''TTS_LOCAL_ENABLED'' ''true'' \<noteq> ''false'')\<rparr>;
          l = l\<lparr>lg_prefer_local := (env_or getenv ''TTS_LOCAL_PREFER'' ''true'' \<noteq> ''false'')\<rparr>;
          l = l\<lparr>lg_backend := env_or getenv ''TTS_LOCAL_BACKEND'' ''sherpa''\<rparr>;
          l = (case getenv ''TTS_LOCAL_MODEL_DIR'' of None \<Rightarrow> l | Some v \<Rightarrow> l\<lparr>lg_model_dir := v\<rparr>)
      in case getenv ''TTS_LOCAL_NUM_THREADS'' of
           None \<Rightarrow> l
         | Some v \<Rightarrow> (case stoi v of None \<Rightarrow> l | Some n \<Rightarrow> l\<lparr>lg_num_threads := n\<rparr>))"

definition bind_result :: "'e + 'a \<Rightarrow> ('a \<Rightarrow> 'e + 'b) \<Rightarrow> 'e + 'b" where
  "bind_result r f = (case r of Inl e \<Rightarrow> Inl e | Inr x \<Rightarrow> f x)"

definition from_env :: "environ \<Rightarrow> 32 word \<Rightarrow> config_error + config" where
  "from_env getenv hw =
     bind_result (read_number getenv ''TTS_POOL_MAX'' (\<lambda>n c. c\<lparr>cg_pool_max_size := n\<rparr>) (env_strings getenv default_config)) (\<lambda>c.
     bind_result (read_number getenv ''TTS_POOL_IDLE_MS'' (\<lambda>n c. c\<lparr>cg_pool_idle_timeout_s := sint (n div 1000)\<rparr>) c) (\<lambda>c.
     bind_result (read_number getenv ''TTS_POOL_LIFETIME_S'' (\<lambda>n c. c\<lparr>cg_pool_max_lifetime_s := sint n\<rparr>) c) (\<lambda>c.
     bind_result (read_number getenv ''TTS_HEARTBEAT_MS'' (\<lambda>n c. c\<lparr>cg_heartbeat_interval_ms := sint n\<rparr>) c) (\<lambda>c.
     let c = env_workers getenv hw c in Inr (c\<lparr>cg_local := env_local getenv (cg_local c)\<rparr>)))))"

definition validate :: "(string \<Rightarrow> bool) \<Rightarrow> config \<Rightarrow> config_error + unit" where
  "validate path_exists c =
     (if cg_auth_enabled c \<and> cg_jwt_public_key_file c = [] then
        Inl (RuntimeError ''GRPC_JWT_PUBLIC_KEY_FILE is empty (required when GRPC_AUTH_ENABLED=true)'')
      else if cg_auth_enabled c \<and> \<not> path_exists (cg_jwt_public_key_file c) then
        Inl (RuntimeError ''GRPC_JWT_PUBLIC_KEY_FILE does not exist'')
      else if cg_pool_max_size c = 0 then Inl (RuntimeError ''TTS_POOL_MAX must be > 0'')
      else if lg_enabled (cg_local c) \<and> lg_backend (cg_local c) = ''sherpa'' \<and> lg_model_dir (cg_local c) = [] then
        Inl (RuntimeError ''TTS_LOCAL_MODEL_DIR is empty (required when local is enabled)'')
      else if lg_enabled (cg_local c) \<and> lg_backend (cg_local c) = ''sherpa'' \<and> \<not> path_exists (lg_model_dir (cg_local c)) then
        Inl (RuntimeError (''TTS_LOCAL_MODEL_DIR does not exist: '' @ lg_model_dir (cg_local c)))
      else if \<not> lg_enabled (cg_local c) \<and> cg_minimax_api_key c = [] then
        Inl (RuntimeError ''MINIMAX_API_KEY is empty (required when local is disabled)'')
      else Inr ())"

section \<open>Start of the program\<close>

definition local_tts_config_of :: "local_config \<Rightarrow> local_tts_config" where
  "local_tts_config_of l = default_local_tts_config\<lparr>lt_enabled := lg_enabled l, lt_model_dir := lg_model_dir l,
     lt_model_file := lg_model_file l, lt_tokenizer_file := lg_tokenizer_file l, lt_detokenizer_file := lg_detokenizer_file l,
     lt_target_sample_rate := lg_target_sample_rate l, lt_target_channels := lg_target_channels l,
     lt_num_threads := lg_num_threads l, lt_max_decode_steps := lg_max_decode_steps l,
     lt_backend := (if lg_backend l = ''mock'' then Mock else Onnx)\<rparr>"

text \<open>
  What the running server is made of: the address, the verifier (the public key it was loaded from), the engine, the preference and the
  interval of the heartbeat thread, and the sizes of the thread pools. \<open>load_key\<close> says whether OpenSSL reads a public key from a file and \<open>listen\<close>
  whether gRPC can listen on an address.
\<close>

record running =
  ru_bind :: string
  ru_jwt_key :: "string option"
  ru_engine :: local_engine
  ru_prefer_local :: bool
  ru_interval_ms :: int
  ru_cpu_workers :: u64
  ru_io_workers :: u64
  ru_bus_workers :: u64

text \<open>
  The log level that \<^verbatim>\<open>main\<close> sets before anything else. A line is written if its level is not below it; the program has no lines below \<^verbatim>\<open>info\<close>, so all its
  lines are written whatever the variables are.
\<close>

datatype log_level = Debug_Level | Info_Level | Warn_Level | Error_Level | Critical_Level

definition log_level_of :: "environ \<Rightarrow> log_level" where
  "log_level_of getenv =
     (if getenv ''GRPC_TRACE'' \<noteq> None \<or> getenv ''GRPC_VERBOSITY'' \<noteq> None then Debug_Level else Info_Level)"

fun level_rank :: "log_level \<Rightarrow> nat" where
  "level_rank Debug_Level = 1"
| "level_rank Info_Level = 2"
| "level_rank Warn_Level = 3"
| "level_rank Error_Level = 4"
| "level_rank Critical_Level = 5"

definition written :: "environ \<Rightarrow> log_level \<Rightarrow> bool" where
  "written getenv l \<longleftrightarrow> level_rank (log_level_of getenv) \<le> level_rank l"

lemma lines_written: "l \<noteq> Debug_Level \<Longrightarrow> written getenv l"
  by (cases l) (simp_all add: written_def log_level_of_def)

datatype startup = Exit int | Running running

definition start :: "(local_tts_config \<Rightarrow> local_engine) \<Rightarrow> (string \<Rightarrow> bool) \<Rightarrow> (string \<Rightarrow> bool) \<Rightarrow> config \<Rightarrow> startup" where
  "start create load_key listen cfg =
     (if cg_auth_enabled cfg \<and> \<not> load_key (cg_jwt_public_key_file cfg) then Exit 2
      else if \<not> listen (cg_grpc_bind cfg) then Exit 3
      else Running \<lparr>ru_bind = cg_grpc_bind cfg,
        ru_jwt_key = (if cg_auth_enabled cfg then Some (cg_jwt_public_key_file cfg) else None),
        ru_engine = create (local_tts_config_of (cg_local cfg)), ru_prefer_local = lg_prefer_local (cg_local cfg),
        ru_interval_ms = cg_heartbeat_interval_ms cfg, ru_cpu_workers = cg_cpu_workers cfg, ru_io_workers = cg_io_workers cfg,
        ru_bus_workers = cg_bus_workers cfg\<rparr>)"

definition main_start ::
  "(local_tts_config \<Rightarrow> local_engine) \<Rightarrow> (string \<Rightarrow> bool) \<Rightarrow> (string \<Rightarrow> bool) \<Rightarrow> (string \<Rightarrow> bool) \<Rightarrow> environ \<Rightarrow> 32 word \<Rightarrow> startup" where
  "main_start create path_exists load_key listen getenv hw =
     (case from_env getenv hw of
        Inl _ \<Rightarrow> Exit 1
      | Inr cfg \<Rightarrow> (case validate path_exists cfg of Inl _ \<Rightarrow> Exit 1 | Inr _ \<Rightarrow> start create load_key listen cfg))"

section \<open>Which settings are accepted\<close>

lemma bind_result_Inr [simp]:
  "(bind_result r f = Inr y) = (\<exists>x. r = Inr x \<and> f x = Inr y)"
  by (auto simp: bind_result_def split: sum.splits)

lemma bind_result_Inl:
  "(bind_result r f = Inl e) = (r = Inl e \<or> (\<exists>x. r = Inr x \<and> f x = Inl e))"
  by (auto simp: bind_result_def split: sum.splits)

lemma read_number_Inr:
  "(read_number getenv k store c = Inr d) =
     (case getenv k of None \<Rightarrow> d = c | Some v \<Rightarrow> (\<exists>n. stoull v = Some n \<and> d = store n c))"
  by (auto simp: read_number_def split: option.splits)

lemma read_number_Inl:
  "(read_number getenv k store c = Inl e) = (e = BadNumber \<and> (\<exists>v. getenv k = Some v \<and> stoull v = None))"
  by (auto simp: read_number_def split: option.splits)

lemma validate_iff:
  "validate path_exists c = Inr () \<longleftrightarrow>
     (cg_auth_enabled c \<longrightarrow> cg_jwt_public_key_file c \<noteq> [] \<and> path_exists (cg_jwt_public_key_file c)) \<and>
     cg_pool_max_size c \<noteq> 0 \<and>
     (if lg_enabled (cg_local c)
      then lg_backend (cg_local c) = ''sherpa'' \<longrightarrow> lg_model_dir (cg_local c) \<noteq> [] \<and> path_exists (lg_model_dir (cg_local c))
      else cg_minimax_api_key c \<noteq> [])"
  by (auto simp: validate_def)

definition required_numbers :: "string list" where
  "required_numbers = [''TTS_POOL_MAX'', ''TTS_POOL_IDLE_MS'', ''TTS_POOL_LIFETIME_S'', ''TTS_HEARTBEAT_MS'']"

definition readable :: "environ \<Rightarrow> string \<Rightarrow> bool" where
  "readable getenv k = (case getenv k of None \<Rightarrow> True | Some v \<Rightarrow> stoull v \<noteq> None)"

lemma read_number_succeeds:
  "(\<exists>d. read_number getenv k store c = Inr d) = readable getenv k"
  by (auto simp: read_number_def readable_def split: option.splits)

lemma from_env_succeeds:
  "(\<exists>c. from_env getenv hw = Inr c) = list_all (readable getenv) required_numbers"
  unfolding from_env_def required_numbers_def bind_result_Inr Let_def sum.inject
  using read_number_succeeds by (simp, metis)

lemma read_number_keeps:
  assumes "read_number getenv k store c = Inr d" and "\<And>n. f (store n c) = f c"
  shows "f d = f c"
  using assms by (auto simp: read_number_Inr split: option.splits)

text \<open>The four numbers are read one after the other, then the rest.\<close>

lemma from_env_stages:
  assumes "from_env getenv hw = Inr c"
  obtains a b d e where
    "read_number getenv ''TTS_POOL_MAX'' (\<lambda>n c. c\<lparr>cg_pool_max_size := n\<rparr>) (env_strings getenv default_config) = Inr a"
    "read_number getenv ''TTS_POOL_IDLE_MS'' (\<lambda>n c. c\<lparr>cg_pool_idle_timeout_s := sint (n div 1000)\<rparr>) a = Inr b"
    "read_number getenv ''TTS_POOL_LIFETIME_S'' (\<lambda>n c. c\<lparr>cg_pool_max_lifetime_s := sint n\<rparr>) b = Inr d"
    "read_number getenv ''TTS_HEARTBEAT_MS'' (\<lambda>n c. c\<lparr>cg_heartbeat_interval_ms := sint n\<rparr>) d = Inr e"
    "c = (env_workers getenv hw e)\<lparr>cg_local := env_local getenv (cg_local (env_workers getenv hw e))\<rparr>"
  using assms by (auto simp: from_env_def Let_def)

text \<open>The settings that are not numbers are those of the environment, whatever the numbers are.\<close>

lemma from_env_keeps:
  assumes r: "from_env getenv hw = Inr c"
    and f: "\<And>c n x y z l. f (c\<lparr>cg_pool_max_size := n\<rparr>) = f c \<and> f (c\<lparr>cg_pool_idle_timeout_s := x\<rparr>) = f c \<and>
      f (c\<lparr>cg_pool_max_lifetime_s := x\<rparr>) = f c \<and> f (c\<lparr>cg_heartbeat_interval_ms := x\<rparr>) = f c \<and>
      f (c\<lparr>cg_cpu_workers := n\<rparr>) = f c \<and> f (c\<lparr>cg_io_workers := n\<rparr>) = f c \<and> f (c\<lparr>cg_bus_workers := n\<rparr>) = f c \<and>
      f (c\<lparr>cg_local := l\<rparr>) = f c"
  shows "f c = f (env_strings getenv default_config)"
proof -
  obtain a b d e where
    s: "read_number getenv ''TTS_POOL_MAX'' (\<lambda>n c. c\<lparr>cg_pool_max_size := n\<rparr>) (env_strings getenv default_config) = Inr a"
      "read_number getenv ''TTS_POOL_IDLE_MS'' (\<lambda>n c. c\<lparr>cg_pool_idle_timeout_s := sint (n div 1000)\<rparr>) a = Inr b"
      "read_number getenv ''TTS_POOL_LIFETIME_S'' (\<lambda>n c. c\<lparr>cg_pool_max_lifetime_s := sint n\<rparr>) b = Inr d"
      "read_number getenv ''TTS_HEARTBEAT_MS'' (\<lambda>n c. c\<lparr>cg_heartbeat_interval_ms := sint n\<rparr>) d = Inr e"
    and c: "c = (env_workers getenv hw e)\<lparr>cg_local := env_local getenv (cg_local (env_workers getenv hw e))\<rparr>"
    using r by (rule from_env_stages)
  have "f c = f e" by (simp add: c f env_workers_def Let_def)
  also have "f e = f d" by (rule read_number_keeps [OF s(4)]) (simp add: f)
  also have "f d = f b" by (rule read_number_keeps [OF s(3)]) (simp add: f)
  also have "f b = f a" by (rule read_number_keeps [OF s(2)]) (simp add: f)
  also have "f a = f (env_strings getenv default_config)" by (rule read_number_keeps [OF s(1)]) (simp add: f)
  finally show ?thesis .
qed

lemma from_env_security:
  assumes "from_env getenv hw = Inr c"
  shows "cg_auth_enabled c = (getenv ''GRPC_AUTH_ENABLED'' = Some ''true'')"
    and "cg_jwt_public_key_file c = env_or getenv ''GRPC_JWT_PUBLIC_KEY_FILE'' []"
    and "cg_grpc_bind c = env_or getenv ''GRPC_BIND'' ''0.0.0.0:50061''"
  using from_env_keeps [OF assms, of cg_auth_enabled] from_env_keeps [OF assms, of cg_jwt_public_key_file]
    from_env_keeps [OF assms, of cg_grpc_bind]
  by (auto simp: env_strings_def env_or_def default_config_def Let_def split: option.splits)

text \<open>The settings of the local engine are read last and do not depend on the numbers either.\<close>

lemma from_env_local:
  assumes "from_env getenv hw = Inr c"
  shows "cg_local c = env_local getenv default_local_config"
proof -
  obtain a b d e where
    s: "read_number getenv ''TTS_POOL_MAX'' (\<lambda>n c. c\<lparr>cg_pool_max_size := n\<rparr>) (env_strings getenv default_config) = Inr a"
      "read_number getenv ''TTS_POOL_IDLE_MS'' (\<lambda>n c. c\<lparr>cg_pool_idle_timeout_s := sint (n div 1000)\<rparr>) a = Inr b"
      "read_number getenv ''TTS_POOL_LIFETIME_S'' (\<lambda>n c. c\<lparr>cg_pool_max_lifetime_s := sint n\<rparr>) b = Inr d"
      "read_number getenv ''TTS_HEARTBEAT_MS'' (\<lambda>n c. c\<lparr>cg_heartbeat_interval_ms := sint n\<rparr>) d = Inr e"
    and c: "c = (env_workers getenv hw e)\<lparr>cg_local := env_local getenv (cg_local (env_workers getenv hw e))\<rparr>"
    using assms by (rule from_env_stages)
  have "cg_local c = env_local getenv (cg_local e)" by (simp add: c env_workers_def Let_def)
  also have "cg_local e = cg_local d" by (rule read_number_keeps [OF s(4)]) simp
  also have "cg_local d = cg_local b" by (rule read_number_keeps [OF s(3)]) simp
  also have "cg_local b = cg_local a" by (rule read_number_keeps [OF s(2)]) simp
  also have "cg_local a = cg_local (env_strings getenv default_config)" by (rule read_number_keeps [OF s(1)]) simp
  finally show ?thesis by (simp add: env_strings_def default_config_def Let_def)
qed

lemma start_Running:
  "start create load_key listen c = Running r \<Longrightarrow>
     ru_jwt_key r = (if cg_auth_enabled c then Some (cg_jwt_public_key_file c) else None) \<and>
     (cg_auth_enabled c \<longrightarrow> load_key (cg_jwt_public_key_file c))"
  by (auto simp: start_def split: if_splits)

lemma running_authentication:
  assumes "main_start create path_exists load_key listen getenv hw = Running r"
  shows "ru_jwt_key r = (if getenv ''GRPC_AUTH_ENABLED'' = Some ''true'' then getenv ''GRPC_JWT_PUBLIC_KEY_FILE'' else None) \<and>
    (getenv ''GRPC_AUTH_ENABLED'' = Some ''true'' \<longrightarrow>
       (\<exists>k. getenv ''GRPC_JWT_PUBLIC_KEY_FILE'' = Some k \<and> path_exists k \<and> load_key k))"
proof -
  obtain c where c: "from_env getenv hw = Inr c" "validate path_exists c = Inr ()" "start create load_key listen c = Running r"
    using assms by (auto simp: main_start_def split: sum.splits)
  show ?thesis using start_Running [OF c(3)] c(2) from_env_security [OF c(1)]
    by (auto simp: validate_iff env_or_def split: option.splits)
qed

text \<open>
  C30. The server never runs with authentication silently off: when it reaches the running state, it has a verifier exactly if
  \<^verbatim>\<open>GRPC_AUTH_ENABLED\<close> is \<^verbatim>\<open>true\<close>, the verifier's key is read from the file that \<^verbatim>\<open>GRPC_JWT_PUBLIC_KEY_FILE\<close> names, that file
  exists and a key could be loaded from it.
\<close>

theorem startup_enforces_authentication:
  assumes "main_start create path_exists load_key listen getenv hw = Running r"
  shows "ru_jwt_key r = (if getenv ''GRPC_AUTH_ENABLED'' = Some ''true'' then getenv ''GRPC_JWT_PUBLIC_KEY_FILE'' else None) \<and>
    (getenv ''GRPC_AUTH_ENABLED'' = Some ''true'' \<longrightarrow>
       (\<exists>k. getenv ''GRPC_JWT_PUBLIC_KEY_FILE'' = Some k \<and> path_exists k \<and> load_key k))"
  using assms by (rule running_authentication)

definition example_environ :: environ where
  "example_environ k =
     map_of [(''GRPC_AUTH_ENABLED'', ''true''), (''GRPC_JWT_PUBLIC_KEY_FILE'', ''/etc/key.pem''), (''TTS_LOCAL_BACKEND'', ''mock''),
       (''TTS_HEARTBEAT_MS'', ''-1'')] k"

definition example_running :: running where
  "example_running = \<lparr>ru_bind = ''0.0.0.0:50061'', ru_jwt_key = Some ''/etc/key.pem'', ru_engine = example_engine,
     ru_prefer_local = True, ru_interval_ms = - 1, ru_cpu_workers = 6, ru_io_workers = 8, ru_bus_workers = 1\<rparr>"

definition example_config :: config where
  "example_config = default_config\<lparr>cg_jwt_public_key_file := ''/etc/key.pem'', cg_auth_enabled := True, cg_heartbeat_interval_ms := - 1,
     cg_cpu_workers := 6, cg_io_workers := 8, cg_local := default_local_config\<lparr>lg_backend := ''mock''\<rparr>\<rparr>"

lemma from_env_example:
  "from_env example_environ 4 = Inr example_config"
  unfolding example_config_def by code_simp

lemma example_valid:
  "validate (\<lambda>_. True) example_config = Inr ()"
  by (simp add: validate_iff example_config_def default_config_def default_local_config_def)

lemma example_starts:
  "main_start (\<lambda>_. example_engine) (\<lambda>_. True) (\<lambda>_. True) (\<lambda>_. True) example_environ 4 = Running example_running"
  unfolding main_start_def from_env_example by (simp add: example_valid example_running_def) (simp add: start_def example_config_def default_config_def default_local_config_def)

theorem startup_enforces_authentication_witness:
  "ru_jwt_key example_running = Some ''/etc/key.pem''"
  using startup_enforces_authentication [OF example_starts] by (simp add: example_environ_def)


text \<open>
  A negative heartbeat interval is accepted: \<^verbatim>\<open>std::stoull\<close> reads \<^verbatim>\<open>-1\<close> as the largest word, which is -1 as a duration, so the heartbeat
  thread does not sleep between ticks.
\<close>

theorem negative_interval_accepted:
  "\<exists>r. main_start (\<lambda>_. example_engine) (\<lambda>_. True) (\<lambda>_. True) (\<lambda>_. True) example_environ 4 = Running r \<and> ru_interval_ms r < 0"
  by (simp add: example_starts example_running_def)

text \<open>The limits of the session pool and the issuer of the tokens are read and checked, and the running server does not depend on them.\<close>

theorem pool_settings_unused:
  "start create load_key listen (c\<lparr>cg_pool_max_size := n, cg_pool_idle_timeout_s := x, cg_pool_max_lifetime_s := y, cg_jwt_issuer := i\<rparr>) =
   start create load_key listen c"
  by (simp add: start_def)

end
