(* ===== verification/Ws_Transport.thy ===== *)
theory Ws_Transport
  imports Copy_Channel Decimal
begin

text \<open>
  The upstream side: \<^verbatim>\<open>src/upstream/upstream_client.h\<close> (the transport interface, its mock and the client), \<^verbatim>\<open>lws_transport.cpp\<close> (the
  transport over libwebsockets) and \<^verbatim>\<open>ws_task_scheduler.h\<close>. libwebsockets is not modelled: it appears as the callbacks it makes, with
  any arguments, and as the calls that are made of it, which are values of \<open>ws_effect\<close> like the calls of the owner's callbacks. A function that
  would call \<^verbatim>\<open>join\<close> on its own thread throws through C code and ends the process: it returns \<open>None\<close>.
\<close>

section \<open>Frames and effects\<close>

record ws_endpoint_config =
  we_url :: string
  we_api_key :: string
  we_max_payload_bytes :: u64
  we_connect_timeout_ms :: int
  we_idle_ping_ms :: int

definition default_endpoint :: ws_endpoint_config where
  "default_endpoint = \<lparr>we_url = ''wss://api.minimaxi.com/ws/v1/t2a_v2'', we_api_key = [], we_max_payload_bytes = 4 * 1024 * 1024,
     we_connect_timeout_ms = 5000, we_idle_ping_ms = 15000\<rparr>"

datatype raw_kind = Text | Binary | CloseKind | ErrorKind | OpenKind

record ws_raw_frame =
  rf_kind :: raw_kind
  rf_payload :: string
  rf_close_code :: int
  rf_close_reason :: string
  rf_error :: string

definition text_frame :: "string \<Rightarrow> ws_raw_frame" where
  "text_frame line = \<lparr>rf_kind = Text, rf_payload = line, rf_close_code = 0, rf_close_reason = [], rf_error = []\<rparr>"

definition error_frame :: "string \<Rightarrow> ws_raw_frame" where
  "error_frame e = \<lparr>rf_kind = ErrorKind, rf_payload = [], rf_close_code = 0, rf_close_reason = [], rf_error = e\<rparr>"

definition close_frame :: "int \<Rightarrow> string \<Rightarrow> ws_raw_frame" where
  "close_frame code reason = \<lparr>rf_kind = CloseKind, rf_payload = [], rf_close_code = code, rf_close_reason = reason, rf_error = []\<rparr>"

datatype ws_effect = OnOpen string | OnFrame ws_raw_frame | OnClose int string | LwsWrite string | RequestWritable

section \<open>The mock transport\<close>

record mock_transport =
  mt_callbacks :: bool
  mt_open :: bool

definition new_mock :: mock_transport where
  "new_mock = \<lparr>mt_callbacks = False, mt_open = False\<rparr>"

definition mock_open :: "ws_endpoint_config \<Rightarrow> mock_transport \<Rightarrow> mock_transport" where
  "mock_open cfg t = t\<lparr>mt_callbacks := True, mt_open := True\<rparr>"

definition mock_send_text :: "string \<Rightarrow> mock_transport \<Rightarrow> mock_transport \<times> ws_effect list" where
  "mock_send_text payload t = (t, [])"

definition mock_close :: "int \<Rightarrow> string \<Rightarrow> mock_transport \<Rightarrow> mock_transport \<times> ws_effect list" where
  "mock_close code reason t = (t\<lparr>mt_open := False\<rparr>, if mt_callbacks t then [OnClose code reason] else [])"

definition inject_open :: "string \<Rightarrow> mock_transport \<Rightarrow> ws_effect list" where
  "inject_open sid t = (if mt_callbacks t then [OnOpen sid] else [])"

definition inject_text :: "string \<Rightarrow> mock_transport \<Rightarrow> ws_effect list" where
  "inject_text text t = (if mt_callbacks t then [OnFrame (text_frame text)] else [])"

definition inject_close :: "int \<Rightarrow> string \<Rightarrow> mock_transport \<Rightarrow> mock_transport \<times> ws_effect list" where
  "inject_close code reason t =
     (t\<lparr>mt_open := False\<rparr>, if mt_callbacks t then [OnFrame (close_frame code reason), OnClose code reason] else [])"

section \<open>The transport over libwebsockets\<close>

record lws_client =
  lw_callbacks :: bool
  lw_endpoint :: ws_endpoint_config
  lw_wsi :: bool
  lw_connected :: bool
  lw_closed :: bool
  lw_session_id :: string
  lw_write_queue :: "string list"
  lw_recv_buffer :: string
  lw_connect_joinable :: bool
  lw_connect_stop :: bool
  lw_loop_joinable :: bool

definition new_lws :: lws_client where
  "new_lws = \<lparr>lw_callbacks = False, lw_endpoint = default_endpoint, lw_wsi = False, lw_connected = False, lw_closed = False,
     lw_session_id = [], lw_write_queue = [], lw_recv_buffer = [], lw_connect_joinable = False, lw_connect_stop = False,
     lw_loop_joinable = False\<rparr>"

datatype thread = ConnectThread | LoopThread | OtherThread

definition lws_open :: "ws_endpoint_config \<Rightarrow> lws_client \<Rightarrow> lws_client" where
  "lws_open cfg t = t\<lparr>lw_callbacks := True, lw_endpoint := cfg, lw_connect_joinable := True, lw_connect_stop := False\<rparr>"

definition lws_send_text :: "string \<Rightarrow> lws_client \<Rightarrow> lws_client \<times> ws_effect list" where
  "lws_send_text payload t =
     (t\<lparr>lw_write_queue := lw_write_queue t @ [payload]\<rparr>, if lw_wsi t then [RequestWritable] else [])"

text \<open>What \<^verbatim>\<open>close_internal\<close> does when its joins return, and when one of them is a thread's join of itself.\<close>

definition close_effects :: "int \<Rightarrow> string \<Rightarrow> lws_client \<Rightarrow> lws_client \<times> ws_effect list" where
  "close_effects code reason t =
     (if lw_closed t then (t, [])
      else (t\<lparr>lw_closed := True, lw_connected := False, lw_connect_stop := lw_connect_stop t \<or> lw_connect_joinable t,
              lw_loop_joinable := False, lw_connect_joinable := False\<rparr>,
            (if lw_wsi t then [RequestWritable] else []) @ (if lw_callbacks t then [OnClose code reason] else [])))"

definition joins_itself :: "thread \<Rightarrow> lws_client \<Rightarrow> bool" where
  "joins_itself self t \<longleftrightarrow> \<not> lw_closed t \<and>
     (lw_loop_joinable t \<and> self = LoopThread \<or> lw_connect_joinable t \<and> self = ConnectThread)"

definition close_internal :: "thread \<Rightarrow> int \<Rightarrow> string \<Rightarrow> lws_client \<Rightarrow> (lws_client \<times> ws_effect list) option" where
  "close_internal self code reason t = (if joins_itself self t then None else Some (close_effects code reason t))"

definition lws_close :: "int \<Rightarrow> string \<Rightarrow> lws_client \<Rightarrow> lws_client \<times> ws_effect list" where
  "lws_close code reason t = close_effects code reason t"

text \<open>\<^verbatim>\<open>run_loop\<close> up to its waiting loop: \<open>context\<close> and \<open>connect\<close> are whether libwebsockets makes a context and a connection.\<close>

definition run_loop :: "bool \<Rightarrow> bool \<Rightarrow> lws_client \<Rightarrow> lws_client \<times> ws_effect list" where
  "run_loop context connect t =
     (if \<not> context then (t, if lw_callbacks t then [OnClose 1006 ''context_create_failed''] else [])
      else (t\<lparr>lw_wsi := connect, lw_loop_joinable := True\<rparr>, []))"

record connect_info =
  ci_address :: string
  ci_port :: int
  ci_path :: string
  ci_host :: string

definition connect_wsi :: "lws_client \<Rightarrow> connect_info" where
  "connect_wsi t = \<lparr>ci_address = ''api.minimaxi.com'', ci_port = 443, ci_path = ''/ws/v1/t2a_v2'', ci_host = ''api.minimaxi.com''\<rparr>"

definition lws_generate_session_id :: "u64 \<Rightarrow> string \<times> u64" where
  "lws_generate_session_id ctr = (''sess-'' @ to_string_u64 ctr, ctr + 1)"

definition newline :: char where
  "newline = CHR 0x0A"

definition on_established :: "u64 \<Rightarrow> lws_client \<Rightarrow> lws_client \<times> ws_effect list" where
  "on_established ctr t =
     (let sid = fst (lws_generate_session_id ctr)
      in (t\<lparr>lw_connected := True, lw_session_id := sid\<rparr>, (if lw_callbacks t then [OnOpen sid] else []) @ [RequestWritable]))"

definition on_receive :: "string \<Rightarrow> lws_client \<Rightarrow> lws_client \<times> ws_effect list" where
  "on_receive chunk t =
     (if chunk = [] then (t, [])
      else let buf = lw_recv_buffer t @ chunk
           in if newline \<in> set buf then
                let line = takeWhile (\<lambda>c. c \<noteq> newline) buf
                in (t\<lparr>lw_recv_buffer := drop (length line + 1) buf\<rparr>, if lw_callbacks t then [OnFrame (text_frame line)] else [])
              else (t\<lparr>lw_recv_buffer := buf\<rparr>, []))"

definition on_writeable :: "lws_client \<Rightarrow> lws_client \<times> ws_effect list" where
  "on_writeable t =
     (let payload = (case lw_write_queue t of [] \<Rightarrow> [] | p # _ \<Rightarrow> p); t = t\<lparr>lw_write_queue := tl (lw_write_queue t)\<rparr>
      in (t, (if payload \<noteq> [] then [LwsWrite payload] else []) @ (if lw_write_queue t \<noteq> [] then [RequestWritable] else [])))"

datatype lws_reason =
  ClientEstablished | ClientReceive string | ClientWriteable | ClientConnectionError "string option" | ClientClosed | OtherReason

text \<open>The dispatcher; \<open>ctr\<close> is the static counter of \<^verbatim>\<open>generate_session_id\<close>.\<close>

fun callback :: "thread \<Rightarrow> u64 \<Rightarrow> lws_reason \<Rightarrow> lws_client \<Rightarrow> (lws_client \<times> ws_effect list) option" where
  "callback self ctr ClientEstablished t = Some (on_established ctr t)"
| "callback self ctr (ClientReceive chunk) t = Some (on_receive chunk t)"
| "callback self ctr ClientWriteable t = Some (on_writeable t)"
| "callback self ctr (ClientConnectionError e) t =
     map_option (\<lambda>(t', effs). (t',
         (if lw_callbacks t then [OnFrame (error_frame (case e of None \<Rightarrow> ''connection_error'' | Some s \<Rightarrow> c_str s))] else []) @ effs))
       (close_internal self 1006 ''connection_error'' t)"
| "callback self ctr ClientClosed t = close_internal self 1000 ''closed'' t"
| "callback self ctr OtherReason t = Some (t, [])"

text \<open>
  The entry that libwebsockets calls: \<open>owned\<close> is whether the connection's user data names its client, which \<^verbatim>\<open>connect_wsi\<close> has set.
\<close>

definition callback_static :: "bool \<Rightarrow> thread \<Rightarrow> u64 \<Rightarrow> lws_reason \<Rightarrow> lws_client \<Rightarrow> (lws_client \<times> ws_effect list) option" where
  "callback_static owned self ctr reason t = (if \<not> owned then Some (t, []) else callback self ctr reason t)"

definition lws_is_open :: "lws_client \<Rightarrow> bool" where
  "lws_is_open t = lw_connected t"

definition mock_is_open :: "mock_transport \<Rightarrow> bool" where
  "mock_is_open t = mt_open t"

record lws_protocol =
  lp_name :: string
  lp_per_session_data_size :: nat
  lp_rx_buffer_size :: nat

definition lws_protocols :: "lws_protocol list" where
  "lws_protocols = [\<lparr>lp_name = ''tts'', lp_per_session_data_size = 0, lp_rx_buffer_size = 65536\<rparr>]"

definition lws_destroy :: "thread \<Rightarrow> lws_client \<Rightarrow> (lws_client \<times> ws_effect list) option" where
  "lws_destroy self t = close_internal self 1000 ''shutdown'' t"

text \<open>
  The loop thread: a turn is whether a stop was requested and what \<^verbatim>\<open>lws_service\<close> calls back. The context exists while the loop runs.
\<close>

fun lws_service :: "u64 \<Rightarrow> lws_reason list \<Rightarrow> lws_client \<Rightarrow> (lws_client \<times> ws_effect list) option" where
  "lws_service ctr [] t = Some (t, [])"
| "lws_service ctr (r # rs) t =
     (case callback_static True LoopThread ctr r t of
        None \<Rightarrow> None
      | Some (t, es) \<Rightarrow> map_option (\<lambda>(t, es'). (t, es @ es')) (lws_service ctr rs t))"

fun service_loop :: "u64 \<Rightarrow> (bool \<times> lws_reason list) list \<Rightarrow> lws_client \<Rightarrow> (lws_client \<times> ws_effect list) option" where
  "service_loop ctr [] t = Some (t, [])"
| "service_loop ctr ((stop, rs) # turns) t =
     (if stop \<or> lw_closed t then Some (t, [])
      else
        (case lws_service ctr rs t of
           None \<Rightarrow> None
         | Some (t, es) \<Rightarrow> map_option (\<lambda>(t, es'). (t, es @ es')) (service_loop ctr turns t)))"

section \<open>The client\<close>

text \<open>\<^verbatim>\<open>UpstreamClient\<close> owns a transport of any kind; the transport's operations are arguments, as they are virtual in the source.\<close>

record 't upstream_client =
  uc_transport :: 't
  uc_session_id :: string

definition new_upstream :: "'t \<Rightarrow> 't upstream_client" where
  "new_upstream t = \<lparr>uc_transport = t, uc_session_id = []\<rparr>"

text \<open>The three callbacks that \<^verbatim>\<open>open\<close> installs; \<^verbatim>\<open>handle_frame\<close> has an empty body.\<close>

fun upstream_effect :: "ws_effect \<Rightarrow> 't upstream_client \<Rightarrow> 't upstream_client" where
  "upstream_effect (OnOpen sid) c = c\<lparr>uc_session_id := sid\<rparr>"
| "upstream_effect (OnFrame f) c = c"
| "upstream_effect (OnClose code reason) c = c\<lparr>uc_session_id := []\<rparr>"
| "upstream_effect (LwsWrite p) c = c"
| "upstream_effect RequestWritable c = c"

definition upstream_apply :: "'t \<times> ws_effect list \<Rightarrow> 't upstream_client \<Rightarrow> 't upstream_client" where
  "upstream_apply r c = fold upstream_effect (snd r) (c\<lparr>uc_transport := fst r\<rparr>)"

definition upstream_open :: "(ws_endpoint_config \<Rightarrow> 't \<Rightarrow> 't) \<Rightarrow> ws_endpoint_config \<Rightarrow> 't upstream_client \<Rightarrow> 't upstream_client" where
  "upstream_open open_transport cfg c = c\<lparr>uc_transport := open_transport cfg (uc_transport c)\<rparr>"

definition upstream_send ::
  "('t \<Rightarrow> bool) \<Rightarrow> (string \<Rightarrow> 't \<Rightarrow> 't \<times> ws_effect list) \<Rightarrow> string \<Rightarrow> 't upstream_client \<Rightarrow> 't upstream_client" where
  "upstream_send is_open send_text text c =
     (if is_open (uc_transport c) then upstream_apply (send_text text (uc_transport c)) c else c)"

definition upstream_close :: "(int \<Rightarrow> string \<Rightarrow> 't \<Rightarrow> 't \<times> ws_effect list) \<Rightarrow> 't upstream_client \<Rightarrow> 't upstream_client" where
  "upstream_close close_transport c = upstream_apply (close_transport 1000 ''client_close'' (uc_transport c)) c"

definition upstream_is_open :: "('t \<Rightarrow> bool) \<Rightarrow> 't upstream_client \<Rightarrow> bool" where
  "upstream_is_open is_open c = is_open (uc_transport c)"

text \<open>The destructor.\<close>

definition upstream_destroy :: "(int \<Rightarrow> string \<Rightarrow> 't \<Rightarrow> 't \<times> ws_effect list) \<Rightarrow> 't upstream_client \<Rightarrow> 't upstream_client" where
  "upstream_destroy close_transport c = upstream_apply (close_transport 1000 ''shutdown'' (uc_transport c)) c"

section \<open>The scheduler\<close>

record ws_outbound =
  ob_session_id :: string
  ob_frame :: out_ws_frame

type_synonym lws_clients = "(string, lws_client upstream_client) umap"

fun pump :: "out_ws_frame list \<Rightarrow> ws_outbound copy_channel \<Rightarrow> channel_error + ws_outbound copy_channel" where
  "pump [] ch = Inr ch"
| "pump (f # fs) ch =
     (case send \<lparr>ob_session_id = wf_session_id f, ob_frame = f\<rparr> ch of Inl e \<Rightarrow> Inl e | Inr ch' \<Rightarrow> pump fs ch')"

definition dispatch_one :: "ws_outbound \<Rightarrow> lws_clients \<Rightarrow> lws_clients" where
  "dispatch_one ob clients =
     AList.map_entry (ob_session_id ob)
       (\<lambda>c. case wf_op (ob_frame ob) of
              TaskStart \<Rightarrow> upstream_send lws_is_open lws_send_text (wf_payload_json (ob_frame ob)) c
            | TaskContinue \<Rightarrow> upstream_send lws_is_open lws_send_text (wf_payload_json (ob_frame ob)) c
            | TaskFinish \<Rightarrow> upstream_send lws_is_open lws_send_text (wf_payload_json (ob_frame ob)) c) clients"

definition dispatch_pending :: "ws_outbound copy_channel \<Rightarrow> lws_clients \<Rightarrow> ws_outbound copy_channel \<times> lws_clients" where
  "dispatch_pending ch clients =
     (let (drained, ch') = swap_out_all [] ch in (ch', fold dispatch_one drained clients))"


section \<open>The contract of a transport\<close>

declare lws_is_open_def [simp] mock_is_open_def [simp] upstream_is_open_def [simp]

fun silent :: "ws_effect \<Rightarrow> bool" where
  "silent (LwsWrite p) = True"
| "silent RequestWritable = True"
| "silent _ = False"

locale ws_transport =
  fixes is_open :: "'t \<Rightarrow> bool" and open_transport :: "ws_endpoint_config \<Rightarrow> 't \<Rightarrow> 't"
    and send_text :: "string \<Rightarrow> 't \<Rightarrow> 't \<times> ws_effect list" and close_transport :: "int \<Rightarrow> string \<Rightarrow> 't \<Rightarrow> 't \<times> ws_effect list"
    and usable :: "'t \<Rightarrow> bool"
  assumes send_is_open: "is_open (fst (send_text p t)) = is_open t"
    and send_silent: "list_all silent (snd (send_text p t))"
    and close_not_open: "usable t \<Longrightarrow> \<not> is_open (fst (close_transport code reason t))"
    and close_signals: "usable t \<Longrightarrow> is_open t \<Longrightarrow> OnClose code reason \<in> set (snd (close_transport code reason t))"
    and close_only: "\<forall>e\<in>set (snd (close_transport code reason t)). silent e \<or> e = OnClose code reason"
begin

lemma silent_effects: "list_all silent es \<Longrightarrow> fold upstream_effect es c = c"
proof (induction es arbitrary: c)
  case (Cons e es)
  then show ?case by (cases e) auto
qed simp

text \<open>Sending does not change which session the client is on, nor whether it is open.\<close>

lemma upstream_send_session:
  "uc_session_id (upstream_send is_open send_text text c) = uc_session_id c"
  "is_open (uc_transport (upstream_send is_open send_text text c)) = is_open (uc_transport c)"
  by (simp_all add: upstream_send_def upstream_apply_def send_is_open silent_effects [OF send_silent])

lemma close_effects_session:
  assumes "\<forall>e\<in>set es. silent e \<or> e = OnClose code reason"
  shows "uc_transport (fold upstream_effect es c) = uc_transport c \<and>
    uc_session_id (fold upstream_effect es c) = (if OnClose code reason \<in> set es then [] else uc_session_id c)"
  using assms
proof (induction es arbitrary: c)
  case (Cons e es)
  show ?case using Cons.IH [of "upstream_effect e c"] Cons.prems by (cases e) auto
qed simp

text \<open>A client whose open transport is closed is closed, and has forgotten its session.\<close>

lemma upstream_close_result:
  assumes "usable (uc_transport c)" and "is_open (uc_transport c)"
  shows "\<not> is_open (uc_transport (upstream_close close_transport c))" and "uc_session_id (upstream_close close_transport c) = []"
  using close_not_open [OF assms(1)] close_signals [OF assms, of 1000 "''client_close''"]
  by (simp_all add: upstream_close_def upstream_apply_def
      close_effects_session [OF close_only])

end

definition mock_usable :: "mock_transport \<Rightarrow> bool" where
  "mock_usable t \<longleftrightarrow> (mt_open t \<longrightarrow> mt_callbacks t)"

definition lws_usable :: "lws_client \<Rightarrow> bool" where
  "lws_usable t \<longleftrightarrow> (lw_connected t \<longrightarrow> lw_callbacks t \<and> lw_wsi t) \<and> (lw_closed t \<longrightarrow> \<not> lw_connected t)"

interpretation mock: ws_transport mock_is_open mock_open mock_send_text mock_close mock_usable
  by unfold_locales (auto simp: mock_send_text_def mock_close_def mock_usable_def split: if_splits)

interpretation lws: ws_transport lws_is_open lws_open lws_send_text lws_close lws_usable
  by unfold_locales (auto simp: lws_send_text_def lws_close_def close_effects_def lws_usable_def split: if_splits)

text \<open>A client over either transport that was connected and is closed is not open any more and has no session.\<close>

lemma connected_usable: "lws_usable (fst (on_established ctr (fst (run_loop True True (lws_open cfg new_lws)))))"
  by (simp add: lws_usable_def on_established_def run_loop_def lws_open_def new_lws_def Let_def)

lemma closed_client_has_no_session:
  assumes "uc_transport c = fst (on_established ctr (fst (run_loop True True (lws_open cfg new_lws))))"
  shows "\<not> upstream_is_open lws_is_open (upstream_close lws_close c) \<and> uc_session_id (upstream_close lws_close c) = []"
  using lws.upstream_close_result [of c] connected_usable [of ctr cfg] assms by (simp add: on_established_def Let_def)

lemma closed_mock_client_has_no_session:
  assumes "uc_transport c = mock_open cfg t"
  shows "\<not> upstream_is_open mock_is_open (upstream_close mock_close c) \<and> uc_session_id (upstream_close mock_close c) = []"
  using mock.upstream_close_result [of c] assms by (simp add: mock_usable_def mock_open_def)

section \<open>Writing\<close>

text \<open>What \<open>n\<close> callbacks for writing send, in order.\<close>

fun writes_of :: "ws_effect list \<Rightarrow> string list" where
  "writes_of [] = []"
| "writes_of (LwsWrite p # es) = p # writes_of es"
| "writes_of (_ # es) = writes_of es"

fun write_calls :: "nat \<Rightarrow> lws_client \<Rightarrow> string list \<times> lws_client" where
  "write_calls 0 t = ([], t)"
| "write_calls (Suc n) t =
     (let (t', es) = on_writeable t; (ps, t'') = write_calls n t' in (writes_of es @ ps, t''))"

lemma on_writeable_writes:
  "writes_of (snd (on_writeable t)) = filter (\<lambda>p. p \<noteq> []) (take 1 (lw_write_queue t))"
  "fst (on_writeable t) = t\<lparr>lw_write_queue := tl (lw_write_queue t)\<rparr>"
  by (cases "lw_write_queue t"; simp add: on_writeable_def Let_def)+

lemma write_calls_result:
  "length (lw_write_queue t) \<le> n \<Longrightarrow> write_calls n t = (filter (\<lambda>p. p \<noteq> []) (lw_write_queue t), t\<lparr>lw_write_queue := []\<rparr>)"
proof (induction n arbitrary: t)
  case (Suc n)
  have "write_calls n (fst (on_writeable t)) =
      (filter (\<lambda>p. p \<noteq> []) (tl (lw_write_queue t)), t\<lparr>lw_write_queue := []\<rparr>)"
    using Suc.IH [of "fst (on_writeable t)"] Suc.prems by (simp add: on_writeable_writes)
  then show ?case using on_writeable_writes [of t] by (cases "lw_write_queue t") (auto simp: Let_def split: prod.splits)
qed simp

lemma pump_result: "\<not> closed ch \<Longrightarrow>
  pump fs ch = Inr (ch\<lparr>buffer := buffer ch @ map (\<lambda>f. \<lparr>ob_session_id = wf_session_id f, ob_frame = f\<rparr>) fs\<rparr>)"
  by (induction fs arbitrary: ch) (simp_all add: send_def)

lemma upstream_send_lws:
  "upstream_send lws_is_open lws_send_text p c =
     (if lw_connected (uc_transport c)
      then c\<lparr>uc_transport := (uc_transport c)\<lparr>lw_write_queue := lw_write_queue (uc_transport c) @ [p]\<rparr>\<rparr> else c)"
  by (simp add: upstream_send_def upstream_apply_def lws_send_text_def)

lemma dispatch_one_client:
  "map_of (dispatch_one ob clients) sid =
     map_option (\<lambda>c. if ob_session_id ob = sid then upstream_send lws_is_open lws_send_text (wf_payload_json (ob_frame ob)) c else c)
       (map_of clients sid)"
  by (cases "wf_op (ob_frame ob)") (auto simp: dispatch_one_def map_of_map_entry option.map_ident split: option.splits)

lemma dispatch_all_client:
  assumes "map_of clients sid = Some c" and "lw_connected (uc_transport c)"
  shows "map_of (fold dispatch_one obs clients) sid = Some (c\<lparr>uc_transport := (uc_transport c)\<lparr>lw_write_queue := lw_write_queue (uc_transport c) @
    map (\<lambda>ob. wf_payload_json (ob_frame ob)) (filter (\<lambda>ob. ob_session_id ob = sid) obs)\<rparr>\<rparr>)"
  using assms
proof (induction obs arbitrary: clients c)
  case (Cons ob obs)
  let ?c = "if ob_session_id ob = sid then upstream_send lws_is_open lws_send_text (wf_payload_json (ob_frame ob)) c else c"
  have "map_of (dispatch_one ob clients) sid = Some ?c" using Cons.prems by (simp add: dispatch_one_client)
  moreover have "lw_connected (uc_transport ?c)" using Cons.prems by (simp add: upstream_send_lws)
  ultimately show ?case using Cons.IH [of "dispatch_one ob clients" ?c] Cons.prems by (auto simp: upstream_send_lws)
qed simp

text \<open>
  C31. The frames of a session are written in order. When a list of frames is pumped into the scheduler and dispatched, the
  connected client of a session writes, in as many writable callbacks as its queue is long, first what it had queued and then the
  payloads of exactly the frames for its session, each once, in the order of the list; only empty payloads are not written.
\<close>

theorem upstream_frames_written_in_order:
  fixes frames :: "out_ws_frame list"
  assumes "buffer ch = []" and "\<not> closed ch" and "map_of clients sid = Some c" and "lw_connected (uc_transport c)"
  defines "mine \<equiv> lw_write_queue (uc_transport c) @ map wf_payload_json (filter (\<lambda>f. wf_session_id f = sid) frames)"
  shows "\<exists>ch' ch'' clients' c'. pump frames ch = Inr ch' \<and> dispatch_pending ch' clients = (ch'', clients') \<and> buffer ch'' = [] \<and>
    map_of clients' sid = Some c' \<and> fst (write_calls (length mine) (uc_transport c')) = filter (\<lambda>p. p \<noteq> []) mine"
proof -
  let ?obs = "map (\<lambda>f. \<lparr>ob_session_id = wf_session_id f, ob_frame = f\<rparr>) frames"
  have "map (\<lambda>ob. wf_payload_json (ob_frame ob)) (filter (\<lambda>ob. ob_session_id ob = sid) ?obs) =
      map wf_payload_json (filter (\<lambda>f. wf_session_id f = sid) frames)"
    by (simp add: filter_map comp_def)
  then show ?thesis using pump_result [OF assms(2), of frames] dispatch_all_client [OF assms(3,4), of ?obs] assms(1)
    by (simp add: dispatch_pending_def swap_out_all_result write_calls_result mine_def)
qed

theorem upstream_frames_written_in_order_witness:
  "\<exists>c'. map_of (snd (dispatch_pending
        (projr (pump [\<lparr>wf_session_id = ''s'', wf_op = TaskStart, wf_payload_json = ''a''\<rparr>, \<lparr>wf_session_id = ''x'', wf_op = TaskStart, wf_payload_json = ''b''\<rparr>,
           \<lparr>wf_session_id = ''s'', wf_op = TaskContinue, wf_payload_json = ''c''\<rparr>] new_channel))
        [(''s'', new_upstream (new_lws\<lparr>lw_connected := True\<rparr>))])) ''s'' = Some c' \<and>
     fst (write_calls 2 (uc_transport c')) = [''a'', ''c'']"
  using upstream_frames_written_in_order [of new_channel "[(''s'', new_upstream (new_lws\<lparr>lw_connected := True\<rparr>))]" "''s''"
      "new_upstream (new_lws\<lparr>lw_connected := True\<rparr>)"
      "[\<lparr>wf_session_id = ''s'', wf_op = TaskStart, wf_payload_json = ''a''\<rparr>, \<lparr>wf_session_id = ''x'', wf_op = TaskStart, wf_payload_json = ''b''\<rparr>,
        \<lparr>wf_session_id = ''s'', wf_op = TaskContinue, wf_payload_json = ''c''\<rparr>]"]
  by (auto simp: new_channel_def new_upstream_def new_lws_def numeral_2_eq_2 simp del: write_calls.simps pump.simps)

section \<open>Receiving\<close>

fun frames_of :: "ws_effect list \<Rightarrow> string list" where
  "frames_of [] = []"
| "frames_of (OnFrame f # es) = rf_payload f # frames_of es"
| "frames_of (_ # es) = frames_of es"

fun receive_calls :: "string list \<Rightarrow> lws_client \<Rightarrow> string list \<times> lws_client" where
  "receive_calls [] t = ([], t)"
| "receive_calls (chunk # chunks) t =
     (let (t', es) = on_receive chunk t; (ls, t'') = receive_calls chunks t' in (frames_of es @ ls, t''))"

lemma on_receive_result:
  assumes "lw_callbacks t"
  shows "lw_callbacks (fst (on_receive chunk t)) \<and> length (frames_of (snd (on_receive chunk t))) \<le> 1 \<and>
    (\<forall>l\<in>set (frames_of (snd (on_receive chunk t))). newline \<notin> set l) \<and>
    concat (map (\<lambda>l. l @ [newline]) (frames_of (snd (on_receive chunk t)))) @ lw_recv_buffer (fst (on_receive chunk t)) =
      lw_recv_buffer t @ chunk"
proof -
  let ?buf = "lw_recv_buffer t @ chunk"
  have "takeWhile (\<lambda>c. c \<noteq> newline) ?buf @ newline # drop (length (takeWhile (\<lambda>c. c \<noteq> newline) ?buf) + 1) ?buf = ?buf" if "newline \<in> set ?buf"
  proof -
    have "dropWhile (\<lambda>c. c \<noteq> newline) ?buf = newline # tl (dropWhile (\<lambda>c. c \<noteq> newline) ?buf)"
      using that hd_dropWhile [of "\<lambda>c. c \<noteq> newline" ?buf] by (metis (mono_tags, lifting) dropWhile_eq_Nil_conv list.collapse)
    then show ?thesis
      by (metis (no_types, lifting) Suc_eq_plus1 drop_Suc dropWhile_eq_drop takeWhile_dropWhile_id tl_drop)
  qed
  moreover have "newline \<notin> set (takeWhile (\<lambda>c. c \<noteq> newline) ?buf)" using set_takeWhileD by fastforce
  ultimately show ?thesis using assms
    by (simp add: on_receive_def Let_def text_frame_def del: set_append drop_append takeWhile_append)
qed

lemma receive_calls_result:
  assumes "lw_callbacks t"
  shows "\<exists>ls t'. receive_calls chunks t = (ls, t') \<and> length ls \<le> length chunks \<and> list_all (\<lambda>l. newline \<notin> set l) ls \<and>
    concat (map (\<lambda>l. l @ [newline]) ls) @ lw_recv_buffer t' = lw_recv_buffer t @ concat chunks"
  using assms
proof (induction chunks arbitrary: t)
  case (Cons chunk chunks)
  obtain t1 es where e: "on_receive chunk t = (t1, es)" by (cases "on_receive chunk t")
  note r = on_receive_result [OF Cons.prems, of chunk, unfolded e fst_conv snd_conv]
  then obtain ls t' where "receive_calls chunks t1 = (ls, t')" "length ls \<le> length chunks" "list_all (\<lambda>l. newline \<notin> set l) ls"
    "concat (map (\<lambda>l. l @ [newline]) ls) @ lw_recv_buffer t' = lw_recv_buffer t1 @ concat chunks" using Cons.IH [of t1] by blast
  then show ?case using r by (auto simp: e list_all_iff)
qed simp

text \<open>
  C33. Receiving loses and invents nothing, and is slow. For any chunks that arrive, the lines handed to the owner, each with its newline,
  followed by what stays in the buffer, are exactly the bytes that were received; a line contains no newline; and each callback hands over
  at most one line, so that several lines in one chunk wait for later chunks.
\<close>

theorem received_lines_are_the_stream:
  assumes "lw_callbacks t"
  shows "\<exists>ls t'. receive_calls chunks t = (ls, t') \<and> length ls \<le> length chunks \<and> list_all (\<lambda>l. newline \<notin> set l) ls \<and>
    concat (map (\<lambda>l. l @ [newline]) ls) @ lw_recv_buffer t' = lw_recv_buffer t @ concat chunks"
  using assms by (rule receive_calls_result)

theorem received_lines_are_the_stream_witness:
  "\<exists>t'. receive_calls [''{a}'' @ [newline] @ ''{b}'' @ [newline], ''{c}''] (new_lws\<lparr>lw_callbacks := True\<rparr>) = ([''{a}'', ''{b}''], t') \<and>
    concat (map (\<lambda>l. l @ [newline]) [''{a}'', ''{b}'']) @ lw_recv_buffer t' = ''{a}'' @ [newline] @ ''{b}'' @ [newline] @ ''{c}''"
  using received_lines_are_the_stream [of "new_lws\<lparr>lw_callbacks := True\<rparr>" "[''{a}'' @ [newline] @ ''{b}'' @ [newline], ''{c}'']"]
  by (auto simp: on_receive_def newline_def new_lws_def text_frame_def)

text \<open>A message that does not contain a newline is never handed over.\<close>

theorem message_without_newline_withheld:
  assumes "newline \<notin> set (concat chunks)" and "lw_recv_buffer t = []" and "lw_callbacks t"
  shows "fst (receive_calls chunks t) = []"
proof -
  obtain ls t' where r: "receive_calls chunks t = (ls, t')"
    "concat (map (\<lambda>l. l @ [newline]) ls) @ lw_recv_buffer t' = concat chunks"
    using receive_calls_result [OF assms(3), of chunks] assms(2) by auto
  have "ls = []"
  proof (rule ccontr)
    assume "ls \<noteq> []"
    then have "newline \<in> set (concat (map (\<lambda>l. l @ [newline]) ls) @ lw_recv_buffer t')" by (cases ls) auto
    then show False using assms(1) r(2) by simp
  qed
  then show ?thesis using r(1) by simp
qed

section \<open>Ending a connection\<close>


text \<open>The endpoint's address and key are not used.\<close>

lemma endpoint_unused: "connect_wsi (lws_open cfg t) = connect_wsi (lws_open cfg' t)"
  by (simp add: connect_wsi_def)

text \<open>Closing from any other thread returns; \<^verbatim>\<open>on_close\<close> is called on the first close only.\<close>

theorem close_once:
  "close_internal OtherThread code reason t = Some (lws_close code reason t) \<and> snd (lws_close code' reason' (fst (lws_close code reason t))) = []"
  by (simp add: close_internal_def joins_itself_def lws_close_def close_effects_def)

text \<open>
  The loop thread never survives a close that the peer or an error causes while it serves a connection: as long as the client is not closed
  and its loop thread can be joined, the first such callback makes the loop join itself, whatever came before it.
\<close>

lemma callbacks_keep_joinable:
  "lw_closed (fst (on_established ctr t)) = lw_closed t" "lw_loop_joinable (fst (on_established ctr t)) = lw_loop_joinable t"
  "lw_closed (fst (on_receive c t)) = lw_closed t" "lw_loop_joinable (fst (on_receive c t)) = lw_loop_joinable t"
  "lw_closed (fst (on_writeable t)) = lw_closed t" "lw_loop_joinable (fst (on_writeable t)) = lw_loop_joinable t"
  by (simp_all add: on_established_def on_receive_def on_writeable_def Let_def)

lemma service_keeps_joinable:
  assumes "list_all (\<lambda>r. r \<in> {ClientEstablished, ClientWriteable, OtherReason} \<or> (\<exists>c. r = ClientReceive c)) rs"
    and "\<not> lw_closed t" and "lw_loop_joinable t"
  obtains t' es where "lws_service ctr rs t = Some (t', es)" and "\<not> lw_closed t'" and "lw_loop_joinable t'"
proof -
  have "\<exists>t' es. lws_service ctr rs t = Some (t', es) \<and> \<not> lw_closed t' \<and> lw_loop_joinable t'"
    using assms
  proof (induction rs arbitrary: t)
    case (Cons r rs)
    obtain t1 es where r: "callback LoopThread ctr r t = Some (t1, es)" "\<not> lw_closed t1" "lw_loop_joinable t1"
      using Cons.prems that [of "fst (the (callback LoopThread ctr r t))" "snd (the (callback LoopThread ctr r t))"]
      by (auto simp: callbacks_keep_joinable)
    from Cons.IH [of t1] Cons.prems(1) r show ?case by (auto simp: callback_static_def)
  qed simp
  then show ?thesis using that by blast
qed

theorem loop_thread_joins_itself:
  assumes "list_all (\<lambda>r. r \<in> {ClientEstablished, ClientWriteable, OtherReason} \<or> (\<exists>c. r = ClientReceive c)) rs"
    and "\<not> lw_closed t" and "lw_loop_joinable t" and "r = ClientClosed \<or> r = ClientConnectionError e"
  shows "service_loop ctr [(False, rs), (False, r # rs')] t = None"
proof -
  obtain t' es where "lws_service ctr rs t = Some (t', es)" "\<not> lw_closed t'" "lw_loop_joinable t'"
    using service_keeps_joinable [OF assms(1-3)] by blast
  then show ?thesis using assms(2,4) by (auto simp: callback_static_def close_internal_def joins_itself_def)
qed

end
