(* ===== verification/C_Types.thy ===== *)
theory C_Types
  imports Heartbeat_Properties Request_Parser
begin

text \<open>
  The integer types of the sources. The model has the \<^verbatim>\<open>int\<close> and \<^verbatim>\<open>std::int64_t\<close> members of \<^verbatim>\<open>src/framework/messages.h\<close>, \<^verbatim>\<open>src/framework/change_set.h\<close> and
  \<^verbatim>\<open>src/databoard/pending_request_store.h\<close> and the fields of \<^verbatim>\<open>proto/tts.proto\<close> as unbounded integers; here it is shown that the values stay inside the
  types, so no conversion on the way from a message to a response changes a value.
\<close>

section \<open>Ranges\<close>

definition c_int :: "int \<Rightarrow> bool" where
  "c_int x \<longleftrightarrow> - (2 ^ 31) \<le> x \<and> x < 2 ^ 31"

definition c_int64 :: "int \<Rightarrow> bool" where
  "c_int64 x \<longleftrightarrow> - (2 ^ 63) \<le> x \<and> x < 2 ^ 63"

lemma c_int_wide: "c_int x \<Longrightarrow> c_int64 x"
  by (simp add: c_int_def c_int64_def)

lemma c_int_constants [simp]: "c_int 0" "c_int 1" "c_int 8000" "c_int 16000" "c_int 128000"
  by (simp_all add: c_int_def)

definition typed_request :: "tts_request_msg \<Rightarrow> bool" where
  "typed_request r \<longleftrightarrow> c_int (vs_pitch (rq_voice r)) \<and> c_int (as_sample_rate (rq_audio r)) \<and> c_int (as_bitrate (rq_audio r)) \<and>
     c_int (as_channel (rq_audio r))"

fun typed_message :: "message \<Rightarrow> bool" where
  "typed_message (ReqMsg r) = typed_request r"
| "typed_message (RspMsg r) =
     (c_int (rs_sample_rate r) \<and> c_int (rs_channels r) \<and> c_int (rs_usage_characters r) \<and> c_int (rs_status_code r))"
| "typed_message (CancelMsg _) = True"
| "typed_message (CompleteMsg c) =
     (c_int (lc_sample_rate c) \<and> c_int (lc_channels c) \<and> c_int (lc_usage_ms c) \<and> c_int (lc_status_code c))"
| "typed_message (FailedMsg f) = c_int (lf_status_code f)"

definition typed_pending :: "pending_request \<Rightarrow> bool" where
  "typed_pending p \<longleftrightarrow> c_int (pr_sample_rate p) \<and> c_int (pr_channels p) \<and> c_int (pr_usage_characters p) \<and> c_int (pr_status_code p)"

definition typed_write :: "write_to_client \<Rightarrow> bool" where
  "typed_write w \<longleftrightarrow> c_int (wc_sample_rate w) \<and> c_int (wc_channels w) \<and> c_int (wc_audio_length_ms w) \<and> c_int (wc_status_code w) \<and>
     wc_cumulative_bytes w = int (length (wc_audio w))"

definition typed_proto :: "synthesize_request \<Rightarrow> bool" where
  "typed_proto proto \<longleftrightarrow> c_int (pv_pitch (sp_voice proto)) \<and> c_int (pa_sample_rate (sp_audio proto)) \<and>
     c_int (pa_bitrate (sp_audio proto)) \<and> c_int (pa_channel (sp_audio proto))"

definition typed_response :: "synthesize_response \<Rightarrow> bool" where
  "typed_response r \<longleftrightarrow> c_int (am_sample_rate (so_meta r)) \<and> c_int (am_channels (so_meta r)) \<and> am_format (so_meta r) \<in> {0..4} \<and>
     c_int64 (am_audio_length_ms (so_meta r)) \<and> c_int64 (am_audio_size_bytes (so_meta r)) \<and> c_int64 (am_usage_characters (so_meta r)) \<and>
     c_int64 (so_cumulative_bytes r) \<and> c_int (so_status_code r)"

section \<open>Requests\<close>

text \<open>What the parser makes of the fields of a request is typed.\<close>

lemma apply_voice_pitch: "vs_pitch (apply_voice src dst) = pv_pitch src"
  by (simp add: apply_voice_def Let_def)

lemma typed_settings:
  assumes "typed_proto proto" and "rq_voice r = apply_voice (sp_voice proto) v"
    and "rq_audio r = apply_audio (sp_audio proto) default_audio_settings"
  shows "typed_request r"
  using assms by (simp add: typed_request_def typed_proto_def apply_voice_pitch apply_audio_fields effective_def)

lemma parsed_typed:
  assumes "typed_proto proto" and "parse_unary proto rid = Inr r"
  shows "typed_request r"
proof -
  have "rq_voice r = apply_voice (sp_voice proto) (rq_voice default_request)" "rq_audio r = apply_audio (sp_audio proto) default_audio_settings"
    using assms(2) by (auto simp: parse_unary_def Let_def default_request_audio split: sum.splits)
  then show ?thesis by (rule typed_settings [OF assms(1)])
qed

lemma parsed_chunk_typed:
  assumes "typed_proto proto" and "parse_chunk chunk rid proto first = Inr r"
  shows "typed_request r"
proof -
  obtain s where s: "chunk_settings proto first (default_request\<lparr>rq_request_id := rid\<rparr>) = Inr s"
      and r: "rq_voice r = rq_voice s" "rq_audio r = rq_audio s"
    using assms(2) by (auto simp: parse_chunk_def split: sum.splits text_chunk.splits)
  have "typed_request s"
  proof (cases first)
    case True
    then have "rq_voice s = apply_voice (sp_voice proto) (rq_voice default_request)" "rq_audio s = apply_audio (sp_audio proto) default_audio_settings"
      using s by (auto simp: chunk_settings_def Let_def default_request_audio split: sum.splits)
    then show ?thesis by (rule typed_settings [OF assms(1)])
  next
    case False
    then show ?thesis using s by (auto simp: chunk_settings_def typed_request_def message_defaults)
  qed
  with r show ?thesis by (simp add: typed_request_def)
qed

section \<open>The store\<close>

definition typed_store :: "pending_store \<Rightarrow> bool" where
  "typed_store s \<longleftrightarrow> (\<forall>i p. pending_get s i = Some p \<longrightarrow> typed_pending p)"

lemma typed_store_ops:
  assumes "typed_store s"
  shows "typed_pending p \<Longrightarrow> typed_store (pending_add p t s)" and "typed_store (pending_remove i s)" and "typed_store (set_state i x s)"
    and "c_int u \<Longrightarrow> typed_store (snd (append_chunk i d f u t s))" and "c_int c \<Longrightarrow> typed_store (set_status i c m s)"
    and "c_int (as_sample_rate a) \<Longrightarrow> c_int (as_channel a) \<Longrightarrow> typed_store (reopen_local i a s)"
  using assms by (auto simp: typed_store_def typed_pending_def store_laws split: option.splits if_splits)

lemma typed_store_fold:
  assumes "typed_store (pending_of st)"
  shows "c_int (rs_status_code rsp) \<Longrightarrow> typed_store (pending_of (fold (fail_pending rsp) ids st))"
    and "typed_store (pending_of (fold drop_pending ids st))"
  using assms
  by (induction ids arbitrary: st) (simp_all add: fail_pending_def drop_pending_def Let_def typed_store_ops)

lemma typed_new_pending: "typed_request r \<Longrightarrow> typed_pending (local_pending r)"
  by (simp add: typed_request_def typed_pending_def local_pending_def default_pending_def)

lemma typed_handle_request:
  assumes "typed_store (pending_of st)" and "typed_request r"
  shows "typed_store (pending_of (handle_request env r st))"
proof -
  have "typed_store (pending_of (open_local_pending env r st'))" if "typed_store (pending_of st')" for st'
    using that assms(2) by (auto simp: open_local_pending_def Let_def split_beta typed_store_ops typed_new_pending typed_request_def split: option.splits)
  moreover have "typed_store (pending_of (bind_request env i h r st'))" if "typed_store (pending_of st')" for i h st'
    using that assms(2) by (auto simp: bind_request_def Let_def split_beta typed_store_ops typed_pending_def typed_request_def default_pending_def)
  ultimately show ?thesis using assms(1)
    by (auto simp: handle_request_def handle_request_local_def handle_request_upstream_def split_beta Let_def)
qed

lemma typed_handle_message:
  "typed_store (pending_of st) \<Longrightarrow> typed_message m \<Longrightarrow> typed_store (pending_of (handle_message env m st))"
  by (cases m) (auto simp: typed_handle_request handle_response_def handle_local_complete_def handle_local_failed_def handle_cancel_def
      split_beta Let_def typed_store_ops typed_store_fold split: ws_event_kind.splits)

lemma typed_emit: "typed_store (pending_of st) \<Longrightarrow> typed_store (pending_of (emit_completed i st))"
  by (simp add: emit_completed_def Let_def typed_store_ops split: option.splits)

definition typed :: "server \<Rightarrow> bool" where
  "typed st \<longleftrightarrow> server_ok st \<and> typed_store (pending_of st)"

interpretation typed: heartbeat_invariant env typed_message typed for env
proof
  fix st st' :: server
  assume i: "typed st"
  then have ok: "server_ok st" by (simp add: typed_def)
  show "typed (handle_message env m st)" if "typed_message m" for m
    using i that by (simp add: typed_def ok_handle_message typed_handle_message)
  show "typed (emit_completed i st)" for i
    using i by (simp add: typed_def ok_emit_completed typed_emit)
  show "typed (run_evolution env st)"
    using i ok by (auto simp: typed_def ok_run_evolution typed_store_def evolution_pending_get)
  show "typed st'" if "same_data st st'"
    using i that ok_same [OF ok that] by (simp add: typed_def same_data_def)
qed

section \<open>Responses\<close>

lemma typed_answers: "typed_message m \<Longrightarrow> w \<in> set (answers m) \<Longrightarrow> typed_write w"
  by (cases m) (auto simp: typed_write_def complete_write_def failed_write_def default_write_def)

lemma typed_emitted: "typed_pending p \<Longrightarrow> bytes_counted p \<Longrightarrow> typed_write (emitted_write i p)"
  by (simp add: typed_write_def typed_pending_def bytes_counted_def emitted_write_def default_write_def)

lemma typed_tick_writes:
  assumes "typed st" and "channels_guarded typed_message st" and "hb_changeset st = empty_change_set"
    and w: "w \<in> set (client_writes (fst (tick env st)))"
  shows "typed_write w"
proof -
  let ?s = "pending_of (after_batch env st)"
  have t: "typed (after_batch env st)" by (rule typed.inv_phases(2) [OF assms(1,2)])
  then have wf: "pending_wf ?s" by (simp add: typed_def server_ok_def)
  have ok: "server_ok st" using assms(1) by (simp add: typed_def)
  from w consider m where "m \<in> set (tick_batch st)" "w \<in> set (answers m)"
    | i where "i \<in> set (find_ready_to_emit ?s)" "w = emitted_write i (the (pending_get ?s i))"
    by (auto simp: tick_writes [OF ok assms(3)])
  then show ?thesis
  proof cases
    case 1
    then show ?thesis using assms(2) typed_answers by (auto simp: channels_guarded_def)
  next
    case 2
    then obtain p where p: "pending_get ?s i = Some p" using find_ready_to_emit_set [OF wf] by auto
    then have "typed_pending p" using t by (auto simp: typed_def typed_store_def)
    moreover have "bytes_counted p" using wf p by (auto simp: pending_wf_def pending_get_def dest!: map_of_SomeD)
    ultimately show ?thesis using 2 p by (simp add: typed_emitted)
  qed
qed

lemma format_to_proto_range: "format_to_proto f \<in> {0..4}"
  by (cases f) simp_all

lemma length_int64:
  assumes "length xs < 2 ^ 63"
  shows "c_int64 (int (length xs))"
proof -
  have "int (length xs) < int (2 ^ 63)" using assms by (simp only: of_nat_less_iff)
  then show ?thesis by (simp add: c_int64_def)
qed

lemma typed_to_proto:
  assumes "typed_write w" and "length (wc_audio w) < 2 ^ 63"
  shows "typed_response (to_proto w)"
  using assms(1) length_int64 [OF assms(2)] format_to_proto_range [of "wc_format w"]
  by (simp add: typed_write_def typed_response_def to_proto_def c_int_wide)

text \<open>
  C16. Every response is well typed: if every message that was ever sent to the heartbeat has its integers inside the C++ types, then in every
  tick of every run each response made from a client write has its fields inside the types of the protocol, whose narrower ones are
  32 bits wide, its format is a value of the enumeration, and its byte count is the length of its audio. So the conversions from the
  store's members to the write's and from the write's to the response's lose nothing.
\<close>

theorem responses_typed:
  assumes "list_all (op_guard typed_message) ops"
    and "w \<in> set (client_writes (fst (tick env (snd (server_run env ops new_server)))))" and "length (wc_audio w) < 2 ^ 63"
  shows "typed_response (to_proto w) \<and> so_cumulative_bytes (to_proto w) = am_audio_size_bytes (so_meta (to_proto w))"
proof -
  let ?st = "snd (server_run env ops new_server)"
  have "typed new_server" "channels_guarded typed_message new_server"
    using ok_new_server by (simp_all add: typed_def typed_store_def channels_guarded_def)
      (simp_all add: new_server_def new_board_def pending_get_def tick_batch_def new_channel_def)
  with assms(1) have t: "typed ?st" "channels_guarded typed_message ?st" by (simp_all add: typed.inv_run)
  have "hb_changeset ?st = empty_change_set" by (rule run_changeset [OF ok_new_server new_server_changeset])
  from typed_tick_writes [OF t this assms(2)] assms(3) typed_to_proto show ?thesis
    by (auto simp: typed_write_def to_proto_def)
qed

theorem responses_typed_witness:
  "typed_response (to_proto (hd (client_writes (fst (tick example_env
     (snd (server_run example_env [SendRequest (CompleteMsg (default_complete\<lparr>lc_request_id := ''r'', lc_audio := [1, 2]\<rparr>))] new_server)))))))"
proof -
  let ?c = "default_complete\<lparr>lc_request_id := ''r'', lc_audio := [1, 2]\<rparr>"
  let ?ops = "[SendRequest (CompleteMsg ?c)]"
  let ?st = "snd (server_run example_env ?ops new_server)"
  have g: "list_all (op_guard typed_message) ?ops" by (simp add: default_complete_def)
  have "server_ok ?st" by (rule ok_run [OF ok_new_server])
  moreover have "hb_changeset ?st = empty_change_set" by (rule run_changeset [OF ok_new_server new_server_changeset])
  moreover have "tick_batch ?st = [CompleteMsg ?c]"
    by (simp add: tick_batch_def send_into_def send_def new_server_def new_channel_def)
  ultimately obtain ws where ws: "client_writes (fst (tick example_env ?st)) = complete_write ?c # ws" by (simp add: tick_writes)
  then have "complete_write ?c \<in> set (client_writes (fst (tick example_env ?st)))" by simp
  from responses_typed [OF g this] show ?thesis unfolding ws by (simp add: complete_write_def default_write_def)
qed

end
