(* ===== verification/Subscriptions.thy ===== *)
theory Subscriptions
  imports Observability
begin

text \<open>
  The lifetime of the observers of \<^verbatim>\<open>src/observability\<close>: each keeps the handles of its subscriptions as members, assigns them in
  \<^verbatim>\<open>wire\<close> and resets them in \<^verbatim>\<open>unwire\<close>, which its destructor calls.
\<close>

section \<open>The observers' members\<close>

text \<open>
  The handles the collector and the logger keep, and the constructors of the three observers, which start from empty handles.
\<close>

record observer =
  sub_connected :: scoped_subscription
  sub_disconnected :: scoped_subscription
  sub_send_failed :: scoped_subscription

definition new_metrics_collector :: "tts_bus \<Rightarrow> observer \<times> tts_bus" where
  "new_metrics_collector b =
     (case assign_subscription T_UpstreamConnected collect_connected empty_handle b of (h1, b) \<Rightarrow>
      case assign_subscription T_UpstreamDisconnected collect_disconnected empty_handle b of (h2, b) \<Rightarrow>
      case assign_subscription T_WsFrameSendFailed collect_send_failed empty_handle b of (h3, b) \<Rightarrow>
        (\<lparr>sub_connected = h1, sub_disconnected = h2, sub_send_failed = h3\<rparr>, b))"

definition new_event_logger :: "tts_bus \<Rightarrow> observer \<times> tts_bus" where
  "new_event_logger b =
     (case assign_subscription T_UpstreamConnected log_event empty_handle b of (h1, b) \<Rightarrow>
      case assign_subscription T_UpstreamDisconnected log_event empty_handle b of (h2, b) \<Rightarrow>
      case assign_subscription T_WsFrameSendFailed log_event empty_handle b of (h3, b) \<Rightarrow>
        (\<lparr>sub_connected = h1, sub_disconnected = h2, sub_send_failed = h3\<rparr>, b))"

definition new_admission_gate :: "tts_bus \<Rightarrow> scoped_subscription \<times> tts_bus" where
  "new_admission_gate b = assign_subscription T_HeartbeatTick gate_on_tick empty_handle b"

definition observer_unwire :: "observer \<Rightarrow> tts_bus \<Rightarrow> observer \<times> tts_bus" where
  "observer_unwire ob b =
     (case reset_handle (sub_connected ob) b of (h1, b) \<Rightarrow>
      case reset_handle (sub_disconnected ob) b of (h2, b) \<Rightarrow>
      case reset_handle (sub_send_failed ob) b of (h3, b) \<Rightarrow>
        (\<lparr>sub_connected = h1, sub_disconnected = h2, sub_send_failed = h3\<rparr>, b))"

definition gate_unwire :: "scoped_subscription \<Rightarrow> tts_bus \<Rightarrow> scoped_subscription \<times> tts_bus" where
  "gate_unwire h b = reset_handle h b"

section \<open>Wiring and unwiring\<close>

lemmas observer_defs = new_metrics_collector_def new_event_logger_def new_admission_gate_def observer_unwire_def gate_unwire_def

text \<open>The wiring with handles is the wiring of \<open>Observability\<close>.\<close>

lemma wired_with_handles:
  "snd (new_metrics_collector b) = metrics_collector_wire b" "snd (new_event_logger b) = event_logger_wire b"
  "snd (new_admission_gate b) = admission_gate_wire b"
  by (simp_all add: observer_defs assign_to_empty wire_defs)

text \<open>
  The observers of the program undo their wiring: when the gate, the logger and the collector are destroyed, in that order, no
  event has a listener any more; when only the logger is, every event has the effect it had but for the log.
\<close>

theorem observers_unwire:
  assumes c: "new_metrics_collector new_bus = (mc, b1)" and l: "new_event_logger b1 = (el, b2)" and g: "new_admission_gate b2 = (ag, b3)"
  shows "publish_sync e (snd (observer_unwire mc (snd (observer_unwire el (snd (gate_unwire ag b3)))))) s = s"
    and "publish_sync e (snd (observer_unwire el b3)) s = (publish_sync e b3 s)\<lparr>ob_log := ob_log s\<rparr>"
proof -
  have b: "b3 = observability_bus"
    using wired_with_handles(1) [of new_bus] wired_with_handles(2) [of b1] wired_with_handles(3) [of b2]
    unfolding c l g observability_bus_def by simp
  have n: "next_id b1 = 4" "next_id b2 = 7"
    using c l by (auto simp: observer_defs assign_to_empty next_id_subscribe new_bus_def)
  have h: "mc = \<lparr>sub_connected = new_handle 1, sub_disconnected = new_handle 2, sub_send_failed = new_handle 3\<rparr>"
    "el = \<lparr>sub_connected = new_handle 4, sub_disconnected = new_handle 5, sub_send_failed = new_handle 6\<rparr>"
    "ag = new_handle 7"
    using c l g n by (auto simp: observer_defs assign_to_empty next_id_subscribe new_bus_def)
  have ids: "bucket observability_bus t = (case t of
      T_UpstreamConnected \<Rightarrow> [\<lparr>slot_fn = collect_connected, slot_id = 1\<rparr>, \<lparr>slot_fn = log_event, slot_id = 4\<rparr>]
    | T_UpstreamDisconnected \<Rightarrow> [\<lparr>slot_fn = collect_disconnected, slot_id = 2\<rparr>, \<lparr>slot_fn = log_event, slot_id = 5\<rparr>]
    | T_WsFrameSendFailed \<Rightarrow> [\<lparr>slot_fn = collect_send_failed, slot_id = 3\<rparr>, \<lparr>slot_fn = log_event, slot_id = 6\<rparr>]
    | T_HeartbeatTick \<Rightarrow> [\<lparr>slot_fn = gate_on_tick, slot_id = 7\<rparr>])" for t
    by (cases t) (simp_all add: observability_bus_def wire_defs bucket_subscribe bucket_new next_id_subscribe, simp_all add: new_bus_def)
  show "publish_sync e (snd (observer_unwire mc (snd (observer_unwire el (snd (gate_unwire ag b3)))))) s = s"
    by (cases e) (simp_all add: b h publish_sync_def dispatch_bucket observer_unwire_def gate_unwire_def reset_owner bucket_unsubscribe ids)
  show "publish_sync e (snd (observer_unwire el b3)) s = (publish_sync e b3 s)\<lparr>ob_log := ob_log s\<rparr>"
    by (cases e) (simp_all add: b h publish_sync_def dispatch_bucket observer_unwire_def reset_owner bucket_unsubscribe ids)
qed

end
