(* ===== verification/Spec2Isabelle.thy ===== *)
theory Spec2Isabelle
  imports Refusal_Log Channel_Threads Config Ws_Transport C_Types Subscriptions
begin

text \<open>
  A verification development for the text-to-speech server under \<^verbatim>\<open>src/src\<close>.

  \<^bold>\<open>The program.\<close> gRPC calls (\<^verbatim>\<open>entry\<close>) are authenticated and parsed and become messages in a channel (\<^verbatim>\<open>framework/copy_channel.h\<close>). One heartbeat
  thread (\<^verbatim>\<open>main.cpp\<close>) repeats a tick: drain the channels, handle each message on the shared board (\<^verbatim>\<open>databoard\<close>: session pool, pending
  requests, metrics, voices), evolve the board, collect a change set (\<^verbatim>\<open>heartbeat\<close>). It then dispatches the client writes of the change set to
  the streams of the calls and runs the synthesis jobs on the local engine (\<^verbatim>\<open>local\<close>), whose results go back into the channel. Requests that are
  not served locally are bound to a session of an upstream WebSocket service (\<^verbatim>\<open>upstream\<close>). An event bus carries tick and request events to the
  observers (\<^verbatim>\<open>observability\<close>); a reactor with two thread pools and a timer (\<^verbatim>\<open>framework\<close>) is started beside it.

  \<^bold>\<open>Theories and sources.\<close>
  \<^item> \<open>Tts_Prelude\<close>: types, the model of \<^verbatim>\<open>unordered_map\<close>, and the interfaces \<open>erasable_store\<close>, \<open>keyed_store\<close>, \<open>guarded_system\<close> (an invariant kept by
    every operation holds in every run), \<open>text_codec\<close>, \<open>ordered_system\<close> (steps that descend in a well-founded order come to rest) and its special case
    \<open>measured_system\<close> (steps that lower a weight), used for every termination proof about threads.
  \<^item> \<open>Messages\<close>, \<open>Copy_Channel\<close>, \<open>Event_Bus\<close>: \<^verbatim>\<open>framework/messages.h\<close>, \<^verbatim>\<open>change_set.h\<close>, \<^verbatim>\<open>copy_channel.h\<close>, \<^verbatim>\<open>event_bus.{h,cpp}\<close>. Messages leave the channel in
    order, none lost or duplicated; asynchronous events run exactly once; a handle owns its subscription.
  \<^item> \<open>Channel_Threads\<close>: the threads waiting in a channel, with its mutex, condition variable and timeouts. No wake-up is lost: the flag and the queue change under
    the mutex, in contrast to the stop flags of pool and bus.
  \<^item> \<open>Bus_Inbox\<close>: the inbox and the worker threads of \<^verbatim>\<open>event_bus.cpp\<close> with mutex, condition variable and stop tokens, as a step relation that refines the bus of
    \<open>Event_Bus\<close>. Every published event is handled after boundedly many steps; a stop can be missed.
  \<^item> \<open>Session_Pool\<close>, \<open>Pending_Store\<close>, \<open>Metrics\<close>: \<^verbatim>\<open>databoard/*.h\<close> and \<^verbatim>\<open>heartbeat/backpressure_controller.h\<close>. The pool refines a list in order of last use;
    the stores stay consistent under every sequence of operations; counters are 64-bit words.
  \<^item> \<open>Hex_Codec\<close>, \<open>Ws_Codec\<close>: \<^verbatim>\<open>upstream/hex_codec.h\<close>, \<^verbatim>\<open>ws_frame_codec.{h,cpp}\<close>, \<^verbatim>\<open>minimax_protocol_adapter.h\<close>. Round trips, malformed input included.
  \<^item> \<open>Evolution\<close>, \<open>Message_Processor\<close>, \<open>Heartbeat\<close>: \<^verbatim>\<open>heartbeat/*.h\<close>, operation by operation; the state is the record \<open>server\<close>, the clock, the random
    generator and the flags of the engine are the record \<open>environment\<close>. \<open>Heartbeat_Laws\<close> has the invariants and the interface \<open>heartbeat_invariant\<close> that
    lifts an invariant of the handlers to runs of ticks; \<open>Heartbeat_Properties\<close> has what a tick answers, the accounting of requests in flight,
    and what happens to upstream requests.
  \<^item> \<open>C_Types\<close>: the integer types of messages, store and responses; every response stays inside them.
  \<^item> \<open>Observability\<close>, \<open>Subscriptions\<close>: \<^verbatim>\<open>observability/*.h\<close>, the three subscribers on the bus, and the handles they hold from construction to destruction.
  \<^item> \<open>Decimal\<close>, \<open>Request_Parser\<close>, \<open>Jwt\<close>, \<open>Tts_Service\<close>: number parsing of the standard library, and \<^verbatim>\<open>entry/*\<close>. Exact acceptance conditions, and the
    delivery to streams under every interleaving of calls and dispatches. \<open>Stream_Call\<close> is the handler of \<^verbatim>\<open>SynthesizeStream\<close> from beginning to end, which returns.
  \<^item> \<open>Floating\<close>, \<open>Resampler\<close>, \<open>Local_Engine\<close>: \<^verbatim>\<open>local/*\<close> and \<^verbatim>\<open>entry/mediator_tts_service_impl.h\<close>. \<open>Floating\<close> is rounding to 24 or 53 significant bits, to nearest
    with ties to even; the resampler's reads are shown to be in range with that rounding.
  \<^item> \<open>Priority_Timer\<close>, \<open>Thread_Pool\<close>, \<open>Reactor\<close>: \<^verbatim>\<open>framework/priority_timer.h\<close>, \<^verbatim>\<open>thread_pool.h\<close>, \<^verbatim>\<open>clock.h\<close>, \<^verbatim>\<open>task.{h,cpp}\<close>, \<^verbatim>\<open>reactor.h\<close>. The expiry loop is
    proved from the laws of a priority queue; the pool is a step relation with its mutex and condition variable. \<open>Reactor_Threads\<close> puts the loop thread, the
    workers of both pools and the thread in \<^verbatim>\<open>stop\<close> together.
  \<^item> \<open>Ws_Transport\<close>: \<^verbatim>\<open>upstream/upstream_client.h\<close>, \<^verbatim>\<open>lws_transport.cpp\<close>, \<^verbatim>\<open>ws_task_scheduler.h\<close>. The interface \<open>ws_transport\<close> is the contract of a transport,
    met by the mock and by the one over libwebsockets.
  \<^item> \<open>Config\<close>: \<^verbatim>\<open>config.{h,cpp}\<close> and the start of \<^verbatim>\<open>main.cpp\<close> with its exit codes.
  \<^item> \<open>Tts_System\<close>: the heartbeat thread of \<^verbatim>\<open>main.cpp\<close> composed with the service, the board and the engine. A step is one tick, the dispatch of one
    write, the run of one job, one step of a call or one event of a bus worker, in any order. Every job is answered once and in order, by the next tick,
    and only to the client that asked.
  \<^item> \<open>Lifecycle\<close>: the process of \<^verbatim>\<open>main.cpp\<close>: the signal flag, the heartbeat thread's loop around that system, the threads of reactor and bus, the calls, and the
    main thread with its shutdown sequence, any of which can make the next step. The requests in progress are abandoned by a shutdown.
  \<^item> \<open>Process_End\<close>: after a signal the process ends, all threads left, provided no stop flag is set while a worker is between its test and its sleep; without
    that there is a run in which main waits for ever.
  \<^item> \<open>Refusal_Log\<close>: what becomes of a refused request, from the tick over the bus and its workers to the log.
  \<^item> This theory composes the start of the program with the running system, with the verification of tokens and with the log of the process.

  \<^bold>\<open>Bounds.\<close> Loops are total functions except \<open>mix_loop\<close>, which does not return for zero channels and is a partial function, \<open>stream_loop\<close>, a partial
  function that returns within 3002 turns if the clock advances by the 20 ms of each pause (60 s are 3000 pauses), and \<open>pop_loop\<close>, a while loop that is shown to end; there
  is no fuel. Steps of threads are counted by a weight, which bounds how many a run can have; for the whole
  process three counts are compared one after the other, since a last tick may give work to all threads. Sequence numbers and ids are 64-bit words and the properties that need them to be distinct say so. Lengths of audio are
  bounded where double rounding matters (2^30 samples). Runs are finite lists of steps, so the properties hold of every prefix of an execution.

  \<^bold>\<open>Parameters.\<close> nlohmann::json (\<^verbatim>\<open>dump\<close>, \<^verbatim>\<open>parse\<close>), base64 and RSA of OpenSSL, the sherpa-onnx library, libwebsockets (which appears as the callbacks it makes),
  clocks, random values, the environment variables, the file system, and the values of \<open>exp\<close> and \<open>sin\<close> in the mock engine.

  \<^bold>\<open>Not modelled.\<close> The generated protobuf and gRPC classes (the messages are records with the fields in use; transport and threading of gRPC are the
  interleavings of the calls, and a shutdown of the server waits for the running calls); the text of log lines; the pushes of one tick, which are one step with the tick, as is a drain of a channel; data races
  on fields that the code does not protect; allocation failures; and exceptions thrown by a task of a pool, which end the process; members that are only declared (interfaces,
  accessors of shared pointers, deleted copies), the file reader \<^verbatim>\<open>slurp\<close> and the condition variable of the timer, which nothing uses. Tests, scripts and the documents
  are not code of the server.
\<close>

section \<open>From the environment variables to the client\<close>

text \<open>
  What \<^verbatim>\<open>main\<close> hands to the heartbeat and to the service; \<open>make_verifier\<close> makes the verifier for a key file, and \<^verbatim>\<open>main\<close> stops if it cannot.
\<close>

definition server_env :: "running \<Rightarrow> environment \<Rightarrow> environment" where
  "server_env r env = env\<lparr>env_engine_ready := en_ready (ru_engine r), env_prefer_local := ru_prefer_local r,
     env_backpressure := new_backpressure\<rparr>"

definition server_jwt :: "(string \<Rightarrow> jwt_verifier option) \<Rightarrow> running \<Rightarrow> jwt_verifier option" where
  "server_jwt make_verifier r = (case ru_jwt_key r of None \<Rightarrow> None | Some key_file \<Rightarrow> make_verifier key_file)"

lemma env_local_choices:
  "lg_prefer_local (env_local getenv l) = (getenv ''TTS_LOCAL_PREFER'' \<noteq> Some ''false'')"
  "lg_backend (env_local getenv l) = env_or getenv ''TTS_LOCAL_BACKEND'' ''sherpa''"
  by (simp_all add: env_local_def Let_def env_or_def split: option.split)

lemma running_settings:
  assumes "main_start create path_exists load_key listen getenv hw = Running r"
  shows "ru_engine r = create (local_tts_config_of (env_local getenv default_local_config))"
    and "ru_prefer_local r = (getenv ''TTS_LOCAL_PREFER'' \<noteq> Some ''false'')"
proof -
  obtain c where c: "from_env getenv hw = Inr c" "start create load_key listen c = Running r"
    using assms by (auto simp: main_start_def split: sum.splits)
  show "ru_engine r = create (local_tts_config_of (env_local getenv default_local_config))"
    using c(2) from_env_local [OF c(1)] by (auto simp: start_def split: if_splits)
  show "ru_prefer_local r = (getenv ''TTS_LOCAL_PREFER'' \<noteq> Some ''false'')"
    using c(2) from_env_local [OF c(1)] env_local_choices(1) [of getenv default_local_config]
    by (auto simp: start_def split: if_splits)
qed




section \<open>From the environment variables to the token\<close>

text \<open>
  C9. Only signed tokens pass. If \<^verbatim>\<open>main\<close> reaches the running state with \<^verbatim>\<open>GRPC_AUTH_ENABLED\<close> set to \<^verbatim>\<open>true\<close>, a call passes exactly if its authorization
  header is a bearer token of three parts whose signature the key of the configured file verifies over the first two parts as sent, whose
  header names RS256, which has not expired, and whose issuer is \<^verbatim>\<open>tts-service\<close>. The calls of OpenSSL must all have returned 1.
\<close>

theorem only_signed_tokens_pass:
  fixes getenv :: environ and fopen pem_read evp b64 now
  defines "key_verifier \<equiv> from_rsa256_public_key_file fopen pem_read evp b64 now"
  assumes "main_start create path_exists (\<lambda>f. key_verifier f \<noteq> None) listen getenv hw = Running r" and "getenv ''GRPC_AUTH_ENABLED'' = Some ''true''"
  shows "check_auth (server_jwt key_verifier r) md \<longleftrightarrow>
    (\<exists>key_file pkey token h p s hj pj sj. getenv ''GRPC_JWT_PUBLIC_KEY_FILE'' = Some key_file \<and> fopen key_file \<and> pem_read key_file = Some pkey \<and>
       map_of md ''authorization'' = Some (''Bearer '' @ token) \<and> split_dot token = [h, p, s] \<and>
       base64url_decode b64 h = Some hj \<and> base64url_decode b64 p = Some pj \<and> base64url_decode b64 s = Some sj \<and>
       evp_ctx_new evp \<and> evp_verify_init evp pkey = 1 \<and> evp_verify_update evp pkey (h @ ''.'' @ p) = 1 \<and>
       evp_verify_final evp pkey (h @ ''.'' @ p) sj = 1 \<and>
       str_find ''\"alg\":\"RS256\"'' hj \<noteq> None \<and> \<not> expired now pj \<and> find_value pj ''iss'' = ''tts-service'')"
proof -
  obtain key_file where k: "ru_jwt_key r = Some key_file" "getenv ''GRPC_JWT_PUBLIC_KEY_FILE'' = Some key_file" "key_verifier key_file \<noteq> None"
    using running_authentication [OF assms(2)] assms(3) by auto
  then obtain pkey where p: "fopen key_file" "pem_read key_file = Some pkey"
    by (auto simp: key_verifier_def from_rsa256_public_key_file_def load_public_key_pem_def split: if_splits option.splits)
  then have "server_jwt key_verifier r = Some (rsa256_verify evp b64 now pkey)"
    by (simp add: server_jwt_def k(1) key_verifier_def from_rsa256_public_key_file_def load_public_key_pem_def)
  then show ?thesis
    by (auto simp: check_auth_iff rsa256_verify_def jwt_verify_Ok verify_rsa_sha256_iff k(2) p)
qed

text \<open>A library that accepts every key and signature, and decodes the parts of one token.\<close>

definition example_evp :: "unit evp" where
  "example_evp = \<lparr>evp_ctx_new = True, evp_verify_init = (\<lambda>_. 1), evp_verify_update = (\<lambda>_ _. 1), evp_verify_final = (\<lambda>_ _ _. 1)\<rparr>"

definition example_b64 :: "string \<Rightarrow> string option" where
  "example_b64 s = Some (if take 1 s = ''h'' then ''{\"alg\":\"RS256\"}'' else ''{\"iss\":\"tts-service\",\"exp\":99}'')"

lemma example_token:
  "split_dot ''h.p.s'' = [''h'', ''p'', ''s'']" "base64url_decode example_b64 ''h'' = Some ''{\"alg\":\"RS256\"}''"
  "base64url_decode example_b64 ''p'' = Some ''{\"iss\":\"tts-service\",\"exp\":99}''"
  "base64url_decode example_b64 ''s'' = Some ''{\"iss\":\"tts-service\",\"exp\":99}''"
  "str_find ''\"alg\":\"RS256\"'' ''{\"alg\":\"RS256\"}'' \<noteq> None" "\<not> expired 5 ''{\"iss\":\"tts-service\",\"exp\":99}''"
  "find_value ''{\"iss\":\"tts-service\",\"exp\":99}'' ''iss'' = ''tts-service''"
  by code_simp+

theorem only_signed_tokens_pass_witness:
  "check_auth (server_jwt (from_rsa256_public_key_file (\<lambda>_. True) (\<lambda>_. Some ()) example_evp example_b64 5) example_running)
     [(''authorization'', ''Bearer h.p.s'')]"
proof -
  let ?make = "from_rsa256_public_key_file (\<lambda>_. True) (\<lambda>_. Some ()) example_evp example_b64 5"
  have "?make f \<noteq> None" for f by (simp add: from_rsa256_public_key_file_def load_public_key_pem_def)
  then have "main_start (\<lambda>_. example_engine) (\<lambda>_. True) (\<lambda>f. ?make f \<noteq> None) (\<lambda>_. True) example_environ 4 = Running example_running"
    using example_starts by simp
  note pass = only_signed_tokens_pass [OF this]
  show ?thesis
    by (subst pass) (use example_token in \<open>auto simp: example_environ_def example_evp_def\<close>)
qed

section \<open>From the environment variables to the log\<close>

text \<open>The process that \<^verbatim>\<open>main\<close> starts, with the numbers of workers it was configured with.\<close>

definition server_process :: "running \<Rightarrow> process" where
  "server_process r = new_process (unat (ru_bus_workers r)) (unat (ru_cpu_workers r)) (unat (ru_io_workers r))"

lemma running_bus_workers:
  assumes "main_start create path_exists load_key listen getenv hw = Running r"
  shows "ru_bus_workers r = env_size getenv ''TTS_BUS_WORKERS'' 1"
proof -
  obtain c where c: "from_env getenv hw = Inr c" "start create load_key listen c = Running r"
    using assms by (auto simp: main_start_def split: sum.splits)
  have "cg_bus_workers c = env_size getenv ''TTS_BUS_WORKERS'' 1"
    using c(1) by (rule from_env_stages) (simp add: env_workers_def Let_def)
  then show ?thesis using c(2) by (auto simp: start_def split: if_splits)
qed

text \<open>
  Without \<^verbatim>\<open>TTS_BUS_WORKERS\<close> a running server writes its refusals to the log in the order in which it makes them; with \<^verbatim>\<open>TTS_BUS_WORKERS=0\<close> it
  writes none, although the configuration is accepted.
\<close>

lemma no_workers_reach:
  assumes "runs inbox_step (started_inbox 0) bevs b"
  shows "ib_run b = []"
  using no_workers_no_events [of bevs b] assms by (simp add: start_new_threads)

theorem configured_server_logs:
  assumes "main_start create path_exists load_key listen getenv hw = Running r"
    and "runs (process_step env engine jwt) (server_process r) evs p" and "\<forall>c. ps_main p \<noteq> Returned c"
  shows "(getenv ''TTS_BUS_WORKERS'' = None \<longrightarrow> prefix (hb_log (server_of p)) (map snd (ps_published p))) \<and>
    (getenv ''TTS_BUS_WORKERS'' = Some ''0'' \<longrightarrow> hb_log (server_of p) = [])"
proof -
  let ?n = "unat (ru_bus_workers r)"
  have "bus_ok engine ?n p" using bus_ok_run assms(2) unfolding server_process_def by blast
  then have log: "log_ok p" and reached: "bus_reached ?n p" using assms(3) by (auto simp: bus_ok_def)
  from reached assms(3) obtain bevs where b: "runs inbox_step (started_inbox ?n) bevs (inbox_of p)" by (auto simp: bus_reached_def)
  have "prefix (hb_log (server_of p)) (map snd (ps_published p))" if "getenv ''TTS_BUS_WORKERS'' = None"
  proof -
    have "?n = 1" using running_bus_workers [OF assms(1)] that by (simp add: env_size_def)
    then have "one_worker (inbox_of p)" using b single_run by simp
    then show ?thesis using log by (auto simp: one_worker_def log_ok_def)
  qed
  moreover have "hb_log (server_of p) = []" if zero: "getenv ''TTS_BUS_WORKERS'' = Some ''0''"
  proof -
    have z: "stoull ''0'' = Some 0" by code_simp
    have "?n = 0" using running_bus_workers [OF assms(1)] zero z by (simp add: env_size_def)
    then show ?thesis using b no_workers_reach log by (simp add: log_ok_def)
  qed
  ultimately show ?thesis by blast
qed

end
